(* ===== verification/Prelude.thy ===== *)
theory Prelude
  imports Complex_Main "HOL-Library.Word" "HOL-Library.Log_Nat" "HOL-Library.Signed_Division"
begin

text \<open>
  The vocabulary shared by all components: the widths of the C++ integers, the values
  that stand for an aborted call, and the conversions of C++ from floating point to
  integers. An unsigned C++ integer of width \<open>w\<close> is a \<open>w word\<close> (it wraps around, as in
  C++). A signed 64-bit integer is an \<^typ>\<open>int\<close>: overflow of a signed integer is undefined
  in C++, so the model says nothing of such runs.
\<close>

type_synonym u8 = "8 word"
type_synonym u16 = "16 word"
type_synonym u32 = "32 word"
type_synonym u64 = "64 word"

text \<open>
  A call ends by a value or by one of the ways the sources abort: a failed
  \<open>QUICHE_CHECK\<close> or \<open>NS_ASSERT\<close>, an exception, an integer division by zero, or the use of
  an iterator of an erased entry or of a null pointer, which C++ leaves undefined.
\<close>

datatype cpp_error = CheckFailed | AssertFailed | RuntimeError string | DivideByZero
  | InvalidIterator | NullPointer

type_synonym 'a result = "cpp_error + 'a"

named_theorems quic_word \<open>facts that move a word expression to natural numbers\<close>

lemma word_gt_0_unat: "0 < x \<longleftrightarrow> 0 < unat (x :: 'a::len word)"
  by (simp add: word_less_nat_alt)

lemma unat_bound: "unat (w :: 'a::len word) < 2 ^ LENGTH('a)"
  by (rule unsigned_less)

lemma sint_u64: "sint (w::u64) = (if uint w < 2 ^ 63 then uint w else uint w - 2 ^ 64)"
proof -
  have "sint w = (uint w + 2 ^ 63) mod 2 ^ 64 - 2 ^ 63"
    by (simp add: sint_uint signed_take_bit_eq_take_bit_shift take_bit_eq_mod)
  moreover have "0 \<le> uint w" "uint w < 2 ^ 64" using uint_lt2p [of w] by simp_all
  ultimately show ?thesis
    by (cases "uint w < 2 ^ 63") (simp_all add: mod_pos_pos_trivial mod_pos_geq)
qed

lemma unat_uint_less: "unat (w :: 'a::len word) < n \<longleftrightarrow> uint w < int n"
  by (metis nat_uint_eq nat_less_iff uint_nonnegative)

lemma unat_uint_le: "n \<le> unat (w :: 'a::len word) \<longleftrightarrow> int n \<le> uint w"
  by (simp add: unat_uint_less flip: linorder_not_less)

lemma uint_sub_le [quic_word]: "y \<le> x \<Longrightarrow> uint (x - y :: 'a::len word) = uint x - uint y"
  by (simp add: uint_sub_lem [THEN iffD1] word_le_def)

lemma uint_add_u64 [quic_word]: "uint x + uint y < 2 ^ 64 \<Longrightarrow> uint (x + y :: u64) = uint x + uint y"
  by (simp add: uint_word_ariths mod_pos_pos_trivial)

lemma uint_mult_u64 [quic_word]: "uint x * uint y < 2 ^ 64 \<Longrightarrow> uint (x * y :: u64) = uint x * uint y"
  by (simp add: uint_word_ariths mod_pos_pos_trivial)

lemma unat_add_u64 [quic_word]: "unat x + unat y < 2 ^ 64 \<Longrightarrow> unat (x + y :: u64) = unat x + unat y"
  by (simp add: unat_word_ariths)

lemma unat_mult_u64 [quic_word]: "unat x * unat y < 2 ^ 64 \<Longrightarrow> unat (x * y :: u64) = unat x * unat y"
  by (simp add: unat_word_ariths)

lemma uint_ucast_u16 [quic_word]: "uint (ucast (x :: u16) :: u64) = uint x"
  using uint_lt2p [of x] by (simp add: unsigned_ucast_eq take_bit_int_eq_self)

lemma sdiv_nonneg: "0 \<le> a \<Longrightarrow> 0 \<le> b \<Longrightarrow> (a::int) sdiv b = a div b"
  by (auto simp: signed_divide_int_def sgn_if)

lemma unsigned_rat_nonneg [simp]: "0 \<le> (unsigned (w :: 'a::len word) :: rat)"
proof -
  have "(unsigned w :: rat) = of_int (uint w)" by simp
  then show ?thesis by (simp only: of_int_0_le_iff uint_nonnegative)
qed

subsection \<open>From rationals to integers\<close>

text \<open>\<open>static_cast\<close> of a floating point value to an integer type drops the fraction.\<close>

definition ctrunc :: "rat \<Rightarrow> int" where
  "ctrunc x = (if 0 \<le> x then \<lfloor>x\<rfloor> else \<lceil>x\<rceil>)"

text \<open>\<open>std::llround\<close> rounds to the nearest integer, halfway cases away from zero.\<close>

definition llround :: "rat \<Rightarrow> int" where
  "llround x = (if 0 \<le> x then \<lfloor>x + 1/2\<rfloor> else - \<lfloor>- x + 1/2\<rfloor>)"

lemma ctrunc_of_int [simp]: "ctrunc (of_int n) = n"
  by (simp add: ctrunc_def)

lemma ctrunc_nonneg [simp]: "0 \<le> x \<Longrightarrow> 0 \<le> ctrunc x"
  by (simp add: ctrunc_def)

lemma ctrunc_le: "0 \<le> x \<Longrightarrow> of_int (ctrunc x) \<le> x"
  by (simp add: ctrunc_def)

lemma ctrunc_mono: "0 \<le> x \<Longrightarrow> x \<le> y \<Longrightarrow> ctrunc x \<le> ctrunc y"
  by (simp add: ctrunc_def floor_mono)

lemma llround_nonneg [simp]: "0 \<le> x \<Longrightarrow> 0 \<le> llround x"
  by (simp add: llround_def)

lemma llround_of_int [simp]: "llround (of_int n) = n"
  by (simp add: llround_def floor_eq_iff ceiling_eq_iff)

lemma llround_mono: "0 \<le> x \<Longrightarrow> x \<le> y \<Longrightarrow> llround x \<le> llround y"
  by (simp add: llround_def floor_mono)

lemma llround_complement:
  assumes "0 \<le> x" "0 \<le> y" "x + y = of_int n"
  shows "n \<le> llround x + llround y"
proof -
  have "of_int n < of_int (\<lfloor>x + 1/2\<rfloor> + \<lfloor>y + 1/2\<rfloor> + 1) + (1 :: rat)"
    using floor_correct [of "x + 1/2"] floor_correct [of "y + 1/2"] assms(3) by simp
  then have A: "n \<le> \<lfloor>x + 1/2\<rfloor> + \<lfloor>y + 1/2\<rfloor> + 1" by linarith
  have "\<lfloor>x + 1/2\<rfloor> + \<lfloor>y + 1/2\<rfloor> \<ge> n"
  proof (rule ccontr)
    assume "\<not> ?thesis"
    with A have "n = \<lfloor>x + 1/2\<rfloor> + \<lfloor>y + 1/2\<rfloor> + 1" by simp
    then have "x + y = of_int \<lfloor>x + 1/2\<rfloor> + of_int \<lfloor>y + 1/2\<rfloor> + 1" using assms(3) by simp
    moreover have "x + 1/2 < of_int \<lfloor>x + 1/2\<rfloor> + 1" "y + 1/2 < of_int \<lfloor>y + 1/2\<rfloor> + 1"
      by (rule floor_correct [THEN conjunct2, simplified])+
    ultimately show False by linarith
  qed
  then show ?thesis using assms by (simp add: llround_def)
qed

end
