(* ===== verification/Quic_Tag.thy ===== *)
theory Quic_Tag
  imports Prelude
begin

unbundle bit_operations_syntax

text \<open>
  The packet tag of \<open>ns3-quic-tag.cc\<close>, which carries the sequence number and the send time of
  a packet from the client to the server. A \<open>TagBuffer\<close> is ns-3's; what the tag does with it
  is the sequence of bytes it passes to \<open>WriteU8\<close> and the sequence of bytes \<open>ReadU8\<close> returns,
  so an encoder returns the bytes it writes and a decoder takes the bytes it is given.
  \<open>None\<close> of a decoder: it asks for a byte after the last one.
\<close>

record ns3_quic_tag =
  tag_seq :: u64
  tag_time :: u64

subsection \<open>Definitions\<close>

text \<open>The body of the \<open>do\<close> loop of \<open>varint_length\<close>, on the signed \<open>next\<close>.\<close>

function varint_length_loop :: "int \<Rightarrow> u64 \<Rightarrow> u64" where
  "varint_length_loop next key =
     (let next' = next sdiv 128; key' = key + 1
      in if 0 < next' then varint_length_loop next' key' else key')"
  by pat_completeness auto
termination
  by (relation "measure (\<lambda>(next, key). nat next)")
     (auto simp: signed_divide_int_def sgn_if split: if_splits)

declare varint_length_loop.simps [simp del]

definition varint_length :: "u64 \<Rightarrow> u64" where
  "varint_length number =
     (let next = sint number in if next \<noteq> 0 then varint_length_loop next 0 else 0)"

definition GetSerializedSize :: "ns3_quic_tag \<Rightarrow> u32" where
  "GetSerializedSize t = ucast (varint_length (tag_seq t) + varint_length (tag_time t))"

function varint_encode_loop :: "u64 \<Rightarrow> u8 list" where
  "varint_encode_loop next =
     (let first = ucast (next mod 128) :: u8; next' = next div 128
      in if 0 < next' then (first OR 128) # varint_encode_loop next' else [first])"
  by pat_completeness auto
termination
proof (relation "measure unat")
  fix n :: u64 and b :: u8 and n' :: u64
  assume n: "n' = n div 128" "0 < n'"
  have "unat n' = unat n div 128" by (simp add: n(1) unat_div_distrib)
  moreover have "0 < unat n'" using n(2) by (simp add: word_gt_0_unat)
  ultimately show "(n', n) \<in> measure unat" by simp
qed simp

declare varint_encode_loop.simps [simp del]

definition VarintEncode :: "u64 \<Rightarrow> u8 list" where
  "VarintEncode v = (if v \<noteq> 0 then varint_encode_loop v else [])"

fun varint_decode_loop :: "u8 list \<Rightarrow> u64 \<Rightarrow> u64 \<Rightarrow> (u64 \<times> u8 list) option" where
  "varint_decode_loop [] remain remain_multi = None"
| "varint_decode_loop (byte # i) remain remain_multi =
     (let remain' = remain + ucast (byte AND 127) * remain_multi;
          remain_multi' = remain_multi * 128
      in if byte AND 128 \<noteq> 0 then varint_decode_loop i remain' remain_multi'
         else Some (remain', i))"

definition VarientDecode :: "u8 list \<Rightarrow> (u64 \<times> u8 list) option" where
  "VarientDecode i = varint_decode_loop i 0 1"

definition Serialize :: "ns3_quic_tag \<Rightarrow> u8 list" where
  "Serialize t = VarintEncode (tag_seq t) @ VarintEncode (tag_time t)"

definition Deserialize :: "u8 list \<Rightarrow> (ns3_quic_tag \<times> u8 list) option" where
  "Deserialize i = (case VarientDecode i of None \<Rightarrow> None | Some (s, i') \<Rightarrow>
     (case VarientDecode i' of None \<Rightarrow> None | Some (t, i'') \<Rightarrow> Some (\<lparr>tag_seq = s, tag_time = t\<rparr>, i'')))"

subsection \<open>The bits of one byte\<close>

lemma low_bits:
  fixes x :: u64
  shows "ucast ((ucast (x mod 128) :: u8) AND 127) = x mod 128"
    and "(ucast (x mod 128) :: u8) AND 128 = 0"
    and "ucast (((ucast (x mod 128) :: u8) OR 128) AND 127) = x mod 128"
    and "((ucast (x mod 128) :: u8) OR 128) AND 128 \<noteq> 0"
proof -
  have m: "x mod 128 = take_bit 7 x" by (simp add: take_bit_eq_mod)
  have n: "(127::u8) = mask 7" "(128::u8) = 2 ^ 7" by (simp_all add: mask_eq_exp_minus_1)
  show "ucast ((ucast (x mod 128) :: u8) AND 127) = x mod 128"
    unfolding m n by (rule bit_word_eqI) (auto simp: bit_simps)
  show "(ucast (x mod 128) :: u8) AND 128 = 0"
    unfolding m n by (rule bit_word_eqI) (auto simp: bit_simps simp del: power_numeral)
  show "ucast (((ucast (x mod 128) :: u8) OR 128) AND 127) = x mod 128"
    unfolding m n by (rule bit_word_eqI) (auto simp: bit_simps simp del: power_numeral)
  have "bit (((ucast (x mod 128) :: u8) OR 128) AND 128) 7"
    unfolding n by (simp add: bit_simps)
  then show "((ucast (x mod 128) :: u8) OR 128) AND 128 \<noteq> 0" by auto
qed

lemma digit_split: "(v::u64) mod 128 + 128 * (v div 128) = v"
  by (metis add.commute mult.commute word_mod_div_equality)

subsection \<open>Decoding undoes encoding\<close>

lemma varint_decode_encode_loop:
  "varint_decode_loop (varint_encode_loop v @ rest) remain m = Some (remain + v * m, rest)"
proof (induction v arbitrary: remain m rule: varint_encode_loop.induct)
  case (1 v)
  show ?case
  proof (cases "0 < v div 128")
    case True
    have "varint_decode_loop (varint_encode_loop v @ rest) remain m =
        Some (remain + v mod 128 * m + v div 128 * (m * 128), rest)"
      using True "1.IH" by (simp add: varint_encode_loop.simps [of v] Let_def low_bits)
    also have "remain + v mod 128 * m + v div 128 * (m * 128) =
        remain + (v mod 128 + 128 * (v div 128)) * m"
      by (simp add: algebra_simps)
    finally show ?thesis by (simp only: digit_split)
  next
    case False
    then have "v div 128 = 0" using word_neq_0_conv by blast
    then have "v mod 128 = v" using digit_split [of v] by simp
    then show ?thesis using False low_bits(1,2) [of v]
      by (simp add: varint_encode_loop.simps [of v] Let_def)
  qed
qed

lemma VarientDecode_VarintEncode:
  "v \<noteq> 0 \<Longrightarrow> VarientDecode (VarintEncode v @ rest) = Some (v, rest)"
  by (simp add: VarientDecode_def VarintEncode_def varint_decode_encode_loop)

text \<open>C31: a tag whose sequence number and send time are both nonzero is read back by
  \<open>Deserialize\<close> exactly as \<open>Serialize\<close> wrote it, whatever bytes follow it.\<close>

theorem tag_roundtrip:
  assumes "tag_seq t \<noteq> 0" "tag_time t \<noteq> 0"
  shows "Deserialize (Serialize t @ rest) = Some (t, rest)"
  using assms by (simp add: Deserialize_def Serialize_def VarientDecode_VarintEncode)

theorem tag_roundtrip_witness:
  "Deserialize (Serialize \<lparr>tag_seq = 300, tag_time = 2 ^ 63\<rparr> @ [7]) =
     Some (\<lparr>tag_seq = 300, tag_time = 2 ^ 63\<rparr>, [7])"
  by (rule tag_roundtrip) simp_all

subsection \<open>The announced size\<close>

lemma varint_encode_length_loop:
  "varint_length_loop (uint v) key = key + of_nat (length (varint_encode_loop v))"
proof (induction v arbitrary: key rule: varint_encode_loop.induct)
  case (1 v)
  have d: "uint v sdiv 128 = uint (v div 128)"
    by (simp add: signed_divide_int_def uint_div_distrib sgn_if)
  have pos: "0 < uint (v div 128) \<longleftrightarrow> 0 < v div 128"
    by (simp add: word_less_def)
  show ?case
    using "1.IH"
    by (auto simp: varint_length_loop.simps [of "uint v"] varint_encode_loop.simps [of v]
        Let_def d pos)
qed

lemma varint_length_encode:
  "unat v < 2 ^ 63 \<Longrightarrow> varint_length v = of_nat (length (VarintEncode v))"
  using varint_encode_length_loop [of v 0]
  by (auto simp: varint_length_def VarintEncode_def Let_def sint_u64 unat_uint_less uint_0_iff)

lemma varint_encode_length_le: "unat v < 128 ^ n \<Longrightarrow> 0 < n \<Longrightarrow> length (varint_encode_loop v) \<le> n"
proof (induction v arbitrary: n rule: varint_encode_loop.induct)
  case (1 v)
  show ?case
  proof (cases "0 < v div 128")
    case True
    then have "1 \<le> unat v div 128" by (simp add: word_gt_0_unat unat_div_distrib)
    then have "128 \<le> unat v" by (simp add: div_greater_zero_iff Suc_le_eq)
    then have "n \<noteq> 1" using "1.prems" by auto
    then obtain m where m: "n = Suc m" "0 < m" using "1.prems"(2) by (cases n) auto
    have "unat (v div 128) < 128 ^ m"
      using "1.prems"(1) by (simp add: m unat_div_distrib less_mult_imp_div_less mult.commute)
    then have "length (varint_encode_loop (v div 128)) \<le> m" using True m "1.IH" by simp
    then show ?thesis using True by (simp add: varint_encode_loop.simps [of v] m)
  qed (use "1.prems" in \<open>simp add: varint_encode_loop.simps [of v]\<close>)
qed

text \<open>For values below \<open>2\<^sup>6\<^sup>3\<close> the size announced to ns-3 is the number of bytes
  \<open>Serialize\<close> writes, and it is at most eighteen.\<close>

lemma tag_size_exact:
  assumes "unat (tag_seq t) < 2 ^ 63" "unat (tag_time t) < 2 ^ 63"
  shows "unat (GetSerializedSize t) = length (Serialize t) \<and> length (Serialize t) \<le> 18"
proof -
  have b: "length (VarintEncode v) \<le> 9" if "unat v < 2 ^ 63" for v
    using varint_encode_length_le [of v 9] that by (simp add: VarintEncode_def)
  then have l: "length (Serialize t) \<le> 18"
    using b [OF assms(1)] b [OF assms(2)] by (simp add: Serialize_def)
  have "GetSerializedSize t = ucast (of_nat (length (Serialize t)) :: u64)"
    using assms by (simp add: GetSerializedSize_def Serialize_def varint_length_encode)
  then show ?thesis using l by (simp add: unsigned_ucast_eq unsigned_of_nat take_bit_nat_eq_self)
qed



end
