(* ===== verification/Call_Runs.thy ===== *)
theory Call_Runs
  imports Prelude
begin

text \<open>
  Components that are driven by calls from outside: a step function takes a call and a state
  to the next state or to the way the call aborts. This theory holds runs of calls, what a
  caller owes in each state, and the interface \<open>call_system\<close>: an invariant that every legal
  call keeps, and the failures that are admitted.
\<close>

text \<open>A run of calls stops at the first one that aborts.\<close>

fun run_calls :: "('e \<Rightarrow> 's \<Rightarrow> 's result) \<Rightarrow> 'e list \<Rightarrow> 's \<Rightarrow> 's result" where
  "run_calls step [] s = Inr s"
| "run_calls step (e # es) s = (case step e s of Inl err \<Rightarrow> Inl err | Inr s' \<Rightarrow> run_calls step es s')"

text \<open>A run is legal if every call meets what the component expects of its caller in that state.\<close>

fun run_legal :: "('e \<Rightarrow> 's \<Rightarrow> 's result) \<Rightarrow> ('e \<Rightarrow> 's \<Rightarrow> bool) \<Rightarrow> 'e list \<Rightarrow> 's \<Rightarrow> bool" where
  "run_legal step ok [] s \<longleftrightarrow> True"
| "run_legal step ok (e # es) s \<longleftrightarrow>
     ok e s \<and> (case step e s of Inl err \<Rightarrow> True | Inr s' \<Rightarrow> run_legal step ok es s')"

lemma run_calls_append:
  "run_calls step (xs @ ys) s = (case run_calls step xs s of Inl e \<Rightarrow> Inl e | Inr s' \<Rightarrow> run_calls step ys s')"
  by (induction xs arbitrary: s) (auto split: sum.splits)

lemma run_legal_append:
  "run_legal step ok (xs @ ys) s \<longleftrightarrow> run_legal step ok xs s \<and>
     (case run_calls step xs s of Inl e \<Rightarrow> True | Inr s' \<Rightarrow> run_legal step ok ys s')"
  by (induction xs arbitrary: s) (auto split: sum.splits)

lemma run_legal_const: "list_all ok es \<Longrightarrow> run_legal step (\<lambda>e s. ok e) es s"
  by (induction es arbitrary: s) (auto split: sum.splits)

locale call_system =
  fixes step :: "'e \<Rightarrow> 's \<Rightarrow> 's result"
    and ok :: "'e \<Rightarrow> 's \<Rightarrow> bool"
    and inv :: "'s \<Rightarrow> bool"
    and failure :: "cpp_error \<Rightarrow> bool"
  assumes step_inv: "inv s \<Longrightarrow> ok e s \<Longrightarrow> (case step e s of Inl err \<Rightarrow> failure err | Inr s' \<Rightarrow> inv s')"
begin

text \<open>A legal run ends in a state that satisfies the invariant or by an admitted failure.\<close>

lemma run_outcome:
  "inv s \<Longrightarrow> run_legal step ok es s \<Longrightarrow>
   (case run_calls step es s of Inl err \<Rightarrow> failure err | Inr s' \<Rightarrow> inv s')"
proof (induction es arbitrary: s)
  case (Cons e es)
  then show ?case using step_inv [of s e] by (cases "step e s") auto
qed simp

end

end
