(* ===== verification/Ieee_Float.thy ===== *)
theory Ieee_Float
  imports Prelude
begin

text \<open>
  Binary floating point as the sources use it: \<open>float\<close> has a significand of 24 bits,
  \<open>double\<close> one of 53, and every operation rounds its exact result to the nearest
  representable value, ties to the even significand. A floating point value is the rational
  number it denotes. The exponent range is not modelled: the rates, windows and times of the
  sources stay between \<open>2\<^sup>-\<^sup>1\<^sup>0\<close> and \<open>2\<^sup>1\<^sup>0\<^sup>0\<close>, far inside both formats.
\<close>

subsection \<open>The binary exponent of a rational\<close>

definition fexp :: "rat \<Rightarrow> int" where
  "fexp x = (let (a, b) = quotient_of \<bar>x\<bar>;
                 e = int (floorlog 2 (nat a)) - int (floorlog 2 (nat b))
             in if 2 powi e \<le> \<bar>x\<bar> then e else e - 1)"

text \<open>Rounding of a rational to an integer, ties to even.\<close>

definition round_even :: "rat \<Rightarrow> int" where
  "round_even q = (let n = \<lfloor>q\<rfloor>; r = q - of_int n in
     if r < 1/2 then n else if 1/2 < r then n + 1 else if even n then n else n + 1)"

text \<open>Rounding to a significand of \<open>p\<close> bits.\<close>

definition fl :: "nat \<Rightarrow> rat \<Rightarrow> rat" where
  "fl p x = (let u = 2 powi (fexp x - int p + 1) in of_int (round_even (x / u)) * u)"

abbreviation f32 :: "rat \<Rightarrow> rat" where "f32 \<equiv> fl 24"
abbreviation f64 :: "rat \<Rightarrow> rat" where "f64 \<equiv> fl 53"

subsection \<open>The exponent is the right one\<close>

lemma powi_less_iff [simp]: "(2::rat) powi a < 2 powi b \<longleftrightarrow> a < b"
  by (metis linorder_not_less one_less_numeral_iff order.strict_iff_order power_int_increasing
      power_int_strict_increasing semiring_norm(76))

lemma powi_le_iff [simp]: "(2::rat) powi a \<le> 2 powi b \<longleftrightarrow> a \<le> b"
  by (simp flip: linorder_not_less)

lemma floorlog_pow_bounds:
  assumes "0 < (a::int)"
  shows "(2::rat) powi (int (floorlog 2 (nat a)) - 1) \<le> of_int a"
    and "of_int a < (2::rat) powi (int (floorlog 2 (nat a)))"
proof -
  let ?l = "floorlog 2 (nat a)"
  have l: "0 < ?l" "2 ^ (?l - 1) \<le> nat a" "nat a < 2 ^ ?l"
    using floorlog_bounds [of "nat a" 2] assms by (auto simp: floorlog_def)
  have "(2::rat) ^ (?l - 1) \<le> of_nat (nat a)"
    using l(2) by (metis of_nat_le_iff of_nat_numeral of_nat_power)
  then show "(2::rat) powi (int ?l - 1) \<le> of_int a"
    using l(1) assms by (simp add: power_int_def nat_diff_distrib of_nat_nat)
  have "of_nat (nat a) < (2::rat) ^ ?l"
    using l(3) by (metis of_nat_less_iff of_nat_numeral of_nat_power)
  then show "of_int a < (2::rat) powi (int ?l)"
    using assms by (simp add: power_int_def of_nat_nat)
qed

lemma fexp_bounds:
  assumes "x \<noteq> 0"
  shows "2 powi (fexp x) \<le> \<bar>x\<bar>" "\<bar>x\<bar> < 2 powi (fexp x + 1)"
proof -
  obtain a b where q: "quotient_of \<bar>x\<bar> = (a, b)" by force
  have b: "0 < b" using quotient_of_denom_pos [OF q] .
  have x: "\<bar>x\<bar> = of_int a / of_int b" using quotient_of_div [OF q] .
  have "0 < \<bar>x\<bar>" using assms by simp
  then have a: "0 < a" using b unfolding x by (simp add: zero_less_divide_iff)
  define e where "e = int (floorlog 2 (nat a)) - int (floorlog 2 (nat b))"
  note ra = floorlog_pow_bounds [OF a] and rb = floorlog_pow_bounds [OF b]
  have "2 powi (e - 1) * of_int b < (2::rat) powi (e - 1) * 2 powi (int (floorlog 2 (nat b)))"
    using rb(2) by simp
  also have "\<dots> = 2 powi (int (floorlog 2 (nat a)) - 1)"
    by (subst power_int_add [symmetric]) (simp_all add: e_def)
  also have "\<dots> \<le> of_int a" by (rule ra(1))
  finally have lo: "2 powi (e - 1) < \<bar>x\<bar>" using b by (simp add: x field_simps)
  have "of_int a < (2::rat) powi (int (floorlog 2 (nat a)))" by (rule ra(2))
  also have "\<dots> = 2 powi (e + 1) * 2 powi (int (floorlog 2 (nat b)) - 1)"
    by (subst power_int_add [symmetric]) (simp_all add: e_def)
  also have "\<dots> \<le> 2 powi (e + 1) * of_int b" using rb(1) by simp
  finally have hi: "\<bar>x\<bar> < 2 powi (e + 1)" using b by (simp add: x field_simps)
  show "2 powi (fexp x) \<le> \<bar>x\<bar>"
    using lo by (auto simp: fexp_def q e_def [symmetric] Let_def)
  show "\<bar>x\<bar> < 2 powi (fexp x + 1)"
    using hi by (auto simp: fexp_def q e_def [symmetric] Let_def)
qed

lemma fexp_unique:
  assumes "2 powi e \<le> \<bar>x\<bar>" "\<bar>x\<bar> < 2 powi (e + 1)"
  shows "fexp x = e"
proof -
  have "x \<noteq> 0" using assms(1) by (metis abs_zero less_le_not_le zero_less_numeral zero_less_power_int)
  note b = fexp_bounds [OF this]
  have "(2::rat) powi e < 2 powi (fexp x + 1)" "(2::rat) powi (fexp x) < 2 powi (e + 1)"
    using b assms by linarith+
  then show ?thesis by simp
qed

lemma fexp_mono: "0 < x \<Longrightarrow> x \<le> y \<Longrightarrow> fexp x \<le> fexp y"
proof -
  assume "0 < x" "x \<le> y"
  then have "2 powi (fexp x) \<le> x" "y < 2 powi (fexp y + 1)"
    using fexp_bounds [of x] fexp_bounds [of y] by simp_all
  then have "(2::rat) powi (fexp x) < 2 powi (fexp y + 1)" using \<open>x \<le> y\<close> by (rule_tac order_le_less_trans) auto
  then show ?thesis by simp
qed

subsection \<open>Rounding to an integer\<close>

lemma round_even_error: "\<bar>of_int (round_even q) - q\<bar> \<le> 1/2"
  using floor_correct [of q] by (auto simp: round_even_def Let_def)

lemma round_even_of_int [simp]: "round_even (of_int n) = n"
  by (simp add: round_even_def)

lemma round_even_0 [simp]: "round_even 0 = 0"
  by (simp add: round_even_def)

lemma round_even_mono:
  assumes "x \<le> y" shows "round_even x \<le> round_even y"
proof (cases "\<lfloor>x\<rfloor> = \<lfloor>y\<rfloor>")
  case True
  then show ?thesis using assms by (auto simp: round_even_def Let_def)
next
  case False
  then have "\<lfloor>x\<rfloor> + 1 \<le> \<lfloor>y\<rfloor>" using floor_mono [OF assms] by simp
  moreover have "round_even x \<le> \<lfloor>x\<rfloor> + 1" "\<lfloor>y\<rfloor> \<le> round_even y"
    by (auto simp: round_even_def Let_def)
  ultimately show ?thesis by simp
qed

lemma round_even_nonneg [simp]: "0 \<le> q \<Longrightarrow> 0 \<le> round_even q"
  using round_even_mono [of 0 q] by simp

subsection \<open>Rounding to a significand\<close>

lemma fl_0 [simp]: "fl p 0 = 0"
  by (simp add: fl_def Let_def)

lemma fl_nonneg [simp]: "0 \<le> x \<Longrightarrow> 0 \<le> fl p x"
  by (simp add: fl_def Let_def)

text \<open>The relative error of one rounding is at most half a unit in the last place.\<close>

lemma fl_error: "\<bar>fl p x - x\<bar> \<le> \<bar>x\<bar> / 2 ^ p"
proof (cases "x = 0")
  case False
  define u where "u = (2::rat) powi (fexp x - int p + 1)"
  have u: "0 < u" by (simp add: u_def)
  have "\<bar>fl p x - x\<bar> = \<bar>of_int (round_even (x / u)) - x / u\<bar> * u"
    using u by (simp add: fl_def u_def [symmetric] Let_def abs_mult_pos left_diff_distrib)
  also have "\<dots> \<le> 1/2 * u" using round_even_error [of "x / u"] u by (intro mult_right_mono) auto
  also have "1/2 * u = 2 powi (fexp x) / 2 ^ p"
    by (simp add: u_def power_int_add power_int_diff)
  also have "\<dots> \<le> \<bar>x\<bar> / 2 ^ p" using fexp_bounds(1) [OF False] by (simp add: divide_right_mono)
  finally show ?thesis .
qed simp

text \<open>A value whose significand fits is represented exactly.\<close>

lemma fl_exact:
  assumes "x = of_int k * 2 powi j" "\<bar>k\<bar> < 2 ^ p"
  shows "fl p x = x"
proof (cases "x = 0")
  case False
  have k: "\<bar>rat_of_int k\<bar> < 2 ^ p"
    using assms(2) by (metis of_int_abs of_int_less_iff of_int_numeral of_int_power)
  have "2 powi (fexp x) \<le> \<bar>rat_of_int k\<bar> * 2 powi j"
    using fexp_bounds(1) [OF False] by (simp add: assms(1) abs_mult)
  also have "\<dots> < 2 ^ p * 2 powi j" using k by simp
  also have "\<dots> = 2 powi (int p + j)" by (simp add: power_int_add)
  finally have "fexp x < int p + j" by simp
  then obtain n where n: "j = (fexp x - int p + 1) + int n"
    using zle_iff_zadd [of "fexp x - int p + 1" j] by auto
  define u where "u = (2::rat) powi (fexp x - int p + 1)"
  have "2 powi j = u * 2 ^ n" unfolding u_def by (subst n) (simp add: power_int_add)
  then have x: "x = of_int (k * 2 ^ n) * u" using assms(1) by simp
  have xu: "x / u = of_int (k * 2 ^ n)"
    using x by (metis nonzero_mult_div_cancel_right power_int_not_zero u_def zero_neq_numeral)
  have "fl p x = of_int (round_even (x / u)) * u" by (simp add: fl_def u_def Let_def)
  also have "\<dots> = of_int (k * 2 ^ n) * u" by (simp only: xu round_even_of_int)
  also have "\<dots> = x" using x by simp
  finally show ?thesis .
qed simp

lemma fl_of_int: "\<bar>k\<bar> < 2 ^ p \<Longrightarrow> fl p (of_int k) = of_int k"
  by (rule fl_exact [where j = 0]) auto

subsection \<open>Rounding is monotone\<close>

lemma scaled_bounds:
  assumes "0 < x" "0 < p"
  shows "2 ^ (p - 1) \<le> x / 2 powi (fexp x - int p + 1)"
    and "x / 2 powi (fexp x - int p + 1) \<le> 2 ^ p"
proof -
  let ?u = "(2::rat) powi (fexp x - int p + 1)"
  have b: "2 powi fexp x \<le> x" "x < 2 powi (fexp x + 1)"
    using fexp_bounds [of x] assms(1) by simp_all
  have "(2::rat) ^ (p - 1) * ?u = 2 powi fexp x"
    using assms(2) by (simp add: power_int_add power_int_diff power_diff)
  moreover have "(2::rat) ^ p * ?u = 2 powi (fexp x + 1)"
    by (simp add: power_int_add power_int_diff)
  ultimately show "2 ^ (p - 1) \<le> x / ?u" "x / ?u \<le> 2 ^ p"
    using b by (simp_all add: pos_le_divide_eq pos_divide_le_eq)
qed

lemma fl_binade:
  assumes "0 < x" "0 < p"
  shows "2 powi fexp x \<le> fl p x" "fl p x \<le> 2 powi (fexp x + 1)"
proof -
  let ?u = "(2::rat) powi (fexp x - int p + 1)"
  have "round_even (of_int (2 ^ (p - 1))) \<le> round_even (x / ?u)"
    using scaled_bounds(1) [OF assms] by (intro round_even_mono) simp
  then have "rat_of_int (2 ^ (p - 1)) \<le> of_int (round_even (x / ?u))"
    by (simp only: round_even_of_int of_int_le_iff)
  then have "2 ^ (p - 1) * ?u \<le> fl p x"
    by (simp add: fl_def Let_def)
  moreover have "(2::rat) ^ (p - 1) * ?u = 2 powi fexp x"
    using assms(2) by (simp add: power_int_add power_int_diff power_diff)
  ultimately show "2 powi fexp x \<le> fl p x" by simp
  have "round_even (x / ?u) \<le> round_even (of_int (2 ^ p))"
    using scaled_bounds(2) [OF assms] by (intro round_even_mono) simp
  then have "of_int (round_even (x / ?u)) \<le> rat_of_int (2 ^ p)"
    by (simp only: round_even_of_int of_int_le_iff)
  then have "fl p x \<le> 2 ^ p * ?u"
    by (simp add: fl_def Let_def)
  moreover have "(2::rat) ^ p * ?u = 2 powi (fexp x + 1)"
    by (simp add: power_int_add power_int_diff)
  ultimately show "fl p x \<le> 2 powi (fexp x + 1)" by simp
qed

lemma fl_mono:
  assumes "x \<le> y" "0 \<le> x" "0 < p" shows "fl p x \<le> fl p y"
proof (cases "x = 0")
  case False
  then have x: "0 < x" and y: "0 < y" using assms by auto
  show ?thesis
  proof (cases "fexp x = fexp y")
    case True
    have "x / 2 powi (fexp x - int p + 1) \<le> y / 2 powi (fexp x - int p + 1)"
      using assms(1) by (simp add: divide_right_mono)
    then have "round_even (x / 2 powi (fexp x - int p + 1)) \<le> round_even (y / 2 powi (fexp x - int p + 1))"
      by (rule round_even_mono)
    then show ?thesis using True by (simp add: fl_def Let_def)
  next
    case False
    then have "fexp x + 1 \<le> fexp y" using fexp_mono [OF x assms(1)] by simp
    then have "(2::rat) powi (fexp x + 1) \<le> 2 powi fexp y" by simp
    then show ?thesis
      using fl_binade(2) [OF x assms(3)] fl_binade(1) [OF y assms(3)] by (meson order_trans)
  qed
qed (use assms in simp)

text \<open>Upper and lower bounds of one rounding of a nonnegative value.\<close>

lemma fl_upper: "0 \<le> x \<Longrightarrow> fl p x \<le> x * (1 + 1 / 2 ^ p)"
  using fl_error [of p x] by (simp add: algebra_simps)

lemma fl_lower: "0 \<le> x \<Longrightarrow> x * (1 - 1 / 2 ^ p) \<le> fl p x"
  using fl_error [of p x] by (simp add: algebra_simps)

text \<open>The rounded quotient of two integers has the right integer part, as long as the dividend
  is exact: it is then too far from the next integer to be rounded up to it.\<close>

lemma fl_div_floor:
  assumes "0 \<le> a" "a < 2 ^ p" "0 < (b::int)" "0 < p"
  shows "\<lfloor>fl p (of_int a / of_int b)\<rfloor> = a div b"
proof -
  let ?q = "rat_of_int a / of_int b"
  have q: "0 \<le> ?q" using assms by simp
  have b: "(0::rat) < of_int b" "rat_of_int a < 2 ^ p"
    using assms(2,3) by (simp, metis of_int_less_iff of_int_numeral of_int_power)
  have fin: "of_int (a div b) \<le> ?q" "?q \<le> of_int (a div b + 1) - 1 / of_int b"
  proof -
    show "of_int (a div b) \<le> ?q"
      using of_int_floor_le [of ?q] by (simp only: floor_divide_of_int_eq)
    have "a = a div b * b + a mod b" "a mod b < b" using assms(3) by simp_all
    then have "a + 1 \<le> a div b * b + b" by linarith
    then have "a + 1 \<le> (a div b + 1) * b" by (simp only: distrib_right mult_1)
    then have "rat_of_int (a + 1) \<le> of_int ((a div b + 1) * b)" by (simp only: of_int_le_iff)
    then have "(rat_of_int a + 1) / of_int b \<le> of_int (a div b + 1)"
      using b by (simp add: pos_divide_le_eq)
    then show "?q \<le> of_int (a div b + 1) - 1 / of_int b" by (simp add: add_divide_distrib)
  qed
  have "fl p ?q \<le> ?q + ?q / 2 ^ p" using fl_upper [OF q, of p] by (simp add: algebra_simps)
  also have "?q / 2 ^ p < 1 / of_int b" using b by (simp add: field_simps)
  finally have up: "fl p ?q < of_int (a div b + 1)" using fin(2) by simp
  have "0 \<le> a div b" "a div b \<le> a div 1"
    using assms zdiv_mono2 [of a 1 b] by (simp_all add: pos_imp_zdiv_nonneg_iff)
  then have "\<bar>a div b\<bar> < 2 ^ p" using assms(2) by simp
  then have "fl p (of_int (a div b)) = of_int (a div b)" by (rule fl_of_int)
  moreover have "fl p (of_int (a div b)) \<le> fl p ?q"
    by (rule fl_mono) (use fin assms in \<open>auto simp: pos_imp_zdiv_nonneg_iff\<close>)
  ultimately show ?thesis using up by (simp add: floor_unique)
qed

end
