(* ===== verification/Quic_Time.thy ===== *)
theory Quic_Time
  imports Ieee_Float
begin

text \<open>
  Times and bandwidths: \<open>quic_time.h\<close> and \<open>quic_bandwidth.h\<close>. Both classes wrap one \<open>int64_t\<close>, a number
  of microseconds or of bits per second, so a value of either is that integer. A time that is
  not initialized is 0.
\<close>

type_synonym delta = int
type_synonym quic_time = int
type_synonym bandwidth = int
type_synonym byte_count = u64
type_synonym packet_count = u64

subsection \<open>Constants of \<open>quic_constants.h\<close>\<close>

definition kDefaultTCPMSS :: byte_count where "kDefaultTCPMSS = 1460"
definition kMaxSegmentSize :: byte_count where "kMaxSegmentSize = kDefaultTCPMSS"
definition kNumMicrosPerSecond :: u64 where "kNumMicrosPerSecond = 1000 * 1000"
definition kDefaultNumConnections :: int where "kDefaultNumConnections = 2"
definition kInitialRttMs :: int where "kInitialRttMs = 100"
definition kMaxResumptionCongestionWindow :: u64 where "kMaxResumptionCongestionWindow = 200"
definition kAlarmGranularity :: delta where "kAlarmGranularity = 1000"

lemmas quic_constants = kDefaultTCPMSS_def kMaxSegmentSize_def kNumMicrosPerSecond_def
  kDefaultNumConnections_def kInitialRttMs_def kMaxResumptionCongestionWindow_def kAlarmGranularity_def

subsection \<open>\<open>QuicTime::Delta\<close> and \<open>QuicTime\<close>\<close>

definition Delta_Zero :: delta where "Delta_Zero = 0"
definition Delta_Infinite :: delta where "Delta_Infinite = 2 ^ 63 - 1"
definition FromSeconds :: "int \<Rightarrow> delta" where "FromSeconds secs = secs * 1000 * 1000"
definition FromMilliseconds :: "int \<Rightarrow> delta" where "FromMilliseconds ms = ms * 1000"
definition ToSeconds :: "delta \<Rightarrow> int" where "ToSeconds d = d sdiv 1000 sdiv 1000"
definition ToMilliseconds :: "delta \<Rightarrow> int" where "ToMilliseconds d = d sdiv 1000"
definition Delta_IsZero :: "delta \<Rightarrow> bool" where "Delta_IsZero d \<longleftrightarrow> d = 0"
definition Delta_IsInfinite :: "delta \<Rightarrow> bool" where "Delta_IsInfinite d \<longleftrightarrow> d = Delta_Infinite"
definition Time_IsInitialized :: "quic_time \<Rightarrow> bool" where "Time_IsInitialized t \<longleftrightarrow> 0 \<noteq> t"

text \<open>\<open>Delta * double\<close>: both conversions and the product round to 53 bits, then \<open>llround\<close>.\<close>

definition delta_mult :: "delta \<Rightarrow> rat \<Rightarrow> delta" where
  "delta_mult lhs rhs = llround (f64 (f64 (of_int lhs) * rhs))"

subsection \<open>\<open>QuicBandwidth\<close>\<close>

text \<open>The private constructor takes a negative rate for zero.\<close>

definition mk_bandwidth :: "int \<Rightarrow> bandwidth" where
  "mk_bandwidth b = (if b \<ge> 0 then b else 0)"

definition FromBytesAndTimeDelta :: "byte_count \<Rightarrow> delta \<Rightarrow> bandwidth result" where
  "FromBytesAndTimeDelta bytes d =
     (if bytes = 0 then Inr (mk_bandwidth 0)
      else let num_micro_bits = sint (8 * bytes * kNumMicrosPerSecond)
           in if num_micro_bits < d then Inr (mk_bandwidth 1)
              else if d = 0 then Inl DivideByZero
              else Inr (mk_bandwidth (num_micro_bits sdiv d)))"

definition ToBytesPerPeriod :: "bandwidth \<Rightarrow> delta \<Rightarrow> byte_count" where
  "ToBytesPerPeriod bw d = of_int (bw * d sdiv 8) div kNumMicrosPerSecond"

definition TransferTime :: "bandwidth \<Rightarrow> byte_count \<Rightarrow> delta" where
  "TransferTime bw bytes =
     (if bw = 0 then Delta_Zero else sint (bytes * 8 * kNumMicrosPerSecond div of_int bw))"

text \<open>\<open>QuicBandwidth * float\<close>: the rate is first converted to \<open>float\<close>.\<close>

definition bandwidth_mult :: "bandwidth \<Rightarrow> rat \<Rightarrow> bandwidth" where
  "bandwidth_mult lhs rhs = mk_bandwidth (llround (f32 (f32 (of_int lhs) * rhs)))"

subsection \<open>Lemmas\<close>

lemma delta_mult_nonneg: "0 \<le> d \<Longrightarrow> 0 \<le> r \<Longrightarrow> 0 \<le> delta_mult d r"
  by (simp add: delta_mult_def)

lemma micro_bits:
  assumes "uint bytes * 8000000 < 2 ^ 63"
  shows "sint (8 * bytes * kNumMicrosPerSecond) = uint bytes * 8000000"
    and "uint (bytes * 8 * kNumMicrosPerSecond) = uint bytes * 8000000"
proof -
  have u: "uint (bytes * 8000000) = uint bytes * 8000000"
    using assms by (simp add: uint_word_ariths)
  have e: "8 * bytes * kNumMicrosPerSecond = bytes * 8000000"
      "bytes * 8 * kNumMicrosPerSecond = bytes * 8000000"
    by (simp_all add: kNumMicrosPerSecond_def)
  show "sint (8 * bytes * kNumMicrosPerSecond) = uint bytes * 8000000"
    "uint (bytes * 8 * kNumMicrosPerSecond) = uint bytes * 8000000"
    using assms unfolding e by (simp_all add: sint_u64 u)
qed

lemma FromBytesAndTimeDelta_exact:
  assumes "uint bytes * 8000000 < 2 ^ 63" "0 < d"
  shows "FromBytesAndTimeDelta bytes d =
           Inr (if bytes = 0 then 0 else max 1 (uint bytes * 8000000 div d))"
proof (cases "bytes = 0")
  case False
  have n: "0 < uint bytes * 8000000" using False uint_nonnegative [of bytes] uint_0_iff [of bytes] by linarith
  show ?thesis
  proof (cases "uint bytes * 8000000 < d")
    case True
    then have "uint bytes * 8000000 div d = 0" using n by (simp add: div_pos_pos_trivial)
    then show ?thesis using True False assms
      by (simp add: FromBytesAndTimeDelta_def micro_bits mk_bandwidth_def)
  next
    case F: False
    then have "1 \<le> uint bytes * 8000000 div d"
      using assms(2) by (simp add: pos_imp_zdiv_pos_iff int_one_le_iff_zero_less)
    then show ?thesis using F False assms n
      by (simp add: FromBytesAndTimeDelta_def micro_bits mk_bandwidth_def sdiv_nonneg)
  qed
qed (simp add: FromBytesAndTimeDelta_def mk_bandwidth_def)

lemma ToBytesPerPeriod_exact:
  assumes "0 \<le> bw" "0 \<le> d" "bw * d < 2 ^ 63"
  shows "uint (ToBytesPerPeriod bw d) = bw * d div 8000000"
proof -
  have b: "0 \<le> bw * d" using assms by simp
  then have "0 \<le> bw * d div 8" "bw * d div 8 < 2 ^ 64" using assms(3) by simp_all
  then have "uint (of_int (bw * d div 8) :: u64) = bw * d div 8"
    by (simp add: word_of_int_inverse uint_word_of_int_eq take_bit_int_eq_self)
  then show ?thesis using b
    by (simp add: ToBytesPerPeriod_def sdiv_nonneg uint_div_distrib kNumMicrosPerSecond_def
        flip: zdiv_zmult2_eq)
qed

text \<open>A rate computed from \<open>bytes\<close> over a period never carries more than \<open>bytes\<close> in that
  period, unless the rate had to be rounded up to one bit per second; and it carries less by
  at most the period (in microseconds) divided by eight million, plus one byte.\<close>

lemma bandwidth_period_bounds:
  assumes "uint bytes * 8000000 < 2 ^ 63" "0 < d" "d \<le> uint bytes * 8000000"
    "FromBytesAndTimeDelta bytes d = Inr bw"
  shows "uint (ToBytesPerPeriod bw d) \<le> uint bytes \<and>
         uint bytes \<le> uint (ToBytesPerPeriod bw d) + d div 8000000 + 1"
proof -
  let ?n = "uint bytes * 8000000"
  have "1 \<le> ?n div d" using assms(2,3) by (simp add: pos_imp_zdiv_pos_iff int_one_le_iff_zero_less)
  moreover have "bytes \<noteq> 0" using assms(2,3) by auto
  ultimately have bw: "bw = ?n div d"
    using FromBytesAndTimeDelta_exact [OF assms(1,2)] assms(4) by simp
  have "0 \<le> ?n mod d" "?n mod d < d" "bw * d = ?n - ?n mod d"
    using assms(2) by (simp_all add: bw minus_mod_eq_div_mult)
  then have le: "bw * d \<le> ?n" and gt: "?n - d < bw * d" by linarith+
  have e: "uint (ToBytesPerPeriod bw d) = bw * d div 8000000"
    using le assms(1,2) \<open>1 \<le> ?n div d\<close> by (intro ToBytesPerPeriod_exact) (simp_all add: bw)
  have "bw * d div 8000000 \<le> uint bytes" using le by linarith
  moreover have "uint bytes \<le> bw * d div 8000000 + d div 8000000 + 1" using gt by linarith
  ultimately show ?thesis by (simp add: e)
qed

end
