(* ===== verification/Packet_Types.thy ===== *)
theory Packet_Types
  imports Quic_Time
begin

text \<open>
  Packet numbers (\<open>quic_packet_number.cc\<close>), the packets a congestion event reports
  (\<open>quic_types.h\<close>), and the statistics the senders write (\<open>quic_connection_stats.h\<close>,
  \<open>quic_time_accumulator.h\<close>). A packet number is its \<open>uint64_t\<close>; the largest value stands for
  an uninitialized one.
\<close>

type_synonym packet_number = u64

record acked_packet =
  ap_packet_number :: packet_number
  ap_bytes_acked :: u16
  ap_receive_timestamp :: quic_time

record lost_packet =
  lp_packet_number :: packet_number
  lp_bytes_lost :: u16

record time_accumulator =
  ta_total_elapsed :: delta
  ta_last_start_time :: quic_time

record connection_stats =
  cs_slowstart_count :: u32
  cs_slowstart_packets_sent :: u64
  cs_slowstart_packets_lost :: u64
  cs_slowstart_bytes_lost :: u64
  cs_slowstart_duration :: time_accumulator
  cs_tcp_loss_events :: u32

subsection \<open>Definitions\<close>

definition UninitializedPacketNumber :: packet_number where
  "UninitializedPacketNumber = - 1"

definition pn_IsInitialized :: "packet_number \<Rightarrow> bool" where
  "pn_IsInitialized p \<longleftrightarrow> p \<noteq> UninitializedPacketNumber"

definition pn_Clear :: "packet_number \<Rightarrow> packet_number" where
  "pn_Clear p = UninitializedPacketNumber"

definition pn_UpdateMax :: "packet_number \<Rightarrow> packet_number \<Rightarrow> packet_number" where
  "pn_UpdateMax new_value p =
     (if \<not> pn_IsInitialized new_value then p
      else if \<not> pn_IsInitialized p then new_value
      else max p new_value)"

definition TimeAccumulator_new :: time_accumulator where
  "TimeAccumulator_new = \<lparr>ta_total_elapsed = Delta_Zero, ta_last_start_time = Delta_Infinite\<rparr>"

definition ta_IsRunning :: "time_accumulator \<Rightarrow> bool" where
  "ta_IsRunning a \<longleftrightarrow> ta_last_start_time a \<noteq> Delta_Infinite"

definition ta_Start :: "quic_time \<Rightarrow> time_accumulator \<Rightarrow> time_accumulator" where
  "ta_Start now a = a\<lparr>ta_last_start_time := now\<rparr>"

definition ta_Stop :: "quic_time \<Rightarrow> time_accumulator \<Rightarrow> time_accumulator" where
  "ta_Stop now a =
     (let a' = (if now > ta_last_start_time a
                then a\<lparr>ta_total_elapsed := ta_total_elapsed a + (now - ta_last_start_time a)\<rparr> else a)
      in a'\<lparr>ta_last_start_time := Delta_Infinite\<rparr>)"

definition ta_GetTotalElapsedTime :: "quic_time \<Rightarrow> time_accumulator \<Rightarrow> delta" where
  "ta_GetTotalElapsedTime now a =
     (if \<not> ta_IsRunning a then ta_total_elapsed a
      else if now \<le> ta_last_start_time a then ta_total_elapsed a
      else ta_total_elapsed a + (now - ta_last_start_time a))"

text \<open>What the constructors of the senders of the experiment do to the statistics they are given.\<close>

definition stats_reset_slowstart :: "connection_stats \<Rightarrow> connection_stats" where
  "stats_reset_slowstart st =
     st\<lparr>cs_slowstart_count := 0, cs_slowstart_duration := TimeAccumulator_new\<rparr>"

subsection \<open>Lemmas\<close>

lemma pn_UpdateMax_ge:
  "pn_IsInitialized n \<Longrightarrow> n \<le> pn_UpdateMax n p"
  by (simp add: pn_UpdateMax_def)

lemma pn_UpdateMax_init [simp]:
  "pn_IsInitialized (pn_UpdateMax n p) \<longleftrightarrow> pn_IsInitialized n \<or> pn_IsInitialized p"
  by (auto simp: pn_UpdateMax_def max_def)

lemma pn_UpdateMax_idem: "pn_UpdateMax n (pn_UpdateMax n p) = pn_UpdateMax n p"
  by (auto simp: pn_UpdateMax_def max_def)

lemma stop_after_start:
  "s \<le> e \<Longrightarrow> s \<noteq> Delta_Infinite \<Longrightarrow>
   ta_total_elapsed (ta_Stop e (ta_Start s a)) = ta_total_elapsed a + (e - s)"
  by (simp add: ta_Stop_def ta_Start_def Let_def)

end
