(* ===== verification/Send_Algorithm.thy ===== *)
theory Send_Algorithm
  imports Call_Runs Packet_Types
begin

text \<open>
  What the QUIC stack expects of a congestion controller (\<open>send_algorithm_interface.h\<close>): it is driven
  by a sequence of calls, any of which may abort, and its window never falls below the
  sender's minimum. The senders interpret this interface on their own steps.
\<close>

locale window_sender = call_system step ok inv failure
  for step :: "'e \<Rightarrow> 's \<Rightarrow> 's result" and ok :: "'e \<Rightarrow> 's \<Rightarrow> bool" and inv :: "'s \<Rightarrow> bool"
    and failure :: "cpp_error \<Rightarrow> bool" +
  fixes window :: "'s \<Rightarrow> byte_count"
    and floor_window :: byte_count
  assumes inv_floor: "inv s \<Longrightarrow> floor_window \<le> window s"
begin

text \<open>After a legal run, fewer bytes in flight than the floor may be topped up.\<close>

lemma run_floor:
  "inv s \<Longrightarrow> run_legal step ok es s \<Longrightarrow>
   (case run_calls step es s of
      Inl err \<Rightarrow> failure err
    | Inr s' \<Rightarrow> floor_window \<le> window s' \<and> (\<forall>b. b < floor_window \<longrightarrow> b < window s'))"
  using run_outcome [of s es] by (auto split: sum.splits dest: inv_floor)

end

end
