(* ===== verification/Rtt_Stats.thy ===== *)
theory Rtt_Stats
  imports Quic_Time
begin

text \<open>
  The round-trip time estimator of \<open>rtt_stats.cc\<close>. The smoothing factors are \<open>float\<close> constants that
  are exact in binary (1/8, 7/8, 1/4, 3/4). \<open>pow(x, 2)\<close> is taken as the correctly rounded square.
  The standard deviation itself (\<open>CalculateStandardDeviation\<close>, a square root) is only read for
  statistics and is not modelled.
\<close>

record rtt_stats =
  rtt_latest :: delta
  rtt_min :: delta
  rtt_smoothed :: delta
  rtt_previous_srtt :: delta
  rtt_mean_deviation :: delta
  rtt_sd_valid :: bool
  rtt_sd_m2 :: rat
  rtt_calculate_sd :: bool
  rtt_initial :: delta
  rtt_last_update_time :: quic_time
  rtt_ignore_max_ack_delay :: bool

subsection \<open>Definitions\<close>

definition kAlpha :: rat where "kAlpha = 1/8"
definition kOneMinusAlpha :: rat where "kOneMinusAlpha = 7/8"
definition kBeta :: rat where "kBeta = 1/4"
definition kOneMinusBeta :: rat where "kOneMinusBeta = 3/4"

definition RttStats_new :: rtt_stats where
  "RttStats_new = \<lparr>rtt_latest = Delta_Zero, rtt_min = Delta_Zero, rtt_smoothed = Delta_Zero,
     rtt_previous_srtt = Delta_Zero, rtt_mean_deviation = Delta_Zero, rtt_sd_valid = False,
     rtt_sd_m2 = 0, rtt_calculate_sd = False, rtt_initial = FromMilliseconds kInitialRttMs,
     rtt_last_update_time = 0, rtt_ignore_max_ack_delay = False\<rparr>"

definition ExpireSmoothedMetrics :: "rtt_stats \<Rightarrow> rtt_stats" where
  "ExpireSmoothedMetrics s =
     s\<lparr>rtt_mean_deviation := max (rtt_mean_deviation s) \<bar>rtt_smoothed s - rtt_latest s\<bar>,
       rtt_smoothed := max (rtt_smoothed s) (rtt_latest s)\<rparr>"

definition OnNewRttSample :: "delta \<Rightarrow> delta \<Rightarrow> rtt_stats \<Rightarrow> rtt_stats" where
  "OnNewRttSample rtt_sample smoothed_rtt s =
     (if Delta_IsZero smoothed_rtt then s
      else let d = f64 (f64 (of_int rtt_sample) - f64 (of_int smoothed_rtt))
           in s\<lparr>rtt_sd_valid := True,
                rtt_sd_m2 := f64 (f64 (kOneMinusBeta * rtt_sd_m2 s) + f64 (kBeta * f64 (d * d)))\<rparr>)"

text \<open>The sample corrected for the delay the peer reports.\<close>

definition rtt_corrected :: "delta \<Rightarrow> delta \<Rightarrow> delta \<Rightarrow> delta" where
  "rtt_corrected send_delta min_rtt ack_delay =
     (if send_delta > ack_delay \<and> send_delta - min_rtt \<ge> ack_delay
      then send_delta - ack_delay else send_delta)"

text \<open>The update of the smoothed values with a corrected sample.\<close>

definition rtt_smooth :: "delta \<Rightarrow> rtt_stats \<Rightarrow> rtt_stats" where
  "rtt_smooth rtt_sample s =
     (if Delta_IsZero (rtt_smoothed s)
      then s\<lparr>rtt_smoothed := rtt_sample, rtt_mean_deviation := rtt_sample sdiv 2\<rparr>
      else s\<lparr>rtt_mean_deviation := ctrunc (f32 (
                 f32 (kOneMinusBeta * f32 (of_int (rtt_mean_deviation s))) +
                 f32 (kBeta * f32 (of_int \<bar>rtt_smoothed s - rtt_sample\<bar>)))),
             rtt_smoothed := delta_mult (rtt_smoothed s) kOneMinusAlpha + delta_mult rtt_sample kAlpha\<rparr>)"

definition rtt_update_min :: "delta \<Rightarrow> rtt_stats \<Rightarrow> rtt_stats" where
  "rtt_update_min send_delta s =
     (if Delta_IsZero (rtt_min s) \<or> rtt_min s > send_delta then s\<lparr>rtt_min := send_delta\<rparr> else s)"

definition rtt_update_sd :: "delta \<Rightarrow> rtt_stats \<Rightarrow> rtt_stats" where
  "rtt_update_sd rtt_sample s =
     (if rtt_calculate_sd s then OnNewRttSample rtt_sample (rtt_smoothed s) s else s)"

definition UpdateRtt :: "delta \<Rightarrow> delta \<Rightarrow> quic_time \<Rightarrow> rtt_stats \<Rightarrow> rtt_stats" where
  "UpdateRtt send_delta ack_delay now s =
     (if Delta_IsInfinite send_delta \<or> send_delta \<le> Delta_Zero then s
      else
        let s1 = s\<lparr>rtt_last_update_time := now\<rparr>;
            s2 = rtt_update_min send_delta s1;
            s3 = s2\<lparr>rtt_previous_srtt := rtt_smoothed s2\<rparr>;
            ack_delay' = (if rtt_ignore_max_ack_delay s3 then Delta_Zero else ack_delay);
            rtt_sample = rtt_corrected send_delta (rtt_min s3) ack_delay';
            s4 = s3\<lparr>rtt_latest := rtt_sample\<rparr>
        in rtt_smooth rtt_sample (rtt_update_sd rtt_sample s4))"

definition rtt_OnConnectionMigration :: "rtt_stats \<Rightarrow> rtt_stats" where
  "rtt_OnConnectionMigration s =
     s\<lparr>rtt_latest := Delta_Zero, rtt_min := Delta_Zero, rtt_smoothed := Delta_Zero,
       rtt_mean_deviation := Delta_Zero, rtt_initial := FromMilliseconds kInitialRttMs\<rparr>"

definition SmoothedOrInitialRtt :: "rtt_stats \<Rightarrow> delta" where
  "SmoothedOrInitialRtt s = (if Delta_IsZero (rtt_smoothed s) then rtt_initial s else rtt_smoothed s)"

definition MinOrInitialRtt :: "rtt_stats \<Rightarrow> delta" where
  "MinOrInitialRtt s = (if Delta_IsZero (rtt_min s) then rtt_initial s else rtt_min s)"

definition set_initial_rtt :: "delta \<Rightarrow> rtt_stats \<Rightarrow> rtt_stats" where
  "set_initial_rtt d s = (if d \<le> 0 then s else s\<lparr>rtt_initial := d\<rparr>)"

definition set_ignore_max_ack_delay :: "bool \<Rightarrow> rtt_stats \<Rightarrow> rtt_stats" where
  "set_ignore_max_ack_delay b s = s\<lparr>rtt_ignore_max_ack_delay := b\<rparr>"

definition EnableStandardDeviationCalculation :: "rtt_stats \<Rightarrow> rtt_stats" where
  "EnableStandardDeviationCalculation s = s\<lparr>rtt_calculate_sd := True\<rparr>"

text \<open>\<open>CloneFrom\<close> copies every member.\<close>

definition CloneFrom :: "rtt_stats \<Rightarrow> rtt_stats \<Rightarrow> rtt_stats" where
  "CloneFrom stats s = stats"

datatype rtt_op = UpdateOp delta delta quic_time | ExpireOp | MigrateOp | SetInitialOp delta
  | SetIgnoreOp bool | EnableSdOp

fun rtt_step :: "rtt_op \<Rightarrow> rtt_stats \<Rightarrow> rtt_stats" where
  "rtt_step (UpdateOp send_delta ack_delay now) s = UpdateRtt send_delta ack_delay now s"
| "rtt_step ExpireOp s = ExpireSmoothedMetrics s"
| "rtt_step MigrateOp s = rtt_OnConnectionMigration s"
| "rtt_step (SetInitialOp d) s = set_initial_rtt d s"
| "rtt_step (SetIgnoreOp b) s = set_ignore_max_ack_delay b s"
| "rtt_step EnableSdOp s = EnableStandardDeviationCalculation s"

subsection \<open>The invariant\<close>

text \<open>
  Either there is no sample yet, or the minimum is positive and bounds the latest and the
  smoothed value from below; \<open>B\<close> bounds the samples from above, and the rounding of the moving average
  adds at most eight microseconds. The average is exact in \<open>double\<close> while it is below \<open>2\<^sup>5\<^sup>0\<close>
  microseconds (35 years).
\<close>

definition rtt_inv :: "int \<Rightarrow> rtt_stats \<Rightarrow> bool" where
  "rtt_inv B s \<longleftrightarrow>
     (rtt_min s = 0 \<and> rtt_latest s = 0 \<and> rtt_smoothed s = 0 \<or>
      0 < rtt_min s \<and> rtt_min s \<le> rtt_latest s \<and> rtt_min s \<le> rtt_smoothed s) \<and>
     rtt_latest s \<le> B \<and> rtt_smoothed s \<le> B + 8 \<and> 0 \<le> rtt_mean_deviation s \<and> 0 < rtt_initial s"

definition rtt_op_ok :: "int \<Rightarrow> rtt_op \<Rightarrow> bool" where
  "rtt_op_ok B op = (case op of UpdateOp d a now \<Rightarrow> d \<le> B \<and> 0 \<le> a | _ \<Rightarrow> True)"

subsection \<open>The moving average\<close>

lemma average_exact:
  assumes "0 \<le> d" "d < 2 ^ 50"
  shows "delta_mult d kOneMinusAlpha = llround (of_int d * (7/8))"
    and "delta_mult d kAlpha = llround (of_int d * (1/8))"
proof -
  have p: "(2::rat) powi (- 3) = 1/8" by (simp add: power_int_def power3_eq_cube)
  have d: "f64 (of_int d) = of_int d" using assms by (intro fl_of_int) auto
  have "f64 (of_int d * (7/8)) = of_int d * (7/8)"
    by (rule fl_exact [where k = "7 * d" and j = "- 3"]) (use assms in \<open>auto simp: p\<close>)
  then show "delta_mult d kOneMinusAlpha = llround (of_int d * (7/8))"
    by (simp only: delta_mult_def kOneMinusAlpha_def d)
  have "f64 (of_int d * (1/8)) = of_int d * (1/8)"
    by (rule fl_exact [where k = d and j = "- 3"]) (use assms in \<open>auto simp: p\<close>)
  then show "delta_mult d kAlpha = llround (of_int d * (1/8))"
    by (simp only: delta_mult_def kAlpha_def d)
qed

lemma llround_upper: "0 \<le> x \<Longrightarrow> of_int (llround x) \<le> x + 1/2"
  by (simp add: llround_def)

lemma average_bounds:
  assumes "0 \<le> m" "m \<le> s" "m \<le> r" "s < 2 ^ 50" "r < 2 ^ 50"
  shows "m \<le> delta_mult s kOneMinusAlpha + delta_mult r kAlpha"
    and "s \<le> B + 8 \<Longrightarrow> r \<le> B \<Longrightarrow> delta_mult s kOneMinusAlpha + delta_mult r kAlpha \<le> B + 8"
proof -
  have e: "delta_mult s kOneMinusAlpha = llround (of_int s * (7/8))"
     "delta_mult r kAlpha = llround (of_int r * (1/8))"
    using average_exact(1) [of s] average_exact(2) [of r] assms by auto
  have "m \<le> llround (of_int m * (7/8)) + llround (of_int m * (1/8))"
    by (rule llround_complement) (use assms(1) in auto)
  also have "\<dots> \<le> llround (of_int s * (7/8)) + llround (of_int r * (1/8))"
    by (intro add_mono llround_mono) (use assms in auto)
  finally show "m \<le> delta_mult s kOneMinusAlpha + delta_mult r kAlpha" by (simp add: e)
  assume "s \<le> B + 8" "r \<le> B"
  then have b: "rat_of_int s \<le> of_int B + 8" "rat_of_int r \<le> of_int B"
    by (metis of_int_add of_int_le_iff of_int_numeral) (simp add: \<open>r \<le> B\<close>)
  have "rat_of_int (delta_mult s kOneMinusAlpha + delta_mult r kAlpha) \<le>
      of_int s * (7/8) + 1/2 + (of_int r * (1/8) + 1/2)"
    unfolding e of_int_add by (intro add_mono llround_upper) (use assms in auto)
  also have "\<dots> \<le> of_int (B + 8)" using b by simp
  finally show "delta_mult s kOneMinusAlpha + delta_mult r kAlpha \<le> B + 8" by linarith
qed

lemma rtt_corrected_bounds:
  assumes "m \<le> d" "0 \<le> a" "d \<le> B"
  shows "m \<le> rtt_corrected d m a" "rtt_corrected d m a \<le> B"
  using assms by (auto simp: rtt_corrected_def)

lemma rtt_smooth_bounds:
  assumes "0 \<le> rtt_mean_deviation s" "rtt_smoothed s \<le> B + 8" "0 < m" "m \<le> r" "r \<le> B"
    "rtt_smoothed s = 0 \<or> m \<le> rtt_smoothed s" "B + 8 < 2 ^ 50"
  shows "m \<le> rtt_smoothed (rtt_smooth r s) \<and> rtt_smoothed (rtt_smooth r s) \<le> B + 8 \<and>
    0 \<le> rtt_mean_deviation (rtt_smooth r s)"
proof (cases "rtt_smoothed s = 0")
  case True
  then show ?thesis using assms by (simp add: rtt_smooth_def Delta_IsZero_def sdiv_nonneg)
next
  case False
  then show ?thesis
    using assms average_bounds(1) [of m "rtt_smoothed s" r] average_bounds(2) [of m "rtt_smoothed s" r B]
    by (simp add: rtt_smooth_def Delta_IsZero_def kOneMinusBeta_def kBeta_def)
qed

lemma rtt_smooth_frame [simp]:
  "rtt_latest (rtt_smooth r s) = rtt_latest s" "rtt_min (rtt_smooth r s) = rtt_min s"
  "rtt_initial (rtt_smooth r s) = rtt_initial s"
  by (simp_all add: rtt_smooth_def)

lemma OnNewRttSample_frame [simp]:
  "rtt_latest (OnNewRttSample r d s) = rtt_latest s" "rtt_min (OnNewRttSample r d s) = rtt_min s"
  "rtt_initial (OnNewRttSample r d s) = rtt_initial s"
  "rtt_smoothed (OnNewRttSample r d s) = rtt_smoothed s"
  "rtt_mean_deviation (OnNewRttSample r d s) = rtt_mean_deviation s"
  by (simp_all add: OnNewRttSample_def Let_def)

lemma rtt_update_sd_frame [simp]:
  "rtt_latest (rtt_update_sd r s) = rtt_latest s" "rtt_min (rtt_update_sd r s) = rtt_min s"
  "rtt_initial (rtt_update_sd r s) = rtt_initial s"
  "rtt_smoothed (rtt_update_sd r s) = rtt_smoothed s"
  "rtt_mean_deviation (rtt_update_sd r s) = rtt_mean_deviation s"
  by (simp_all add: rtt_update_sd_def)

lemma rtt_update_min_frame [simp]:
  "rtt_initial (rtt_update_min d s) = rtt_initial s"
  "rtt_smoothed (rtt_update_min d s) = rtt_smoothed s"
  "rtt_mean_deviation (rtt_update_min d s) = rtt_mean_deviation s"
  "rtt_ignore_max_ack_delay (rtt_update_min d s) = rtt_ignore_max_ack_delay s"
  "rtt_min (rtt_update_min d s) = (if rtt_min s = 0 then d else min (rtt_min s) d)"
  by (simp_all add: rtt_update_min_def Delta_IsZero_def)

lemma rtt_smooth_cong:
  "rtt_smoothed s = rtt_smoothed s' \<Longrightarrow> rtt_smoothed (rtt_smooth r s) = rtt_smoothed (rtt_smooth r s')"
  "rtt_smoothed s = rtt_smoothed s' \<Longrightarrow> rtt_mean_deviation s = rtt_mean_deviation s' \<Longrightarrow>
   rtt_mean_deviation (rtt_smooth r s) = rtt_mean_deviation (rtt_smooth r s')"
  by (simp_all add: rtt_smooth_def)

text \<open>What one accepted sample does to the minimum and to the latest value.\<close>

lemma UpdateRtt_min:
  "0 < d \<Longrightarrow> \<not> Delta_IsInfinite d \<Longrightarrow>
   rtt_min (UpdateRtt d a now s) = (if rtt_min s = 0 then d else min (rtt_min s) d)"
  by (simp add: UpdateRtt_def Let_def Delta_Zero_def)

lemma UpdateRtt_latest:
  "0 < d \<Longrightarrow> \<not> Delta_IsInfinite d \<Longrightarrow>
   rtt_latest (UpdateRtt d a now s) =
     rtt_corrected d (rtt_min (UpdateRtt d a now s)) (if rtt_ignore_max_ack_delay s then 0 else a)"
  by (simp add: UpdateRtt_def Let_def Delta_Zero_def)

lemma UpdateRtt_smoothed:
  assumes "0 < d" "\<not> Delta_IsInfinite d"
  shows "rtt_smoothed (UpdateRtt d a now s) =
           rtt_smoothed (rtt_smooth (rtt_latest (UpdateRtt d a now s)) s)"
    and "rtt_mean_deviation (UpdateRtt d a now s) =
           rtt_mean_deviation (rtt_smooth (rtt_latest (UpdateRtt d a now s)) s)"
    and "rtt_initial (UpdateRtt d a now s) = rtt_initial s"
  using assms by (auto simp: UpdateRtt_def Let_def Delta_Zero_def intro!: rtt_smooth_cong)

lemma UpdateRtt_inv:
  assumes "rtt_inv B s" "d \<le> B" "0 \<le> a" "B + 8 < 2 ^ 50"
  shows "rtt_inv B (UpdateRtt d a now s)"
proof (cases "0 < d \<and> \<not> Delta_IsInfinite d")
  case False
  then have "UpdateRtt d a now s = s" by (auto simp: UpdateRtt_def Delta_Zero_def)
  then show ?thesis using assms by simp
next
  case True
  let ?s = "UpdateRtt d a now s"
  have m: "0 < rtt_min ?s" "rtt_min ?s \<le> d" "rtt_smoothed s = 0 \<or> rtt_min ?s \<le> rtt_smoothed s"
    using True assms(1) by (auto simp: UpdateRtt_min rtt_inv_def)
  have l: "rtt_min ?s \<le> rtt_latest ?s" "rtt_latest ?s \<le> B"
    using rtt_corrected_bounds [OF m(2) _ assms(2), of "if rtt_ignore_max_ack_delay s then 0 else a"]
      assms(3) True by (simp_all add: UpdateRtt_latest)
  have "rtt_min ?s \<le> rtt_smoothed ?s \<and> rtt_smoothed ?s \<le> B + 8 \<and> 0 \<le> rtt_mean_deviation ?s"
    using rtt_smooth_bounds [of s B "rtt_min ?s" "rtt_latest ?s"] assms(1,4) m l True
    by (simp add: UpdateRtt_smoothed rtt_inv_def)
  then show ?thesis using l m(1) assms(1) True by (simp add: rtt_inv_def UpdateRtt_smoothed)
qed

lemma rtt_step_inv:
  assumes "rtt_inv B s" "rtt_op_ok B op" "0 \<le> B" "B + 8 < 2 ^ 50"
  shows "rtt_inv B (rtt_step op s)"
proof (cases op)
  case (UpdateOp d a now)
  then show ?thesis using assms by (simp add: rtt_op_ok_def UpdateRtt_inv)
qed (use assms in \<open>auto simp: ExpireSmoothedMetrics_def rtt_OnConnectionMigration_def
       set_initial_rtt_def set_ignore_max_ack_delay_def EnableStandardDeviationCalculation_def
       rtt_inv_def Delta_Zero_def FromMilliseconds_def kInitialRttMs_def\<close>)

lemma rtt_run_inv:
  "rtt_inv B s \<Longrightarrow> list_all (rtt_op_ok B) ops \<Longrightarrow> 0 \<le> B \<Longrightarrow> B + 8 < 2 ^ 50 \<Longrightarrow>
   rtt_inv B (fold rtt_step ops s)"
  by (induction ops arbitrary: s) (auto simp: rtt_step_inv)

lemma rtt_new_inv: "0 \<le> B \<Longrightarrow> rtt_inv B RttStats_new"
  by (simp add: rtt_inv_def RttStats_new_def Delta_Zero_def FromMilliseconds_def kInitialRttMs_def)

subsection \<open>Properties\<close>

text \<open>C17: through any sequence of operations whose samples are at most \<open>B\<close> microseconds and
  whose ack delays are not negative, the minimum RTT bounds the latest and the smoothed RTT
  from below, the smoothed RTT never exceeds \<open>B\<close> by more than the eight microseconds of
  rounding, and the RTT that the senders divide by is positive.\<close>

theorem rtt_estimates_bounded:
  assumes "list_all (rtt_op_ok B) ops" "0 \<le> B" "B + 8 < 2 ^ 50"
  shows "let s = fold rtt_step ops RttStats_new in
    rtt_min s \<le> rtt_latest s \<and> rtt_min s \<le> rtt_smoothed s \<and> rtt_smoothed s \<le> B + 8 \<and>
    rtt_latest s \<le> B \<and> 0 < SmoothedOrInitialRtt s \<and> (rtt_latest s = 0 \<longleftrightarrow> rtt_min s = 0)"
  using rtt_run_inv [OF rtt_new_inv [OF assms(2)] assms]
  by (auto simp: Let_def rtt_inv_def SmoothedOrInitialRtt_def Delta_IsZero_def)

theorem rtt_estimates_bounded_witness:
  "let s = fold rtt_step [UpdateOp 30000 5000 1, UpdateOp 90000 0 2, ExpireOp] RttStats_new in
    rtt_min s \<le> rtt_latest s \<and> rtt_min s \<le> rtt_smoothed s \<and> rtt_smoothed s \<le> 100000 + 8 \<and>
    rtt_latest s \<le> 100000 \<and> 0 < SmoothedOrInitialRtt s \<and> (rtt_latest s = 0 \<longleftrightarrow> rtt_min s = 0)"
  by (rule rtt_estimates_bounded) (simp_all add: rtt_op_ok_def)



end
