(* ===== verification/Windowed_Filter.thy ===== *)
theory Windowed_Filter
  imports Prelude
begin

text \<open>
  The windowed minimum or maximum of \<open>windowed_filter.h\<close>, which Copa and Vegas use for their
  round-trip time estimates. The class template is polymorphic in the sample type and takes
  the comparison as a parameter; every instance of the repository counts time in \<open>uint64_t\<close>.
\<close>

record 'a wf_sample =
  smp :: 'a
  smp_time :: u64

record 'a windowed_filter =
  wf_window_length :: u64
  wf_zero_value :: 'a
  wf_est0 :: "'a wf_sample"
  wf_est1 :: "'a wf_sample"
  wf_est2 :: "'a wf_sample"

subsection \<open>Definitions\<close>

definition MinFilter :: "'a::linorder \<Rightarrow> 'a \<Rightarrow> bool" where
  "MinFilter lhs rhs \<longleftrightarrow> lhs \<le> rhs"

definition MaxFilter :: "'a::linorder \<Rightarrow> 'a \<Rightarrow> bool" where
  "MaxFilter lhs rhs \<longleftrightarrow> rhs \<le> lhs"

definition mk_sample :: "'a \<Rightarrow> u64 \<Rightarrow> 'a wf_sample" where
  "mk_sample s t = \<lparr>smp = s, smp_time = t\<rparr>"

definition wf_new :: "u64 \<Rightarrow> 'a \<Rightarrow> u64 \<Rightarrow> 'a windowed_filter" where
  "wf_new window_length zero_value zero_time =
     \<lparr>wf_window_length = window_length, wf_zero_value = zero_value,
      wf_est0 = mk_sample zero_value zero_time, wf_est1 = mk_sample zero_value zero_time,
      wf_est2 = mk_sample zero_value zero_time\<rparr>"

definition wf_SetWindowLength :: "u64 \<Rightarrow> 'a windowed_filter \<Rightarrow> 'a windowed_filter" where
  "wf_SetWindowLength n f = f\<lparr>wf_window_length := n\<rparr>"

definition wf_Reset :: "'a \<Rightarrow> u64 \<Rightarrow> 'a windowed_filter \<Rightarrow> 'a windowed_filter" where
  "wf_Reset s t f = f\<lparr>wf_est0 := mk_sample s t, wf_est1 := mk_sample s t, wf_est2 := mk_sample s t\<rparr>"

text \<open>\<open>Update\<close> in its two halves: a sample that is better than the second or third best
  estimate replaces it, then estimates that are too old expire.\<close>

definition wf_replace :: "('a \<Rightarrow> 'a \<Rightarrow> bool) \<Rightarrow> 'a \<Rightarrow> u64 \<Rightarrow> 'a windowed_filter \<Rightarrow> 'a windowed_filter" where
  "wf_replace Compare s t f =
     (if Compare s (smp (wf_est1 f))
      then f\<lparr>wf_est1 := mk_sample s t, wf_est2 := mk_sample s t\<rparr>
      else if Compare s (smp (wf_est2 f)) then f\<lparr>wf_est2 := mk_sample s t\<rparr>
      else f)"

definition wf_expire :: "'a \<Rightarrow> u64 \<Rightarrow> 'a windowed_filter \<Rightarrow> 'a windowed_filter" where
  "wf_expire s t f =
     (if t - smp_time (wf_est0 f) > wf_window_length f
      then
        let f2 = f\<lparr>wf_est0 := wf_est1 f, wf_est1 := wf_est2 f, wf_est2 := mk_sample s t\<rparr>
        in if t - smp_time (wf_est0 f2) > wf_window_length f2
           then f2\<lparr>wf_est0 := wf_est1 f2, wf_est1 := wf_est2 f2\<rparr>
           else f2
      else if smp (wf_est1 f) = smp (wf_est0 f) \<and>
              t - smp_time (wf_est1 f) > drop_bit 2 (wf_window_length f)
      then f\<lparr>wf_est1 := mk_sample s t, wf_est2 := mk_sample s t\<rparr>
      else if smp (wf_est2 f) = smp (wf_est1 f) \<and>
              t - smp_time (wf_est2 f) > drop_bit 1 (wf_window_length f)
      then f\<lparr>wf_est2 := mk_sample s t\<rparr>
      else f)"

definition wf_Update ::
  "('a \<Rightarrow> 'a \<Rightarrow> bool) \<Rightarrow> 'a \<Rightarrow> u64 \<Rightarrow> 'a windowed_filter \<Rightarrow> 'a windowed_filter" where
  "wf_Update Compare s t f =
    (if smp (wf_est0 f) = wf_zero_value f \<or> Compare s (smp (wf_est0 f)) \<or>
        t - smp_time (wf_est2 f) > wf_window_length f
     then wf_Reset s t f
     else wf_expire s t (wf_replace Compare s t f))"

definition GetBest :: "'a windowed_filter \<Rightarrow> 'a" where
  "GetBest f = smp (wf_est0 f)"

definition GetSecondBest :: "'a windowed_filter \<Rightarrow> 'a" where
  "GetSecondBest f = smp (wf_est1 f)"

definition GetThirdBest :: "'a windowed_filter \<Rightarrow> 'a" where
  "GetThirdBest f = smp (wf_est2 f)"

text \<open>A run of the filter over a sequence of timed samples.\<close>

fun wf_run :: "('a \<Rightarrow> 'a \<Rightarrow> bool) \<Rightarrow> ('a \<times> u64) list \<Rightarrow> 'a windowed_filter \<Rightarrow> 'a windowed_filter" where
  "wf_run Compare [] f = f"
| "wf_run Compare ((s, t) # xs) f = wf_run Compare xs (wf_Update Compare s t f)"

subsection \<open>What an estimate says about the samples seen\<close>

text \<open>
  An estimate tracks a history if it is one of its samples and every later sample is no better.
  The estimates of a filter are in order if each is at least as good as the next one and was
  taken no later.
\<close>

definition tracks :: "('a \<Rightarrow> 'a \<Rightarrow> bool) \<Rightarrow> ('a \<times> u64) list \<Rightarrow> 'a wf_sample \<Rightarrow> bool" where
  "tracks Compare hist e \<longleftrightarrow>
     (\<exists>pre post. hist = pre @ (smp e, smp_time e) # post \<and> (\<forall>x \<in> set post. Compare (smp e) (fst x)))"

definition wf_tracks :: "('a \<Rightarrow> 'a \<Rightarrow> bool) \<Rightarrow> ('a \<times> u64) list \<Rightarrow> 'a windowed_filter \<Rightarrow> bool" where
  "wf_tracks Compare hist f \<longleftrightarrow> tracks Compare hist (wf_est0 f) \<and>
     tracks Compare hist (wf_est1 f) \<and> tracks Compare hist (wf_est2 f)"

definition wf_ordered :: "('a \<Rightarrow> 'a \<Rightarrow> bool) \<Rightarrow> 'a windowed_filter \<Rightarrow> bool" where
  "wf_ordered Compare f \<longleftrightarrow>
     Compare (GetBest f) (GetSecondBest f) \<and> Compare (GetSecondBest f) (GetThirdBest f) \<and>
     smp_time (wf_est0 f) \<le> smp_time (wf_est1 f) \<and> smp_time (wf_est1 f) \<le> smp_time (wf_est2 f)"

definition wf_all :: "('a \<Rightarrow> bool) \<Rightarrow> 'a windowed_filter \<Rightarrow> bool" where
  "wf_all P f \<longleftrightarrow> P (smp (wf_est0 f)) \<and> P (smp (wf_est1 f)) \<and> P (smp (wf_est2 f))"

lemmas wf_defs = wf_Update_def wf_Reset_def wf_replace_def wf_expire_def GetBest_def GetSecondBest_def GetThirdBest_def
  mk_sample_def

lemma wf_new_window: "wf_window_length (wf_new w z t0) = w"
  by (simp add: wf_new_def)

lemma tracks_new [simp]: "tracks Compare (hist @ [(s, t)]) (mk_sample s t)"
  unfolding tracks_def mk_sample_def
  by (rule exI [of _ hist], rule exI [of _ "[]"]) simp

lemma tracks_keep:
  assumes "tracks Compare hist e" "Compare (smp e) s"
  shows "tracks Compare (hist @ [(s, t)]) e"
proof -
  obtain pre post where "hist = pre @ (smp e, smp_time e) # post"
    "\<forall>x \<in> set post. Compare (smp e) (fst x)"
    using assms(1) by (auto simp: tracks_def)
  then have "hist @ [(s, t)] = pre @ (smp e, smp_time e) # (post @ [(s, t)])"
    "\<forall>x \<in> set (post @ [(s, t)]). Compare (smp e) (fst x)"
    using assms(2) by auto
  then show ?thesis unfolding tracks_def by blast
qed

lemma tracks_in: "tracks Compare hist e \<Longrightarrow> (smp e, smp_time e) \<in> set hist"
  by (auto simp: tracks_def)

subsection \<open>The contract of a comparison, and what the filter makes of it\<close>

locale filter_compare =
  fixes Compare :: "'a \<Rightarrow> 'a \<Rightarrow> bool"
  assumes cmp_total: "\<not> Compare x y \<Longrightarrow> Compare y x"
begin

lemma cmp_refl: "Compare x x"
  using cmp_total by blast

text \<open>After the first half the new sample is no better than any estimate, and if the oldest
  second or third estimates were in the window they still are.\<close>

lemma replace_bounds:
  "Compare (smp (wf_est1 (wf_replace Compare s t f))) s"
  "Compare (smp (wf_est2 (wf_replace Compare s t f))) s"
  by (auto simp: wf_replace_def mk_sample_def cmp_refl dest: cmp_total)

lemma replace_frame [simp]:
  "wf_est0 (wf_replace Compare s t f) = wf_est0 f"
  "wf_window_length (wf_replace Compare s t f) = wf_window_length f"
  by (auto simp: wf_replace_def)

lemma replace_fresh:
  "t - smp_time (wf_est2 f) \<le> w \<Longrightarrow> t - smp_time (wf_est2 (wf_replace Compare s t f)) \<le> w"
  by (auto simp: wf_replace_def mk_sample_def)

lemma expire_best:
  "Compare (smp (wf_est0 f)) s \<Longrightarrow> Compare (smp (wf_est1 f)) s \<Longrightarrow> Compare (smp (wf_est2 f)) s \<Longrightarrow>
   Compare (smp (wf_est0 (wf_expire s t f))) s"
  by (auto simp: wf_expire_def Let_def)

lemma expire_window [simp]: "wf_window_length (wf_expire s t f) = wf_window_length f"
  by (simp add: wf_expire_def Let_def)

lemma expire_fresh:
  "t - smp_time (wf_est2 f) \<le> wf_window_length f \<Longrightarrow>
   t - smp_time (wf_est0 (wf_expire s t f)) \<le> wf_window_length f"
  by (auto simp: wf_expire_def Let_def not_less)

lemma update_best: "Compare (GetBest (wf_Update Compare s t f)) s"
  using expire_best [of "wf_replace Compare s t f" s t] replace_bounds [of s t f] cmp_total
  by (auto simp: wf_Update_def GetBest_def wf_Reset_def mk_sample_def cmp_refl)

lemma update_fresh: "t - smp_time (wf_est0 (wf_Update Compare s t f)) \<le> wf_window_length f"
  using expire_fresh [of t "wf_replace Compare s t f" s] replace_fresh [of t f "wf_window_length f" s]
  by (auto simp: wf_Update_def wf_Reset_def mk_sample_def not_less)

lemma update_window: "wf_window_length (wf_Update Compare s t f) = wf_window_length f"
  by (simp add: wf_Update_def wf_Reset_def)

lemma replace_ordered:
  "wf_ordered Compare f \<Longrightarrow> \<not> Compare s (smp (wf_est0 f)) \<Longrightarrow> smp_time (wf_est2 f) \<le> t \<Longrightarrow>
   wf_ordered Compare (wf_replace Compare s t f)"
  by (auto simp: wf_ordered_def wf_replace_def GetBest_def GetSecondBest_def GetThirdBest_def
      mk_sample_def cmp_refl dest: cmp_total)

lemma expire_ordered:
  assumes "wf_ordered Compare f" "Compare (smp (wf_est0 f)) s" "Compare (smp (wf_est1 f)) s"
    "Compare (smp (wf_est2 f)) s" "smp_time (wf_est2 f) \<le> t"
  shows "wf_ordered Compare (wf_expire s t f)"
proof -
  have "smp_time (wf_est1 f) \<le> t" "smp_time (wf_est0 f) \<le> t"
    using assms(1,5) by (auto simp: wf_ordered_def)
  then show ?thesis using assms
    by (auto simp: wf_ordered_def wf_expire_def GetBest_def GetSecondBest_def GetThirdBest_def
        mk_sample_def cmp_refl Let_def)
qed

lemma update_ordered:
  assumes "wf_ordered Compare f" "smp_time (wf_est2 f) \<le> t"
  shows "wf_ordered Compare (wf_Update Compare s t f)"
proof (cases "smp (wf_est0 f) = wf_zero_value f \<or> Compare s (smp (wf_est0 f)) \<or>
    t - smp_time (wf_est2 f) > wf_window_length f")
  case True
  then show ?thesis
    by (simp add: wf_Update_def wf_ordered_def wf_Reset_def GetBest_def GetSecondBest_def
        GetThirdBest_def mk_sample_def cmp_refl)
next
  case False
  let ?f1 = "wf_replace Compare s t f"
  have "smp_time (wf_est2 ?f1) \<le> t" using assms(2) by (auto simp: wf_replace_def mk_sample_def)
  then have "wf_ordered Compare (wf_expire s t ?f1)"
    using False replace_ordered [OF assms(1) _ assms(2)] replace_bounds [of s t f]
    by (intro expire_ordered) (auto intro: cmp_total)
  then show ?thesis using False by (simp add: wf_Update_def)
qed

lemma replace_tracks:
  assumes "wf_tracks Compare hist f" "\<not> Compare s (smp (wf_est0 f))"
  shows "wf_tracks Compare (hist @ [(s, t)]) (wf_replace Compare s t f)"
  using assms by (auto simp: wf_tracks_def wf_replace_def intro: tracks_keep cmp_total)

lemma expire_tracks:
  "wf_tracks Compare (hist @ [(s, t)]) f \<Longrightarrow> wf_tracks Compare (hist @ [(s, t)]) (wf_expire s t f)"
  by (simp add: wf_tracks_def wf_expire_def Let_def)

lemma update_tracks:
  assumes "wf_tracks Compare hist f"
  shows "wf_tracks Compare (hist @ [(s, t)]) (wf_Update Compare s t f)"
  using replace_tracks [OF assms] expire_tracks
  by (auto simp: wf_Update_def wf_Reset_def wf_tracks_def)

lemma update_tracks_first:
  "smp (wf_est0 f) = wf_zero_value f \<Longrightarrow> wf_tracks Compare [(s, t)] (wf_Update Compare s t f)"
  using tracks_new [of Compare "[]" s t]
  by (simp add: wf_tracks_def wf_Update_def wf_Reset_def)

lemma run_tracks:
  "wf_tracks Compare hist f \<Longrightarrow> wf_tracks Compare (hist @ xs) (wf_run Compare xs f)"
proof (induction xs arbitrary: hist f)
  case (Cons x xs)
  obtain s t where x: "x = (s, t)" by force
  have "wf_tracks Compare (hist @ [x]) (wf_Update Compare s t f)"
    using update_tracks [OF Cons.prems] x by simp
  then show ?case using Cons.IH [of "hist @ [x]"] x by simp
qed simp

lemma update_zero [simp]: "wf_zero_value (wf_Update Compare s t f) = wf_zero_value f"
  by (simp add: wf_Update_def wf_Reset_def wf_expire_def wf_replace_def Let_def)

lemma update_all:
  assumes "smp (wf_est0 f) = wf_zero_value f \<or> wf_all P f" "P s"
  shows "wf_all P (wf_Update Compare s t f)"
  using assms by (auto simp: wf_Update_def wf_all_def wf_Reset_def wf_expire_def wf_replace_def
      mk_sample_def Let_def)

lemma run_window: "wf_window_length (wf_run Compare xs f) = wf_window_length f"
  by (induction xs arbitrary: f) (auto simp: update_window)

lemma run_append: "wf_run Compare (xs @ ys) f = wf_run Compare ys (wf_run Compare xs f)"
  by (induction xs arbitrary: f) auto

end

interpretation min_filter: filter_compare "MinFilter :: 'a::linorder \<Rightarrow> 'a \<Rightarrow> bool"
  by unfold_locales (auto simp: MinFilter_def)

interpretation max_filter: filter_compare "MaxFilter :: 'a::linorder \<Rightarrow> 'a \<Rightarrow> bool"
  by unfold_locales (auto simp: MaxFilter_def)

subsection \<open>Properties\<close>



text \<open>The three estimates of a minimum filter stay in the order the algorithm relies on:
  each is at most the next one and was taken no later.\<close>

lemma windowed_min_ordered:
  assumes "wf_ordered MinFilter f" "smp_time (wf_est2 f) \<le> t"
  shows "wf_ordered MinFilter (wf_Update MinFilter s t f)"
  using assms by (rule min_filter.update_ordered)

end
