(* ===== verification/Copa_Sender.thy ===== *)
theory Copa_Sender
  imports Send_Algorithm Rtt_Stats Windowed_Filter
begin

text \<open>
  The Copa congestion controller of \<open>copa_sender.cc\<close>. The \<open>RttStats\<close> it points to is an argument of the
  calls that read it. \<open>lastRecordedCwndBytes\<close> has no initializer, so its first value is an argument of the
  constructor. The overrides with an empty body (\<open>SetFromConfig\<close>, \<open>OnPacketNeutered\<close>, ...) change nothing and
  have no definition. A \<open>double\<close> that is converted to an integer type it does not fit is
  undefined in C++; the model truncates it.
\<close>

datatype direction = DirNone | Up | Down

record velocity_state =
  vs_velocity :: u64
  vs_direction :: direction
  vs_numTimesDirectionSame :: u64
  vs_lastRecordedCwndBytes :: byte_count
  vs_lastCwndRecordTime :: quic_time

record copa_sender =
  cp_largest_sent :: packet_number
  cp_largest_acked :: packet_number
  cp_largest_sent_at_last_cutback :: packet_number
  cp_cwnd :: byte_count
  cp_initial_cwnd :: byte_count
  cp_max_cwnd :: byte_count
  cp_min_cwnd :: byte_count
  cp_pacing_rate :: bandwidth
  cp_isSlowStart :: bool
  cp_lastCwndDoubleTime :: quic_time
  cp_minRTTFilter :: "delta windowed_filter"
  cp_standingRTTFilter :: "delta windowed_filter"
  cp_velocityState :: velocity_state
  cp_latencyFactor :: rat

subsection \<open>Definitions\<close>

definition copa_kDefaultMinimumCongestionWindow :: byte_count where
  "copa_kDefaultMinimumCongestionWindow = 4 * kDefaultTCPMSS"

definition copa_kMinRTTWindowLength :: delta where
  "copa_kMinRTTWindowLength = FromSeconds 10"

definition addAndCheckOverflow :: "u64 \<Rightarrow> u64 \<Rightarrow> u64 result" where
  "addAndCheckOverflow v toAdd =
     (if - 1 - toAdd < v then Inl (RuntimeError ''Overflow bytes in flight'') else Inr (v + toAdd))"

definition subtractAndCheckUnderflow :: "u64 \<Rightarrow> u64 \<Rightarrow> u64 result" where
  "subtractAndCheckUnderflow v toSub =
     (if v < toSub then Inl (RuntimeError ''Underflow bytes in flight'') else Inr (v - toSub))"

definition VelocityState_new :: "byte_count \<Rightarrow> velocity_state" where
  "VelocityState_new garbage =
     \<lparr>vs_velocity = 1, vs_direction = DirNone, vs_numTimesDirectionSame = 0,
      vs_lastRecordedCwndBytes = garbage, vs_lastCwndRecordTime = 0\<rparr>"

definition CopaSender_new ::
  "packet_count \<Rightarrow> packet_count \<Rightarrow> byte_count \<Rightarrow> connection_stats option \<Rightarrow>
   copa_sender \<times> connection_stats option" where
  "CopaSender_new initial_window max_window garbage stats =
     (\<lparr>cp_largest_sent = UninitializedPacketNumber, cp_largest_acked = UninitializedPacketNumber,
       cp_largest_sent_at_last_cutback = UninitializedPacketNumber,
       cp_cwnd = initial_window * kDefaultTCPMSS, cp_initial_cwnd = initial_window * kDefaultTCPMSS,
       cp_max_cwnd = max_window * kDefaultTCPMSS, cp_min_cwnd = copa_kDefaultMinimumCongestionWindow,
       cp_pacing_rate = mk_bandwidth 0, cp_isSlowStart = True, cp_lastCwndDoubleTime = 0,
       cp_minRTTFilter = wf_new (of_int copa_kMinRTTWindowLength) Delta_Zero 0,
       cp_standingRTTFilter = wf_new 100000 Delta_Zero 0,
       cp_velocityState = VelocityState_new garbage, cp_latencyFactor = 1/2\<rparr>,
      map_option stats_reset_slowstart stats)"

definition copa_InSlowStart :: "copa_sender \<Rightarrow> bool" where
  "copa_InSlowStart s = cp_isSlowStart s"

definition copa_InRecovery :: "copa_sender \<Rightarrow> bool" where
  "copa_InRecovery s \<longleftrightarrow>
     pn_IsInitialized (cp_largest_acked s) \<and> pn_IsInitialized (cp_largest_sent_at_last_cutback s) \<and>
     cp_largest_acked s \<le> cp_largest_sent_at_last_cutback s"

definition copa_SetInitialCongestionWindowInPackets :: "packet_count \<Rightarrow> copa_sender \<Rightarrow> copa_sender" where
  "copa_SetInitialCongestionWindowInPackets n s =
     (if cp_isSlowStart s
      then s\<lparr>cp_initial_cwnd := n * kDefaultTCPMSS, cp_cwnd := n * kDefaultTCPMSS\<rparr> else s)"

definition copa_OnPacketSent :: "packet_number \<Rightarrow> copa_sender \<Rightarrow> copa_sender" where
  "copa_OnPacketSent packet_number s = s\<lparr>cp_largest_sent := packet_number\<rparr>"

definition copa_GetCongestionWindow :: "copa_sender \<Rightarrow> byte_count" where
  "copa_GetCongestionWindow s = cp_cwnd s"

definition copa_CanSend :: "byte_count \<Rightarrow> copa_sender \<Rightarrow> bool" where
  "copa_CanSend bytes_in_flight s \<longleftrightarrow> bytes_in_flight < copa_GetCongestionWindow s"

definition copa_PacingRate :: "rtt_stats \<Rightarrow> copa_sender \<Rightarrow> bandwidth result" where
  "copa_PacingRate rtt s =
     (case FromBytesAndTimeDelta (copa_GetCongestionWindow s) (SmoothedOrInitialRtt rtt) of
        Inl e \<Rightarrow> Inl e
      | Inr bw \<Rightarrow> Inr (bandwidth_mult bw (if copa_InSlowStart s then 2
                                         else if copa_InRecovery s then 1 else 5/4)))"

definition copa_BandwidthEstimate :: "rtt_stats \<Rightarrow> copa_sender \<Rightarrow> bandwidth result" where
  "copa_BandwidthEstimate rtt s =
     (if Delta_IsZero (rtt_smoothed rtt) then Inr (mk_bandwidth 0)
      else FromBytesAndTimeDelta (copa_GetCongestionWindow s) (rtt_smoothed rtt))"

definition copa_OnPacketLost :: "packet_number \<Rightarrow> copa_sender \<Rightarrow> copa_sender" where
  "copa_OnPacketLost packet_number s =
     (if pn_IsInitialized (cp_largest_sent_at_last_cutback s) \<and>
         packet_number \<le> cp_largest_sent_at_last_cutback s
      then s else s\<lparr>cp_largest_sent_at_last_cutback := cp_largest_sent s\<rparr>)"

definition copa_CheckAndUpdateDirection :: "rtt_stats \<Rightarrow> quic_time \<Rightarrow> copa_sender \<Rightarrow> copa_sender" where
  "copa_CheckAndUpdateDirection rtt ackTime s =
     (let v = cp_velocityState s in
      if \<not> Time_IsInitialized (vs_lastCwndRecordTime v)
      then s\<lparr>cp_velocityState := v\<lparr>vs_lastCwndRecordTime := ackTime,
                                  vs_lastRecordedCwndBytes := copa_GetCongestionWindow s\<rparr>\<rparr>
      else if ackTime - vs_lastCwndRecordTime v \<ge> rtt_smoothed rtt
      then
        let newDirection =
              (if copa_GetCongestionWindow s > vs_lastRecordedCwndBytes v then Up else Down);
            v1 = (if newDirection \<noteq> vs_direction v
                  then v\<lparr>vs_velocity := 1, vs_numTimesDirectionSame := 0\<rparr>
                  else
                    let n = vs_numTimesDirectionSame v + 1
                    in v\<lparr>vs_numTimesDirectionSame := n,
                         vs_velocity := (if n \<ge> 3 then 2 * vs_velocity v else vs_velocity v)\<rparr>)
        in s\<lparr>cp_velocityState := v1\<lparr>vs_direction := newDirection, vs_lastCwndRecordTime := ackTime,
                                    vs_lastRecordedCwndBytes := copa_GetCongestionWindow s\<rparr>\<rparr>
      else s)"

definition copa_ChangeDirection :: "direction \<Rightarrow> quic_time \<Rightarrow> copa_sender \<Rightarrow> copa_sender" where
  "copa_ChangeDirection newDirection ackTime s =
     (if vs_direction (cp_velocityState s) = newDirection then s
      else s\<lparr>cp_velocityState :=
               \<lparr>vs_velocity = 1, vs_direction = newDirection, vs_numTimesDirectionSame = 0,
                vs_lastRecordedCwndBytes = copa_GetCongestionWindow s,
                vs_lastCwndRecordTime = ackTime\<rparr>\<rparr>)"

text \<open>\<open>OnPacketAcked\<close>, first part: the largest acked packet and the two RTT filters.\<close>

definition copa_observe :: "rtt_stats \<Rightarrow> acked_packet list \<Rightarrow> quic_time \<Rightarrow> copa_sender \<Rightarrow> copa_sender" where
  "copa_observe rtt acked_packets event_time s =
     (let wall_time = event_time; lrtt = rtt_latest rtt; srtt = rtt_smoothed rtt
      in s\<lparr>cp_largest_acked := fold (\<lambda>p. pn_UpdateMax (ap_packet_number p)) acked_packets (cp_largest_acked s),
           cp_minRTTFilter := wf_Update MinFilter lrtt (of_int wall_time) (cp_minRTTFilter s),
           cp_standingRTTFilter := wf_Update MinFilter lrtt (of_int wall_time)
              (wf_SetWindowLength (of_int (srtt sdiv 2)) (cp_standingRTTFilter s))\<rparr>)"

text \<open>Second part: whether the target rate allows the window to grow.\<close>

definition copa_targetRate :: "delta \<Rightarrow> copa_sender \<Rightarrow> int" where
  "copa_targetRate delayInMicroSec s =
     ctrunc (f64 (f64 (f64 (of_int (uint kDefaultTCPMSS)) * 1000000) /
                  f64 (cp_latencyFactor s * f64 (of_int delayInMicroSec))))"

definition copa_currentRate :: "delta \<Rightarrow> copa_sender \<Rightarrow> int" where
  "copa_currentRate rttStanding s =
     ctrunc (f64 (f64 (f64 (of_int (uint (copa_GetCongestionWindow s))) * 1000000) /
                  f64 (of_int rttStanding)))"

definition copa_increaseCwnd :: "rtt_stats \<Rightarrow> copa_sender \<Rightarrow> bool result" where
  "copa_increaseCwnd rtt s =
     (let rttMin = GetBest (cp_minRTTFilter s);
          rttStanding = GetBest (cp_standingRTTFilter s);
          delayInMicroSec = rtt_latest rtt - rttMin
      in if delayInMicroSec < 0 then Inl CheckFailed
         else if Delta_IsZero rttStanding then Inl CheckFailed
         else Inr (if delayInMicroSec = 0 then True
                   else copa_targetRate delayInMicroSec s \<ge> copa_currentRate rttStanding s))"

text \<open>The size of a step outside slow start, for \<open>n\<close> acked packets.\<close>

definition copa_stepSize :: "u64 \<Rightarrow> copa_sender \<Rightarrow> u64" where
  "copa_stepSize n s =
     of_int (ctrunc (f64 (
       f64 (of_int (uint (n * kDefaultTCPMSS * kDefaultTCPMSS * vs_velocity (cp_velocityState s)))) /
       f64 (cp_latencyFactor s * f64 (of_int (uint (cp_cwnd s)))))))"

definition copa_increase :: "rtt_stats \<Rightarrow> u64 \<Rightarrow> quic_time \<Rightarrow> copa_sender \<Rightarrow> copa_sender result" where
  "copa_increase rtt n event_time s =
     (if cp_isSlowStart s
      then
        if \<not> Time_IsInitialized (cp_lastCwndDoubleTime s)
        then Inr (s\<lparr>cp_lastCwndDoubleTime := event_time\<rparr>)
        else if event_time - cp_lastCwndDoubleTime s > rtt_smoothed rtt
        then case addAndCheckOverflow (cp_cwnd s) (cp_cwnd s) of
               Inl e \<Rightarrow> Inl e
             | Inr w \<Rightarrow> Inr (s\<lparr>cp_cwnd := w, cp_lastCwndDoubleTime := event_time\<rparr>)
        else Inr s
      else
        let s1 = (if vs_direction (cp_velocityState s) \<noteq> Up \<and> vs_velocity (cp_velocityState s) > 1
                  then copa_ChangeDirection Up event_time s else s)
        in case addAndCheckOverflow (cp_cwnd s1) (copa_stepSize n s1) of
             Inl e \<Rightarrow> Inl e
           | Inr w \<Rightarrow> Inr (s1\<lparr>cp_cwnd := w\<rparr>))"

definition copa_decrease :: "u64 \<Rightarrow> quic_time \<Rightarrow> copa_sender \<Rightarrow> copa_sender result" where
  "copa_decrease n event_time s =
     (let s1 = (if vs_direction (cp_velocityState s) \<noteq> Down \<and> vs_velocity (cp_velocityState s) > 1
                then copa_ChangeDirection Down event_time s else s);
          reduction = copa_stepSize n s1;
          s2 = s1\<lparr>cp_isSlowStart := False\<rparr>
      in case subtractAndCheckUnderflow (cp_cwnd s2) (min reduction (cp_cwnd s2 - cp_min_cwnd s2)) of
           Inl e \<Rightarrow> Inl e
         | Inr w \<Rightarrow> Inr (s2\<lparr>cp_cwnd := w\<rparr>))"

definition copa_OnPacketAcked ::
  "rtt_stats \<Rightarrow> acked_packet list \<Rightarrow> quic_time \<Rightarrow> copa_sender \<Rightarrow> copa_sender result" where
  "copa_OnPacketAcked rtt acked_packets event_time s =
     (let s1 = copa_observe rtt acked_packets event_time s in
      case copa_increaseCwnd rtt s1 of
        Inl e \<Rightarrow> Inl e
      | Inr increaseCwnd \<Rightarrow>
          let s2 = (if \<not> (increaseCwnd \<and> cp_isSlowStart s1)
                    then copa_CheckAndUpdateDirection rtt event_time s1 else s1);
              n = of_nat (length acked_packets)
          in if increaseCwnd then copa_increase rtt n event_time s2 else copa_decrease n event_time s2)"

definition copa_OnCongestionEvent ::
  "rtt_stats \<Rightarrow> quic_time \<Rightarrow> acked_packet list \<Rightarrow> lost_packet list \<Rightarrow> copa_sender \<Rightarrow> copa_sender result" where
  "copa_OnCongestionEvent rtt event_time acked_packets lost_packets s =
     copa_OnPacketAcked rtt acked_packets event_time
       (fold (\<lambda>p. copa_OnPacketLost (lp_packet_number p)) lost_packets s)"

text \<open>The calls that change the sender.\<close>

datatype copa_call =
    CopaSent packet_number
  | CopaSetInitial packet_count
  | CopaCongestion rtt_stats quic_time "acked_packet list" "lost_packet list"

fun copa_step :: "copa_call \<Rightarrow> copa_sender \<Rightarrow> copa_sender result" where
  "copa_step (CopaSent p) s = Inr (copa_OnPacketSent p s)"
| "copa_step (CopaSetInitial n) s = Inr (copa_SetInitialCongestionWindowInPackets n s)"
| "copa_step (CopaCongestion rtt t acked lost) s = copa_OnCongestionEvent rtt t acked lost s"

subsection \<open>The window floor\<close>

text \<open>What the sender relies on: the caller reports congestion events only once there is an RTT
  sample, and no initial window of fewer than four packets is requested.\<close>

fun copa_ok :: "copa_call \<Rightarrow> bool" where
  "copa_ok (CopaSent p) \<longleftrightarrow> True"
| "copa_ok (CopaSetInitial n) \<longleftrightarrow> copa_kDefaultMinimumCongestionWindow \<le> n * kDefaultTCPMSS"
| "copa_ok (CopaCongestion rtt t acked lost) \<longleftrightarrow> 0 < rtt_latest rtt"

definition rtt_filter_ok :: "delta windowed_filter \<Rightarrow> bool" where
  "rtt_filter_ok f \<longleftrightarrow> wf_zero_value f = 0 \<and> (GetBest f = 0 \<or> wf_all (\<lambda>d. 0 < d) f)"

definition copa_inv :: "copa_sender \<Rightarrow> bool" where
  "copa_inv s \<longleftrightarrow> cp_min_cwnd s = copa_kDefaultMinimumCongestionWindow \<and>
     copa_kDefaultMinimumCongestionWindow \<le> cp_cwnd s \<and>
     rtt_filter_ok (cp_minRTTFilter s) \<and> rtt_filter_ok (cp_standingRTTFilter s) \<and>
     cp_latencyFactor s = 1/2"

lemma rtt_filter_ok_update:
  assumes "rtt_filter_ok f" "0 < d"
  shows "rtt_filter_ok (wf_Update MinFilter d t f) \<and> 0 < GetBest (wf_Update MinFilter d t f) \<and>
    GetBest (wf_Update MinFilter d t f) \<le> d"
proof -
  have "wf_all (\<lambda>d. 0 < d) (wf_Update MinFilter d t f)"
    by (rule min_filter.update_all) (use assms in \<open>auto simp: rtt_filter_ok_def GetBest_def\<close>)
  moreover have "GetBest (wf_Update MinFilter d t f) \<le> d"
    using min_filter.update_best [of d t f] by (simp add: MinFilter_def)
  ultimately show ?thesis using assms(1) by (simp add: rtt_filter_ok_def wf_all_def GetBest_def)
qed

lemma rtt_filter_ok_window [simp]: "rtt_filter_ok (wf_SetWindowLength n f) = rtt_filter_ok f"
  by (simp add: rtt_filter_ok_def wf_SetWindowLength_def wf_all_def GetBest_def)

text \<open>Frames: the parts of \<open>OnPacketAcked\<close> touch only what they name.\<close>

lemma copa_lost_frame [simp]:
  "cp_cwnd (copa_OnPacketLost p s) = cp_cwnd s" "cp_min_cwnd (copa_OnPacketLost p s) = cp_min_cwnd s"
  "cp_minRTTFilter (copa_OnPacketLost p s) = cp_minRTTFilter s"
  "cp_standingRTTFilter (copa_OnPacketLost p s) = cp_standingRTTFilter s"
  "cp_latencyFactor (copa_OnPacketLost p s) = cp_latencyFactor s"
  by (simp_all add: copa_OnPacketLost_def)

lemma copa_observe_frame [simp]:
  "cp_cwnd (copa_observe rtt a t s) = cp_cwnd s" "cp_min_cwnd (copa_observe rtt a t s) = cp_min_cwnd s"
  "cp_latencyFactor (copa_observe rtt a t s) = cp_latencyFactor s"
  "cp_isSlowStart (copa_observe rtt a t s) = cp_isSlowStart s"
  "cp_lastCwndDoubleTime (copa_observe rtt a t s) = cp_lastCwndDoubleTime s"
  "cp_velocityState (copa_observe rtt a t s) = cp_velocityState s"
  "cp_minRTTFilter (copa_observe rtt a t s) =
     wf_Update MinFilter (rtt_latest rtt) (of_int t) (cp_minRTTFilter s)"
  "cp_standingRTTFilter (copa_observe rtt a t s) =
     wf_Update MinFilter (rtt_latest rtt) (of_int t)
       (wf_SetWindowLength (of_int (rtt_smoothed rtt sdiv 2)) (cp_standingRTTFilter s))"
  by (simp_all add: copa_observe_def Let_def)

lemma copa_direction_frame [simp]:
  "cp_cwnd (copa_CheckAndUpdateDirection rtt t s) = cp_cwnd s"
  "cp_min_cwnd (copa_CheckAndUpdateDirection rtt t s) = cp_min_cwnd s"
  "cp_minRTTFilter (copa_CheckAndUpdateDirection rtt t s) = cp_minRTTFilter s"
  "cp_standingRTTFilter (copa_CheckAndUpdateDirection rtt t s) = cp_standingRTTFilter s"
  "cp_latencyFactor (copa_CheckAndUpdateDirection rtt t s) = cp_latencyFactor s"
  "cp_isSlowStart (copa_CheckAndUpdateDirection rtt t s) = cp_isSlowStart s"
  "cp_lastCwndDoubleTime (copa_CheckAndUpdateDirection rtt t s) = cp_lastCwndDoubleTime s"
  by (simp_all add: copa_CheckAndUpdateDirection_def Let_def)

lemma copa_change_frame [simp]:
  "cp_cwnd (copa_ChangeDirection d t s) = cp_cwnd s"
  "cp_min_cwnd (copa_ChangeDirection d t s) = cp_min_cwnd s"
  "cp_minRTTFilter (copa_ChangeDirection d t s) = cp_minRTTFilter s"
  "cp_standingRTTFilter (copa_ChangeDirection d t s) = cp_standingRTTFilter s"
  "cp_latencyFactor (copa_ChangeDirection d t s) = cp_latencyFactor s"
  "cp_isSlowStart (copa_ChangeDirection d t s) = cp_isSlowStart s"
  "cp_lastCwndDoubleTime (copa_ChangeDirection d t s) = cp_lastCwndDoubleTime s"
  by (simp_all add: copa_ChangeDirection_def)

lemma copa_inv_lost: "copa_inv s \<Longrightarrow> copa_inv (copa_OnPacketLost p s)"
  by (simp add: copa_inv_def)

lemma copa_inv_losses:
  "copa_inv s \<Longrightarrow> copa_inv (fold (\<lambda>p. copa_OnPacketLost (lp_packet_number p)) lost s)"
  by (induction lost arbitrary: s) (auto intro: copa_inv_lost)

lemma copa_inv_observe:
  "copa_inv s \<Longrightarrow> 0 < rtt_latest rtt \<Longrightarrow> copa_inv (copa_observe rtt a t s)"
  by (simp add: copa_inv_def rtt_filter_ok_update)

lemma copa_inv_direction: "copa_inv s \<Longrightarrow> copa_inv (copa_CheckAndUpdateDirection rtt t s)"
  by (simp add: copa_inv_def)

text \<open>After the filters have seen a positive sample no \<open>QUICHE_CHECK\<close> fails.\<close>

lemma copa_increaseCwnd_total:
  assumes "copa_inv s" "0 < rtt_latest rtt"
  shows "\<exists>b. copa_increaseCwnd rtt (copa_observe rtt a t s) = Inr b"
proof -
  have "GetBest (cp_minRTTFilter (copa_observe rtt a t s)) \<le> rtt_latest rtt"
    "0 < GetBest (cp_standingRTTFilter (copa_observe rtt a t s))"
    using assms by (simp_all add: copa_inv_def rtt_filter_ok_update)
  then show ?thesis by (simp add: copa_increaseCwnd_def Let_def Delta_IsZero_def)
qed

text \<open>The checked additions and subtractions, on natural numbers.\<close>

lemma addAndCheckOverflow_cases:
  "addAndCheckOverflow v x =
     (if uint v + uint x < 2 ^ 64 then Inr (v + x) else Inl (RuntimeError ''Overflow bytes in flight''))"
proof -
  have b: "0 \<le> uint x" "uint x < 2 ^ 64" using uint_lt2p [of x] by simp_all
  have "uint (- 1 - x) = (2 ^ 64 - 1 - uint x) mod 2 ^ 64" by (simp add: uint_word_ariths)
  also have "\<dots> = 2 ^ 64 - 1 - uint x" by (rule mod_pos_pos_trivial) (use b in linarith)+
  finally have u: "uint (- 1 - x) = 2 ^ 64 - 1 - uint x" .
  have "- 1 - x < v \<longleftrightarrow> \<not> uint v + uint x < 2 ^ 64"
    unfolding word_less_def u by linarith
  then show ?thesis by (simp add: addAndCheckOverflow_def)
qed

lemma addAndCheckOverflow_ge: "addAndCheckOverflow v x = Inr w \<Longrightarrow> v \<le> w"
  by (auto simp: addAndCheckOverflow_cases word_le_def uint_word_ariths mod_pos_pos_trivial split: if_splits)

lemma subtractAndCheckUnderflow_min:
  "m \<le> v \<Longrightarrow> subtractAndCheckUnderflow v (min r (v - m)) = Inr (v - min r (v - m))"
  by (simp add: subtractAndCheckUnderflow_def min_def not_less word_sub_le)
    (meson order_trans word_sub_le)

lemma sub_min_floor: "(m::u64) \<le> v \<Longrightarrow> m \<le> v - min r (v - m) \<and> v - min r (v - m) \<le> v"
  by (simp add: word_le_nat_alt unat_sub min_def) (auto simp: word_le_nat_alt unat_sub)

lemma copa_increase_inv:
  assumes "copa_inv s"
  shows "(\<exists>s'. copa_increase rtt n t s = Inr s' \<and> copa_inv s' \<and> cp_cwnd s \<le> cp_cwnd s') \<or>
    copa_increase rtt n t s = Inl (RuntimeError ''Overflow bytes in flight'')"
proof -
  have *: "addAndCheckOverflow v x = Inl e \<Longrightarrow> e = RuntimeError ''Overflow bytes in flight''" for v x e
    by (simp add: addAndCheckOverflow_cases split: if_splits)
  show ?thesis using assms
    by (auto simp: copa_increase_def Let_def copa_inv_def split: sum.splits
        dest!: * dest: addAndCheckOverflow_ge)
qed

lemma copa_decrease_inv:
  assumes "copa_inv s"
  shows "\<exists>s'. copa_decrease n t s = Inr s' \<and> copa_inv s' \<and> cp_cwnd s' \<le> cp_cwnd s"
  using assms sub_min_floor [of "cp_min_cwnd s" "cp_cwnd s"]
  by (auto simp: copa_decrease_def Let_def copa_inv_def subtractAndCheckUnderflow_min)

lemma copa_acked_inv:
  assumes "copa_inv s" "0 < rtt_latest rtt"
  shows "(\<exists>s'. copa_OnPacketAcked rtt a t s = Inr s' \<and> copa_inv s') \<or>
    copa_OnPacketAcked rtt a t s = Inl (RuntimeError ''Overflow bytes in flight'')"
proof -
  let ?s = "copa_observe rtt a t s"
  obtain b where b: "copa_increaseCwnd rtt ?s = Inr b" using copa_increaseCwnd_total [OF assms] by blast
  define s2 where "s2 = (if \<not> (b \<and> cp_isSlowStart ?s) then copa_CheckAndUpdateDirection rtt t ?s else ?s)"
  have i: "copa_inv s2" using copa_inv_observe [OF assms] by (auto simp: s2_def intro: copa_inv_direction)
  have e: "copa_OnPacketAcked rtt a t s = (if b then copa_increase rtt (of_nat (length a)) t s2
      else copa_decrease (of_nat (length a)) t s2)"
    by (simp add: copa_OnPacketAcked_def Let_def b s2_def)
  show ?thesis
    using copa_increase_inv [OF i, of rtt "of_nat (length a)" t]
      copa_decrease_inv [OF i, of "of_nat (length a)" t] by (cases b) (auto simp: e)
qed

lemma copa_step_inv:
  assumes "copa_inv s" "copa_ok e"
  shows "(\<exists>s'. copa_step e s = Inr s' \<and> copa_inv s') \<or>
    copa_step e s = Inl (RuntimeError ''Overflow bytes in flight'')"
proof (cases e)
  case (CopaCongestion rtt t acked lost)
  then show ?thesis
    using copa_acked_inv [OF copa_inv_losses [OF assms(1), of lost]] assms(2)
    by (simp add: copa_OnCongestionEvent_def)
qed (use assms in \<open>auto simp: copa_inv_def copa_OnPacketSent_def copa_SetInitialCongestionWindowInPackets_def\<close>)

interpretation copa: window_sender copa_step "\<lambda>e s. copa_ok e" copa_inv
  "\<lambda>err. err = RuntimeError ''Overflow bytes in flight''" copa_GetCongestionWindow copa_kDefaultMinimumCongestionWindow
proof unfold_locales
  show "case copa_step e s of Inl err \<Rightarrow> err = RuntimeError ''Overflow bytes in flight'' | Inr s' \<Rightarrow> copa_inv s'"
    if "copa_inv s" "copa_ok e" for s e
    using copa_step_inv [OF that] by auto
  show "copa_kDefaultMinimumCongestionWindow \<le> copa_GetCongestionWindow s" if "copa_inv s" for s
    using that by (simp add: copa_inv_def copa_GetCongestionWindow_def)
qed

lemma copa_new_inv:
  "copa_kDefaultMinimumCongestionWindow \<le> w * kDefaultTCPMSS \<Longrightarrow>
   copa_inv (fst (CopaSender_new w m g st))"
  by (simp add: copa_inv_def CopaSender_new_def rtt_filter_ok_def wf_new_def Delta_Zero_def GetBest_def
      mk_sample_def)

subsection \<open>The rule of Copa on integers\<close>

text \<open>
  What the paper's rule comes to in this code, without floating point: the window grows while
  the current rate is at most the target rate \<open>2 MSS / d\<close>, by \<open>2 n MSS\<^sup>2 v / cwnd\<close> bytes for \<open>n\<close> acked
  packets and velocity \<open>v\<close>, and otherwise shrinks by as much, down to four packets.
\<close>

definition copa_spec_up :: "int \<Rightarrow> int \<Rightarrow> int \<Rightarrow> bool" where
  "copa_spec_up d standing w \<longleftrightarrow> d = 0 \<or> w * 1000000 div standing \<le> 2920000000 div d"

definition copa_spec_velocity :: "bool \<Rightarrow> direction \<Rightarrow> u64 \<Rightarrow> u64" where
  "copa_spec_velocity up dir v = (if v > 1 \<and> dir \<noteq> (if up then Up else Down) then 1 else v)"

definition copa_spec_window :: "bool \<Rightarrow> int \<Rightarrow> int \<Rightarrow> int \<Rightarrow> int" where
  "copa_spec_window up n v w =
     (let x = 2 * n * 1460 * 1460 * v div w in if up then w + x else max 5840 (w - x))"

lemma f64_half: "0 \<le> d \<Longrightarrow> d < 2 ^ 53 \<Longrightarrow> f64 (1/2 * f64 (of_int d)) = of_int d / 2"
proof -
  assume d: "0 \<le> d" "d < 2 ^ 53"
  have "f64 (rat_of_int d / 2) = of_int d / 2"
    by (rule fl_exact [where k = d and j = "- 1"]) (use d in \<open>auto simp: power_int_minus\<close>)
  moreover have "f64 (rat_of_int d) = of_int d" using d by (intro fl_of_int) auto
  ultimately show ?thesis by simp
qed

lemma f64_quotient:
  "0 \<le> a \<Longrightarrow> a < 2 ^ 53 \<Longrightarrow> 0 < b \<Longrightarrow> ctrunc (f64 (of_int a / of_int b)) = a div b"
  using fl_div_floor [of a 53 b] by (simp add: ctrunc_def)

lemma copa_targetRate_exact:
  assumes "cp_latencyFactor s = 1/2" "0 < d" "d < 2 ^ 53"
  shows "copa_targetRate d s = 2920000000 div d"
proof -
  have "f64 (of_int 1460000000) = of_int 1460000000" "f64 (of_int 1460) = of_int 1460"
    by (rule fl_of_int; simp)+
  then have e: "f64 (f64 (of_int (uint kDefaultTCPMSS)) * 1000000) = 1460000000"
    by (simp add: kDefaultTCPMSS_def)
  have h: "f64 (1/2 * f64 (of_int d)) = of_int d / 2" by (rule f64_half) (use assms in auto)
  have q: "1460000000 / (rat_of_int d / 2) = of_int 2920000000 / of_int d" by simp
  show ?thesis unfolding copa_targetRate_def assms(1) e h q by (rule f64_quotient) (use assms in auto)
qed

lemma copa_currentRate_exact:
  assumes "uint (cp_cwnd s) * 1000000 < 2 ^ 53" "0 < r" "r < 2 ^ 53"
  shows "copa_currentRate r s = uint (cp_cwnd s) * 1000000 div r"
proof -
  let ?w = "uint (cp_cwnd s)"
  have "f64 (of_int (?w * 1000000)) = of_int (?w * 1000000)" "f64 (of_int ?w) = of_int ?w"
    "f64 (of_int r) = of_int r"
    by (rule fl_of_int; use assms in simp)+
  then show ?thesis using f64_quotient [of "?w * 1000000" r] assms
    by (simp add: copa_currentRate_def copa_GetCongestionWindow_def)
qed

lemma copa_stepSize_exact:
  assumes "cp_latencyFactor s = 1/2" "0 < uint (cp_cwnd s)" "uint (cp_cwnd s) < 2 ^ 53"
    "2 * uint n * 1460 * 1460 * uint (vs_velocity (cp_velocityState s)) < 2 ^ 53"
  shows "uint (copa_stepSize n s) =
    2 * uint n * 1460 * 1460 * uint (vs_velocity (cp_velocityState s)) div uint (cp_cwnd s)"
proof -
  let ?v = "vs_velocity (cp_velocityState s)" and ?w = "uint (cp_cwnd s)"
  let ?a = "uint n * 1460 * 1460 * uint ?v"
  have a: "0 \<le> ?a" "2 * ?a < 2 ^ 53" using assms(4) by (simp_all add: mult.assoc)
  have u: "uint (n * kDefaultTCPMSS * kDefaultTCPMSS * ?v) = ?a"
  proof -
    have "uint (n * kDefaultTCPMSS * kDefaultTCPMSS * ?v) = ?a mod 2 ^ 64"
      by (simp add: kDefaultTCPMSS_def uint_word_ariths mod_simps mult.assoc)
    then show ?thesis using a by (simp add: mod_pos_pos_trivial)
  qed
  have f: "f64 (of_int ?a) = of_int ?a" by (rule fl_of_int) (use a in linarith)
  have h: "f64 (1/2 * f64 (of_int ?w)) = of_int ?w / 2" by (rule f64_half) (use assms in auto)
  have q: "rat_of_int ?a / (of_int ?w / 2) = of_int (2 * ?a) / of_int ?w" by simp
  have "ctrunc (f64 (of_int (2 * ?a) / of_int ?w)) = 2 * ?a div ?w"
    by (rule f64_quotient) (use a assms in auto)
  then have s: "copa_stepSize n s = of_int (2 * ?a div ?w)"
    unfolding copa_stepSize_def assms(1) u f h q by (simp only:)
  have "0 \<le> 2 * ?a div ?w" "2 * ?a div ?w \<le> 2 * ?a div 1"
    using a assms zdiv_mono2 [of "2 * ?a" 1 ?w] by (simp_all add: pos_imp_zdiv_nonneg_iff)
  then have "uint (word_of_int (2 * ?a div ?w) :: u64) = 2 * ?a div ?w"
    using a by (simp add: uint_word_of_int mod_pos_pos_trivial)
  then show ?thesis unfolding s by (simp add: mult.assoc)
qed

lemma copa_increaseCwnd_exact:
  fixes s rtt
  defines "d \<equiv> rtt_latest rtt - GetBest (cp_minRTTFilter s)"
  assumes "cp_latencyFactor s = 1/2" "0 \<le> d" "d < 2 ^ 53" "0 < GetBest (cp_standingRTTFilter s)"
    "GetBest (cp_standingRTTFilter s) < 2 ^ 53" "uint (cp_cwnd s) * 1000000 < 2 ^ 53"
  shows "copa_increaseCwnd rtt s =
    Inr (copa_spec_up d (GetBest (cp_standingRTTFilter s)) (uint (cp_cwnd s)))"
  using assms copa_targetRate_exact [of s d] copa_currentRate_exact [of s "GetBest (cp_standingRTTFilter s)"]
  by (auto simp: copa_increaseCwnd_def Let_def Delta_IsZero_def copa_spec_up_def)

text \<open>The part of \<open>OnPacketAcked\<close> after the decision, outside slow start.\<close>

lemma copa_velocity_change:
  "vs_velocity (cp_velocityState (if vs_direction (cp_velocityState s) \<noteq> d \<and> vs_velocity (cp_velocityState s) > 1
     then copa_ChangeDirection d t s else s)) =
   (if vs_velocity (cp_velocityState s) > 1 \<and> vs_direction (cp_velocityState s) \<noteq> d then 1
    else vs_velocity (cp_velocityState s))"
  by (simp add: copa_ChangeDirection_def)

lemma copa_change_cond_frame:
  "cp_cwnd (if b then copa_ChangeDirection d t s else s) = cp_cwnd s"
  "cp_min_cwnd (if b then copa_ChangeDirection d t s else s) = cp_min_cwnd s"
  "cp_latencyFactor (if b then copa_ChangeDirection d t s else s) = cp_latencyFactor s"
  by simp_all

lemma copa_increase_rule:
  fixes s n
  defines "v \<equiv> copa_spec_velocity True (vs_direction (cp_velocityState s)) (vs_velocity (cp_velocityState s))"
  assumes "\<not> cp_isSlowStart s" "cp_latencyFactor s = 1/2" "0 < uint (cp_cwnd s)" "uint (cp_cwnd s) < 2 ^ 53"
    "2 * uint n * 1460 * 1460 * uint v < 2 ^ 53"
  shows "\<exists>s'. copa_increase rtt n t s = Inr s' \<and>
    uint (cp_cwnd s') = copa_spec_window True (uint n) (uint v) (uint (cp_cwnd s))"
proof -
  define s1 where "s1 = (if vs_direction (cp_velocityState s) \<noteq> Up \<and> vs_velocity (cp_velocityState s) > 1
      then copa_ChangeDirection Up t s else s)"
  have v: "vs_velocity (cp_velocityState s1) = v"
    by (simp add: s1_def copa_velocity_change v_def copa_spec_velocity_def)
  have w: "cp_cwnd s1 = cp_cwnd s" "cp_latencyFactor s1 = 1/2"
    using assms(3) by (simp_all add: s1_def)
  have x: "uint (copa_stepSize n s1) = 2 * uint n * 1460 * 1460 * uint v div uint (cp_cwnd s)"
    using copa_stepSize_exact [of s1 n] assms v w by simp
  have "2 * uint n * 1460 * 1460 * uint v div uint (cp_cwnd s) \<le> 2 * uint n * 1460 * 1460 * uint v div 1"
    by (rule zdiv_mono2) (use assms in auto)
  then have "uint (cp_cwnd s) + uint (copa_stepSize n s1) < 2 ^ 64"
    using x assms by simp
  then have "addAndCheckOverflow (cp_cwnd s1) (copa_stepSize n s1) = Inr (cp_cwnd s + copa_stepSize n s1)"
    "uint (cp_cwnd s + copa_stepSize n s1) = uint (cp_cwnd s) + uint (copa_stepSize n s1)"
    by (simp_all add: addAndCheckOverflow_cases w uint_word_ariths mod_pos_pos_trivial)
  then show ?thesis using assms(2) x
    by (simp add: copa_increase_def Let_def copa_spec_window_def flip: s1_def)
qed

lemma copa_decrease_rule:
  fixes s n
  defines "v \<equiv> copa_spec_velocity False (vs_direction (cp_velocityState s)) (vs_velocity (cp_velocityState s))"
  assumes "copa_inv s" "uint (cp_cwnd s) < 2 ^ 53"
    "2 * uint n * 1460 * 1460 * uint v < 2 ^ 53"
  shows "\<exists>s'. copa_decrease n t s = Inr s' \<and>
    uint (cp_cwnd s') = copa_spec_window False (uint n) (uint v) (uint (cp_cwnd s))"
proof -
  define s1 where "s1 = (if vs_direction (cp_velocityState s) \<noteq> Down \<and> vs_velocity (cp_velocityState s) > 1
      then copa_ChangeDirection Down t s else s)"
  have v: "vs_velocity (cp_velocityState s1) = v"
    by (simp add: s1_def copa_velocity_change v_def copa_spec_velocity_def)
  have w: "cp_cwnd s1 = cp_cwnd s" "cp_latencyFactor s1 = 1/2" "cp_min_cwnd s1 = 5840" "5840 \<le> cp_cwnd s"
    using assms(2) by (simp_all add: s1_def copa_inv_def copa_kDefaultMinimumCongestionWindow_def kDefaultTCPMSS_def)
  then have w': "5840 \<le> uint (cp_cwnd s)" by (simp add: word_le_def)
  have x: "uint (copa_stepSize n s1) = 2 * uint n * 1460 * 1460 * uint v div uint (cp_cwnd s)"
    using copa_stepSize_exact [of s1 n] assms v w w' by simp
  have "uint (cp_cwnd s - 5840) = uint (cp_cwnd s) - 5840"
    using w(4) by (simp add: uint_sub_le)
  then have "uint (min (copa_stepSize n s1) (cp_cwnd s - 5840)) =
      min (uint (copa_stepSize n s1)) (uint (cp_cwnd s) - 5840)"
    by (simp add: min_def word_le_def)
  moreover have "uint (cp_cwnd s - min (copa_stepSize n s1) (cp_cwnd s - 5840)) =
      uint (cp_cwnd s) - uint (min (copa_stepSize n s1) (cp_cwnd s - 5840))"
  proof -
    have "min (copa_stepSize n s1) (cp_cwnd s - 5840) \<le> cp_cwnd s"
      using w(4) by (meson min.cobounded2 order_trans word_sub_le)
    then show ?thesis by (simp add: uint_sub_lem [THEN iffD1] word_le_def)
  qed
  ultimately show ?thesis using x w(4)
    by (simp add: copa_decrease_def Let_def copa_spec_window_def w subtractAndCheckUnderflow_min flip: s1_def)
qed

subsection \<open>Slow start\<close>

fun copa_ack_call :: "delta \<Rightarrow> quic_time \<Rightarrow> copa_call \<Rightarrow> bool" where
  "copa_ack_call R T (CopaSent p) \<longleftrightarrow> True"
| "copa_ack_call R T (CopaSetInitial n) \<longleftrightarrow> False"
| "copa_ack_call R T (CopaCongestion rtt t acked lost) \<longleftrightarrow> 0 < t \<and> t \<le> T \<and> R \<le> rtt_smoothed rtt"

lemma copa_losses_frame [simp]:
  "cp_cwnd (fold (\<lambda>p. copa_OnPacketLost (lp_packet_number p)) lost s) = cp_cwnd s"
  "cp_isSlowStart (fold (\<lambda>p. copa_OnPacketLost (lp_packet_number p)) lost s) = cp_isSlowStart s"
  "cp_lastCwndDoubleTime (fold (\<lambda>p. copa_OnPacketLost (lp_packet_number p)) lost s) = cp_lastCwndDoubleTime s"
  "cp_velocityState (fold (\<lambda>p. copa_OnPacketLost (lp_packet_number p)) lost s) = cp_velocityState s"
  "cp_minRTTFilter (fold (\<lambda>p. copa_OnPacketLost (lp_packet_number p)) lost s) = cp_minRTTFilter s"
  "cp_standingRTTFilter (fold (\<lambda>p. copa_OnPacketLost (lp_packet_number p)) lost s) = cp_standingRTTFilter s"
  "cp_min_cwnd (fold (\<lambda>p. copa_OnPacketLost (lp_packet_number p)) lost s) = cp_min_cwnd s"
  "cp_latencyFactor (fold (\<lambda>p. copa_OnPacketLost (lp_packet_number p)) lost s) = cp_latencyFactor s"
  by (induction lost arbitrary: s; simp add: copa_OnPacketLost_def)+

lemma copa_decrease_slow: "copa_decrease n t s = Inr s' \<Longrightarrow> \<not> cp_isSlowStart s'"
  by (auto simp: copa_decrease_def Let_def split: sum.splits)

lemma copa_increase_slow:
  assumes "copa_increase rtt n t s = Inr s'" "cp_isSlowStart s" "cp_lastCwndDoubleTime s \<noteq> 0"
  shows "cp_cwnd s' = cp_cwnd s \<and> cp_lastCwndDoubleTime s' = cp_lastCwndDoubleTime s \<or>
    uint (cp_cwnd s') = 2 * uint (cp_cwnd s) \<and> cp_lastCwndDoubleTime s' = t \<and>
      t - cp_lastCwndDoubleTime s > rtt_smoothed rtt"
  using assms by (auto simp: copa_increase_def Time_IsInitialized_def addAndCheckOverflow_cases
      uint_word_ariths mod_pos_pos_trivial split: if_splits)

lemma copa_step_slow:
  assumes "copa_step e s = Inr s'" "cp_isSlowStart s'" "copa_ack_call R T e" "0 < cp_lastCwndDoubleTime s"
    "cp_lastCwndDoubleTime s \<le> T"
  shows "cp_isSlowStart s \<and> 0 < cp_lastCwndDoubleTime s' \<and> cp_lastCwndDoubleTime s' \<le> T \<and>
    (\<exists>k. uint (cp_cwnd s') = uint (cp_cwnd s) * 2 ^ k \<and>
       int k * R \<le> cp_lastCwndDoubleTime s' - cp_lastCwndDoubleTime s)"
proof (cases e)
  case (CopaSent p)
  then have "s' = copa_OnPacketSent p s" using assms(1) by simp
  then show ?thesis using assms by (auto simp: copa_OnPacketSent_def intro: exI [of _ 0])
next
  case (CopaCongestion rtt t acked lost)
  let ?n = "of_nat (length acked) :: u64"
  let ?l = "fold (\<lambda>p. copa_OnPacketLost (lp_packet_number p)) lost s"
  let ?o = "copa_observe rtt acked t ?l"
  obtain b where b: "copa_increaseCwnd rtt ?o = Inr b"
    using assms(1) CopaCongestion
    by (auto simp: copa_OnCongestionEvent_def copa_OnPacketAcked_def Let_def split: sum.splits)
  have r: "s' = s' \<and> Inr s' = (if b then copa_increase rtt ?n t (if cp_isSlowStart s then ?o else copa_CheckAndUpdateDirection rtt t ?o)
      else copa_decrease ?n t (copa_CheckAndUpdateDirection rtt t ?o))"
    using assms(1) CopaCongestion b
    by (auto simp: copa_OnCongestionEvent_def copa_OnPacketAcked_def Let_def)
  have b: "b" using r copa_decrease_slow assms(2) by (cases b) (auto dest: sym)
  have slow: "cp_isSlowStart s"
  proof (rule ccontr)
    assume "\<not> cp_isSlowStart s"
    then show False using r b assms(2)
      by (auto simp: copa_increase_def Let_def split: sum.splits if_splits)
  qed
  then have "copa_increase rtt ?n t ?o = Inr s'" using r b by simp
  from copa_increase_slow [OF this] slow assms(4)
  consider "cp_cwnd s' = cp_cwnd s" "cp_lastCwndDoubleTime s' = cp_lastCwndDoubleTime s"
    | "uint (cp_cwnd s') = 2 * uint (cp_cwnd s)" "cp_lastCwndDoubleTime s' = t"
      "t - cp_lastCwndDoubleTime s > rtt_smoothed rtt" by auto
  then show ?thesis
  proof cases
    case 1
    then show ?thesis using slow assms by (auto intro: exI [of _ 0])
  next
    case 2
    then show ?thesis using slow assms CopaCongestion by (auto intro!: exI [of _ 1])
  qed
qed (use assms in simp)

lemma copa_run_slow:
  assumes "run_calls copa_step es s = Inr s'" "cp_isSlowStart s'" "list_all (copa_ack_call R T) es"
    "0 < cp_lastCwndDoubleTime s" "cp_lastCwndDoubleTime s \<le> T"
  shows "cp_isSlowStart s \<and> cp_lastCwndDoubleTime s' \<le> T \<and> (\<exists>k. uint (cp_cwnd s') = uint (cp_cwnd s) * 2 ^ k \<and>
       int k * R \<le> cp_lastCwndDoubleTime s' - cp_lastCwndDoubleTime s)"
  using assms
proof (induction es arbitrary: s)
  case Nil
  then show ?case by (auto intro: exI [of _ 0])
next
  case (Cons e es)
  then obtain s1 where s1: "copa_step e s = Inr s1" "run_calls copa_step es s1 = Inr s'"
    by (auto split: sum.splits)
  show ?case
  proof (cases "0 < cp_lastCwndDoubleTime s1 \<and> cp_lastCwndDoubleTime s1 \<le> T")
    case True
    from Cons.IH [OF s1(2)] True Cons.prems obtain k where k: "cp_isSlowStart s1" "cp_lastCwndDoubleTime s' \<le> T"
      "uint (cp_cwnd s') = uint (cp_cwnd s1) * 2 ^ k"
      "int k * R \<le> cp_lastCwndDoubleTime s' - cp_lastCwndDoubleTime s1" by auto
    from copa_step_slow [OF s1(1) k(1)] Cons.prems obtain j where j: "cp_isSlowStart s"
      "uint (cp_cwnd s1) = uint (cp_cwnd s) * 2 ^ j"
      "int j * R \<le> cp_lastCwndDoubleTime s1 - cp_lastCwndDoubleTime s" by auto
    have "uint (cp_cwnd s') = uint (cp_cwnd s) * 2 ^ (j + k)" using j k by (simp add: power_add)
    moreover have "int (j + k) * R \<le> cp_lastCwndDoubleTime s' - cp_lastCwndDoubleTime s"
      using j k by (simp add: distrib_right)
    ultimately show ?thesis using j k by blast
  next
    case False
    have "0 < cp_lastCwndDoubleTime s1 \<and> cp_lastCwndDoubleTime s1 \<le> T"
      using s1(1) Cons.prems(3-5)
      by (cases e) (auto simp: copa_OnPacketSent_def copa_OnCongestionEvent_def copa_OnPacketAcked_def
          copa_increase_def copa_decrease_def Let_def copa_ChangeDirection_def split: sum.splits if_splits)
    then show ?thesis using False by simp
  qed
qed

subsection \<open>The velocity wraps around\<close>

text \<open>
  The velocity is a \<open>uint64_t\<close> that doubles once per RTT for as long as the direction stays the same. At the
  minimum window the direction stays \<open>Down\<close>, and after 64 doublings the velocity is 0. Both
  the step size and the test \<open>velocity > 1.0\<close> that would reset it then fail forever.
\<close>

definition copa_stuck :: "copa_sender \<Rightarrow> bool" where
  "copa_stuck s \<longleftrightarrow> \<not> cp_isSlowStart s \<and> vs_velocity (cp_velocityState s) = 0 \<and>
     vs_direction (cp_velocityState s) = Down \<and> cp_cwnd s \<le> vs_lastRecordedCwndBytes (cp_velocityState s)"

lemma copa_stuck_direction: "copa_stuck s \<Longrightarrow> copa_stuck (copa_CheckAndUpdateDirection rtt t s)"
  by (auto simp: copa_stuck_def copa_CheckAndUpdateDirection_def Let_def copa_GetCongestionWindow_def not_less)

lemma copa_stuck_size: "copa_stuck s \<Longrightarrow> copa_stepSize n s = 0"
  by (simp add: copa_stuck_def copa_stepSize_def ctrunc_def)

lemma copa_stuck_increase:
  "copa_stuck s \<Longrightarrow> copa_increase rtt n t s = Inr s' \<Longrightarrow> copa_stuck s' \<and> cp_cwnd s' = cp_cwnd s"
  using copa_stuck_size [of s n]
  by (auto simp: copa_stuck_def copa_increase_def Let_def addAndCheckOverflow_def split: if_splits)

lemma copa_stuck_decrease:
  "copa_stuck s \<Longrightarrow> copa_decrease n t s = Inr s' \<Longrightarrow> copa_stuck s' \<and> cp_cwnd s' = cp_cwnd s"
  using copa_stuck_size [of s n]
  by (auto simp: copa_stuck_def copa_decrease_def Let_def subtractAndCheckUnderflow_def split: if_splits)

lemma copa_stuck_step:
  assumes "copa_stuck s" "copa_step e s = Inr s'"
  shows "copa_stuck s' \<and> cp_cwnd s' = cp_cwnd s"
proof (cases e)
  case (CopaCongestion rtt t acked lost)
  define o' where "o' = copa_observe rtt acked t (fold (\<lambda>p. copa_OnPacketLost (lp_packet_number p)) lost s)"
  have o: "copa_stuck o'" "cp_cwnd o' = cp_cwnd s" "\<not> cp_isSlowStart o'"
    using assms(1) by (simp_all add: o'_def copa_stuck_def)
  from assms(2) CopaCongestion o(3) show ?thesis
    using copa_stuck_increase [OF copa_stuck_direction [OF o(1)]]
      copa_stuck_decrease [OF copa_stuck_direction [OF o(1)]] o(2)
    by (auto simp: copa_OnCongestionEvent_def copa_OnPacketAcked_def Let_def simp flip: o'_def
        split: sum.splits if_splits)
qed (use assms in \<open>auto simp: copa_stuck_def copa_OnPacketSent_def copa_SetInitialCongestionWindowInPackets_def\<close>)

text \<open>
  A schedule that leads there: one RTT of 20 ms, then RTTs of 100 ms (another flow fills the
  queue), one congestion event each.
\<close>

definition copa_rtt :: "delta \<Rightarrow> rtt_stats" where
  "copa_rtt d = RttStats_new\<lparr>rtt_latest := d, rtt_smoothed := d, rtt_min := 20000\<rparr>"

definition copa_queue_event :: "nat \<Rightarrow> copa_call" where
  "copa_queue_event k =
     CopaCongestion (copa_rtt 100000) (1100000 + 100000 * int k)
       [\<lparr>ap_packet_number = of_nat k, ap_bytes_acked = 1460, ap_receive_timestamp = 0\<rparr>] []"

text \<open>The filters during this schedule, after an event at time \<open>t\<close>: the minimum of 20 ms is remembered.\<close>

definition copa_queue_filters :: "quic_time \<Rightarrow> copa_sender \<Rightarrow> bool" where
  "copa_queue_filters t s \<longleftrightarrow>
     (let f = cp_minRTTFilter s; g = cp_standingRTTFilter s
      in wf_window_length f = 10000000 \<and> wf_est0 f = mk_sample 20000 1000000 \<and>
         1000000 \<le> smp_time (wf_est2 f) \<and> uint (smp_time (wf_est2 f)) \<le> t \<and>
         smp_time (wf_est2 g) = of_int t)"

definition copa_trickle :: "nat \<Rightarrow> copa_sender \<Rightarrow> bool" where
  "copa_trickle k s \<longleftrightarrow> copa_inv s \<and> cp_cwnd s = 5840 \<and> \<not> cp_isSlowStart s \<and>
     copa_queue_filters (1100000 + 100000 * int (k + 1)) s \<and>
     (let v = cp_velocityState s
      in vs_direction v = Down \<and> vs_numTimesDirectionSame v = of_nat k \<and> vs_velocity v = 2 ^ (k - 2) \<and>
         vs_lastRecordedCwndBytes v = 5840 \<and> vs_lastCwndRecordTime v = 1100000 + 100000 * int (k + 1))"

lemma min_filter_keeps:
  assumes "smp (wf_est0 f) \<noteq> wf_zero_value f" "smp (wf_est0 f) < d" "smp_time (wf_est0 f) \<le> t"
    "smp_time (wf_est2 f) \<le> t" "uint t - uint (smp_time (wf_est0 f)) \<le> uint (wf_window_length f)"
    "uint t - uint (smp_time (wf_est2 f)) \<le> uint (wf_window_length f)"
  shows "wf_est0 (wf_Update MinFilter d t f) = wf_est0 f \<and>
    (smp_time (wf_est2 (wf_Update MinFilter d t f)) = t \<or>
     smp_time (wf_est2 (wf_Update MinFilter d t f)) = smp_time (wf_est2 f))"
proof -
  have "\<not> wf_window_length f < t - smp_time (wf_est0 f)" "\<not> wf_window_length f < t - smp_time (wf_est2 f)"
    using assms by (simp_all add: word_less_def uint_sub_le not_less)
  then show ?thesis using assms
    by (auto simp: wf_Update_def MinFilter_def wf_expire_def wf_replace_def mk_sample_def Let_def)
qed

lemma min_filter_reset:
  assumes "wf_window_length f < t - smp_time (wf_est2 f)"
  shows "wf_Update c d t f = wf_Reset d t f"
  using assms by (simp add: wf_Update_def)

lemma copa_queue_observe:
  fixes s t a
  defines "o' \<equiv> copa_observe (copa_rtt 100000) a (t + 100000) s"
  assumes q: "copa_queue_filters t s" and i: "copa_inv s" and t: "1000000 \<le> t" "t \<le> 10900000"
  shows "copa_queue_filters (t + 100000) o'" and "GetBest (cp_standingRTTFilter o') = 100000"
proof -
  let ?f = "cp_minRTTFilter s" and ?g = "cp_standingRTTFilter s"
  have u: "uint (word_of_int (t + 100000) :: u64) = t + 100000"
    using t by (simp only: uint_word_of_int) (simp add: mod_pos_pos_trivial)
  have f: "wf_window_length ?f = 10000000" "wf_est0 ?f = mk_sample 20000 1000000" "wf_zero_value ?f = 0"
    "1000000 \<le> uint (smp_time (wf_est2 ?f))" "uint (smp_time (wf_est2 ?f)) \<le> t"
    "smp_time (wf_est2 ?g) = of_int t"
    using q i by (simp_all add: copa_queue_filters_def Let_def copa_inv_def rtt_filter_ok_def word_le_def)
  have est: "wf_est0 (cp_minRTTFilter o') = wf_est0 ?f \<and>
     (smp_time (wf_est2 (cp_minRTTFilter o')) = of_int (t + 100000) \<or>
      smp_time (wf_est2 (cp_minRTTFilter o')) = smp_time (wf_est2 ?f))"
    unfolding o'_def copa_observe_frame
    by (rule min_filter_keeps)
       (use f u t in \<open>simp_all add: mk_sample_def copa_rtt_def word_le_def del: of_int_add\<close>)
  have "of_int (100000 sdiv 2) < (of_int (t + 100000) :: u64) - of_int t"
    by (simp add: sdiv_nonneg)
  then have g: "cp_standingRTTFilter o' =
      wf_Reset 100000 (of_int (t + 100000)) (wf_SetWindowLength (of_int (100000 sdiv 2)) ?g)"
    unfolding o'_def copa_observe_frame using f(6)
    by (subst min_filter_reset) (simp_all add: wf_SetWindowLength_def copa_rtt_def)
  have "wf_window_length (cp_minRTTFilter o') = 10000000"
    using f by (simp add: o'_def min_filter.update_window)
  moreover have "1000000 \<le> smp_time (wf_est2 (cp_minRTTFilter o'))"
    "uint (smp_time (wf_est2 (cp_minRTTFilter o'))) \<le> t + 100000"
    using est f u t by (auto simp: word_le_def simp del: of_int_add)
  ultimately show "copa_queue_filters (t + 100000) o'" using est f g
    by (simp add: copa_queue_filters_def Let_def wf_Reset_def mk_sample_def)
  show "GetBest (cp_standingRTTFilter o') = 100000"
    by (simp add: g wf_Reset_def mk_sample_def GetBest_def)
qed

lemma copa_rtt_simps [simp]: "rtt_latest (copa_rtt d) = d" "rtt_smoothed (copa_rtt d) = d"
  by (simp_all add: copa_rtt_def)

lemma copa_queue_decision:
  assumes "copa_queue_filters t s" "copa_inv s" "1000000 \<le> t" "t \<le> 10900000" "cp_cwnd s = 5840"
  shows "copa_increaseCwnd (copa_rtt 100000) (copa_observe (copa_rtt 100000) a (t + 100000) s) = Inr False"
proof -
  let ?o = "copa_observe (copa_rtt 100000) a (t + 100000) s"
  note ob = copa_queue_observe [OF assms(1-4), of a]
  have "GetBest (cp_minRTTFilter ?o) = 20000"
    using ob(1) by (simp add: GetBest_def mk_sample_def copa_queue_filters_def Let_def del: copa_observe_frame)
  then show ?thesis using assms(2,5) ob(2)
    by (subst copa_increaseCwnd_exact)
       (simp_all add: copa_spec_up_def copa_inv_def del: copa_observe_frame(7-8))
qed

text \<open>One event of the schedule at the minimum window only updates the direction and the filters.\<close>

lemma copa_queue_step:
  assumes "copa_queue_filters (1000000 + 100000 * int k) s" "copa_inv s" "k \<le> 90" "cp_cwnd s = 5840"
    and v': "v' = cp_velocityState (copa_CheckAndUpdateDirection (copa_rtt 100000) (1100000 + 100000 * int k)
        (copa_observe (copa_rtt 100000) a (1100000 + 100000 * int k) s))"
      "vs_velocity v' \<le> 1 \<or> vs_direction v' = Down"
    and a: "a = [\<lparr>ap_packet_number = of_nat k, ap_bytes_acked = 1460, ap_receive_timestamp = 0\<rparr>]"
  shows "\<exists>s'. copa_step (copa_queue_event k) s = Inr s' \<and> copa_inv s' \<and> cp_cwnd s' = 5840 \<and>
    \<not> cp_isSlowStart s' \<and> copa_queue_filters (1100000 + 100000 * int k) s' \<and> cp_velocityState s' = v'"
proof -
  let ?t = "1100000 + 100000 * int k"
  define o' where "o' = copa_observe (copa_rtt 100000) a ?t s"
  define p where "p = copa_CheckAndUpdateDirection (copa_rtt 100000) ?t o'"
  have t: "1000000 + 100000 * int k + 100000 = ?t" by simp
  have d: "copa_increaseCwnd (copa_rtt 100000) o' = Inr False"
    using copa_queue_decision [OF assms(1,2) _ _ assms(4), of a] assms(3) unfolding o'_def t by simp
  have f: "copa_queue_filters ?t o'"
    using copa_queue_observe(1) [OF assms(1,2), of a] assms(3) unfolding o'_def t by simp
  have p: "cp_cwnd p = 5840" "cp_min_cwnd p = 5840" "cp_velocityState p = v'" "copa_queue_filters ?t p"
    using assms(2,4) v' f
    by (simp_all add: p_def o'_def copa_inv_def copa_kDefaultMinimumCongestionWindow_def kDefaultTCPMSS_def
        copa_queue_filters_def del: copa_observe_frame(7-8))
  have "copa_step (copa_queue_event k) s = copa_decrease 1 ?t p"
    using d by (simp add: copa_queue_event_def copa_OnCongestionEvent_def copa_OnPacketAcked_def Let_def
        o'_def p_def a)
  also have "\<dots> = Inr (p\<lparr>cp_isSlowStart := False, cp_cwnd := 5840\<rparr>)"
    using p v'(2) by (auto simp: copa_decrease_def Let_def subtractAndCheckUnderflow_def not_le)
  finally have s: "copa_step (copa_queue_event k) s = Inr (p\<lparr>cp_isSlowStart := False, cp_cwnd := 5840\<rparr>)" .
  moreover have "copa_inv (p\<lparr>cp_isSlowStart := False, cp_cwnd := 5840\<rparr>)"
    using copa_step_inv [of s "copa_queue_event k"] assms(2) s by (simp add: copa_queue_event_def)
  ultimately show ?thesis using p by (simp add: copa_queue_filters_def)
qed

lemma copa_trickle_step:
  assumes "copa_trickle k s" "k \<le> 66"
  shows "\<exists>s'. copa_step (copa_queue_event (k + 2)) s = Inr s' \<and> copa_trickle (k + 1) s'"
proof -
  let ?t = "1100000 + 100000 * int (k + 2)"
  define v where "v = cp_velocityState s"
  have v: "vs_direction v = Down" "vs_numTimesDirectionSame v = of_nat k" "vs_velocity v = 2 ^ (k - 2)"
    "vs_lastRecordedCwndBytes v = 5840" "vs_lastCwndRecordTime v = 1100000 + 100000 * int (k + 1)"
    using assms(1) by (simp_all add: copa_trickle_def Let_def v_def)
  define v' where "v' = v\<lparr>vs_numTimesDirectionSame := of_nat (k + 1), vs_velocity := 2 ^ (k + 1 - 2),
      vs_lastCwndRecordTime := ?t\<rparr>"
  have n: "(3 \<le> (1 + of_nat k :: u64)) = (2 \<le> k)"
  proof -
    have "unat (of_nat (k + 1) :: u64) = k + 1" 
      using assms(2) by (simp only: unsigned_of_nat) (simp add: take_bit_nat_eq_self)
    then show ?thesis by (simp add: word_le_nat_alt)
  qed
  define a where "a = [\<lparr>ap_packet_number = of_nat (k + 2) :: u64, ap_bytes_acked = 1460, ap_receive_timestamp = 0\<rparr>]"
  have w: "cp_cwnd s = 5840" using assms(1) by (simp add: copa_trickle_def)
  have dir: "cp_velocityState (copa_CheckAndUpdateDirection (copa_rtt 100000) ?t
      (copa_observe (copa_rtt 100000) a ?t s)) = v'"
  proof -
    have "(if 2 \<le> k then 2 * 2 ^ (k - 2) else 2 ^ (k - 2) :: u64) = 2 ^ (k - 1)"
      by (cases k; cases "k - 1") (simp_all)
    then show ?thesis
      using v n w
      by (simp add: copa_CheckAndUpdateDirection_def Let_def copa_GetCongestionWindow_def v'_def
          Time_IsInitialized_def add.commute flip: v_def)
        (cases v, auto split: if_splits)
  qed
  have "\<exists>s'. copa_step (copa_queue_event (k + 2)) s = Inr s' \<and> copa_inv s' \<and> cp_cwnd s' = 5840 \<and>
    \<not> cp_isSlowStart s' \<and> copa_queue_filters ?t s' \<and> cp_velocityState s' = v'"
    by (rule copa_queue_step [OF _ _ _ w, where a = a])
       (use assms dir v in \<open>simp_all add: copa_trickle_def a_def v'_def\<close>)
  then obtain s' where s': "copa_step (copa_queue_event (k + 2)) s = Inr s'" "copa_inv s'" "cp_cwnd s' = 5840"
    "\<not> cp_isSlowStart s'" "copa_queue_filters ?t s'" "cp_velocityState s' = v'" by blast
  have "copa_trickle (k + 1) s'" using s' v by (simp add: copa_trickle_def Let_def v'_def)
  then show ?thesis using s'(1) by blast
qed

lemma copa_trickle_run:
  assumes "copa_trickle 0 s" "k \<le> 67"
  shows "\<exists>s'. run_calls copa_step (map (\<lambda>j. copa_queue_event (j + 2)) [0..<k]) s = Inr s' \<and> copa_trickle k s'"
  using assms(2)
proof (induction k)
  case 0
  then show ?case using assms(1) by simp
next
  case (Suc k)
  from Suc obtain s1 where "run_calls copa_step (map (\<lambda>j. copa_queue_event (j + 2)) [0..<k]) s = Inr s1" "copa_trickle k s1"
    by auto
  then show ?case using copa_trickle_step [of k s1] Suc.prems by (auto simp: run_calls_append)
qed

lemma copa_trickle_start:
  "\<exists>s'. run_calls copa_step
       [CopaSetInitial 4, CopaCongestion (copa_rtt 20000) 1000000 [] [], copa_queue_event 0, copa_queue_event 1]
       (fst (CopaSender_new w m g st)) = Inr s' \<and> copa_trickle 0 s'"
proof -
  define s0 where "s0 = copa_SetInitialCongestionWindowInPackets 4 (fst (CopaSender_new w m g st))"
  define s1 where "s1 = (copa_observe (copa_rtt 20000) [] 1000000 s0)\<lparr>cp_lastCwndDoubleTime := 1000000\<rparr>"
  have s0: "copa_inv s0" "cp_cwnd s0 = 5840" "cp_velocityState s0 = VelocityState_new g"
    by (simp_all add: s0_def copa_inv_def CopaSender_new_def copa_SetInitialCongestionWindowInPackets_def
        copa_kDefaultMinimumCongestionWindow_def kDefaultTCPMSS_def rtt_filter_ok_def wf_new_def Delta_Zero_def
        GetBest_def mk_sample_def)
  have f0: "copa_observe (copa_rtt 20000) [] 1000000 s0 = s0\<lparr>
      cp_minRTTFilter := wf_Reset 20000 1000000 (cp_minRTTFilter s0),
      cp_standingRTTFilter := wf_Reset 20000 1000000 (wf_SetWindowLength 10000 (cp_standingRTTFilter s0))\<rparr>"
    by (simp add: s0_def CopaSender_new_def copa_SetInitialCongestionWindowInPackets_def copa_observe_def Let_def
        copa_rtt_def wf_Update_def wf_new_def wf_SetWindowLength_def mk_sample_def sdiv_nonneg)
  have d: "copa_increaseCwnd (copa_rtt 20000) (copa_observe (copa_rtt 20000) [] 1000000 s0) = Inr True"
    by (simp add: f0 copa_increaseCwnd_def Let_def wf_Reset_def GetBest_def mk_sample_def Delta_IsZero_def)
  have "cp_isSlowStart s0" "cp_lastCwndDoubleTime s0 = 0"
    by (simp_all add: s0_def CopaSender_new_def copa_SetInitialCongestionWindowInPackets_def)
  then have e1: "copa_step (CopaCongestion (copa_rtt 20000) 1000000 [] []) s0 = Inr s1"
    using d by (simp add: copa_OnCongestionEvent_def copa_OnPacketAcked_def Let_def copa_increase_def
        Time_IsInitialized_def s1_def)
  have i1: "copa_inv s1" 
    using copa_step_inv [OF s0(1), of "CopaCongestion (copa_rtt 20000) 1000000 [] []"] e1 by simp
  have q1: "copa_queue_filters 1000000 s1" "cp_cwnd s1 = 5840" "cp_velocityState s1 = VelocityState_new g"
    using s0 unfolding s1_def f0
    by (simp_all add: copa_queue_filters_def Let_def wf_Reset_def mk_sample_def)
       (simp add: s0_def CopaSender_new_def copa_SetInitialCongestionWindowInPackets_def wf_new_def
         copa_kMinRTTWindowLength_def FromSeconds_def)
  define v2 where "v2 = (VelocityState_new g)\<lparr>vs_lastCwndRecordTime := 1100000, vs_lastRecordedCwndBytes := 5840\<rparr>"
  have "\<exists>s'. copa_step (copa_queue_event 0) s1 = Inr s' \<and> copa_inv s' \<and> cp_cwnd s' = 5840 \<and>
    \<not> cp_isSlowStart s' \<and> copa_queue_filters (1100000 + 100000 * int 0) s' \<and> cp_velocityState s' = v2"
    by (rule copa_queue_step [where k = 0, OF _ i1 _ q1(2) _ _ refl])
       (use q1 in \<open>simp_all add: copa_CheckAndUpdateDirection_def Let_def Time_IsInitialized_def
          copa_GetCongestionWindow_def VelocityState_new_def v2_def\<close>)
  then obtain s2 where s2: "copa_step (copa_queue_event 0) s1 = Inr s2" "copa_inv s2" "cp_cwnd s2 = 5840"
    "copa_queue_filters 1100000 s2" "cp_velocityState s2 = v2" by auto
  define v3 where "v3 = v2\<lparr>vs_direction := Down, vs_lastCwndRecordTime := 1200000\<rparr>"
  have "\<exists>s'. copa_step (copa_queue_event 1) s2 = Inr s' \<and> copa_inv s' \<and> cp_cwnd s' = 5840 \<and>
    \<not> cp_isSlowStart s' \<and> copa_queue_filters (1100000 + 100000 * int 1) s' \<and> cp_velocityState s' = v3"
    by (rule copa_queue_step [where k = 1, OF _ s2(2) _ s2(3) _ _ refl])
       (use s2 in \<open>simp_all add: copa_CheckAndUpdateDirection_def Let_def Time_IsInitialized_def
          copa_GetCongestionWindow_def VelocityState_new_def v2_def v3_def\<close>)
  then obtain s3 where s3: "copa_step (copa_queue_event 1) s2 = Inr s3" "copa_inv s3" "cp_cwnd s3 = 5840"
    "\<not> cp_isSlowStart s3" "copa_queue_filters 1200000 s3" "cp_velocityState s3 = v3" by auto
  have "copa_trickle 0 s3"
    using s3 by (simp add: copa_trickle_def Let_def v3_def v2_def VelocityState_new_def)
  then show ?thesis using e1 s2(1) s3(1) by (simp flip: s0_def del: copa_step.simps(3))
qed

lemma copa_trickle_stuck: "copa_trickle 66 s \<Longrightarrow> copa_stuck s"
proof -
  have "(2 :: u64) ^ 64 = 0" by simp
  then show "copa_trickle 66 s \<Longrightarrow> copa_stuck s" by (simp add: copa_trickle_def copa_stuck_def Let_def)
qed

lemma copa_lost_form:
  "copa_OnPacketLost p s = s\<lparr>cp_largest_sent_at_last_cutback :=
     (if pn_IsInitialized (cp_largest_sent_at_last_cutback s) \<and> p \<le> cp_largest_sent_at_last_cutback s
      then cp_largest_sent_at_last_cutback s else cp_largest_sent s)\<rparr>"
  by (simp add: copa_OnPacketLost_def)

lemma copa_losses_form:
  "\<exists>c. fold (\<lambda>p. copa_OnPacketLost (lp_packet_number p)) lost s = s\<lparr>cp_largest_sent_at_last_cutback := c\<rparr>"
proof (induction lost arbitrary: s)
  case Nil
  have "s = s\<lparr>cp_largest_sent_at_last_cutback := cp_largest_sent_at_last_cutback s\<rparr>" by simp
  then show ?case by (simp only: fold_simps id_apply) blast
next
  case (Cons p lost)
  define b where "b = (if pn_IsInitialized (cp_largest_sent_at_last_cutback s) \<and>
      lp_packet_number p \<le> cp_largest_sent_at_last_cutback s
    then cp_largest_sent_at_last_cutback s else cp_largest_sent s)"
  have "copa_OnPacketLost (lp_packet_number p) s = s\<lparr>cp_largest_sent_at_last_cutback := b\<rparr>"
    unfolding b_def by (rule copa_lost_form)
  then show ?case using Cons.IH [of "s\<lparr>cp_largest_sent_at_last_cutback := b\<rparr>"] by simp
qed

text \<open>Nothing in \<open>OnPacketAcked\<close> reads the recovery mark.\<close>

lemma copa_cutback_commute:
  "copa_observe rtt a t (s\<lparr>cp_largest_sent_at_last_cutback := c\<rparr>) =
     (copa_observe rtt a t s)\<lparr>cp_largest_sent_at_last_cutback := c\<rparr>"
  "copa_increaseCwnd rtt (s\<lparr>cp_largest_sent_at_last_cutback := c\<rparr>) = copa_increaseCwnd rtt s"
  "copa_CheckAndUpdateDirection rtt t (s\<lparr>cp_largest_sent_at_last_cutback := c\<rparr>) =
     (copa_CheckAndUpdateDirection rtt t s)\<lparr>cp_largest_sent_at_last_cutback := c\<rparr>"
  "copa_ChangeDirection d t (s\<lparr>cp_largest_sent_at_last_cutback := c\<rparr>) =
     (copa_ChangeDirection d t s)\<lparr>cp_largest_sent_at_last_cutback := c\<rparr>"
  "copa_stepSize n (s\<lparr>cp_largest_sent_at_last_cutback := c\<rparr>) = copa_stepSize n s"
  by (simp_all add: copa_observe_def copa_increaseCwnd_def copa_CheckAndUpdateDirection_def copa_ChangeDirection_def
      copa_stepSize_def copa_targetRate_def copa_currentRate_def copa_GetCongestionWindow_def Let_def)

lemma copa_increase_cutback:
  "copa_increase rtt n t (s\<lparr>cp_largest_sent_at_last_cutback := c\<rparr>) =
     map_sum id (\<lambda>s'. s'\<lparr>cp_largest_sent_at_last_cutback := c\<rparr>) (copa_increase rtt n t s)"
  by (simp add: copa_increase_def Let_def copa_cutback_commute split: sum.split)

lemma copa_decrease_cutback:
  "copa_decrease n t (s\<lparr>cp_largest_sent_at_last_cutback := c\<rparr>) =
     map_sum id (\<lambda>s'. s'\<lparr>cp_largest_sent_at_last_cutback := c\<rparr>) (copa_decrease n t s)"
  by (simp add: copa_decrease_def Let_def copa_cutback_commute split: sum.split)

lemma copa_acked_cutback:
  "copa_OnPacketAcked rtt a t (s\<lparr>cp_largest_sent_at_last_cutback := c\<rparr>) =
     map_sum id (\<lambda>s'. s'\<lparr>cp_largest_sent_at_last_cutback := c\<rparr>) (copa_OnPacketAcked rtt a t s)"
proof (cases "copa_increaseCwnd rtt (copa_observe rtt a t s)")
  case (Inr b)
  then show ?thesis
    by (cases "b \<and> cp_isSlowStart s")
       (simp_all add: copa_OnPacketAcked_def Let_def copa_cutback_commute copa_increase_cutback copa_decrease_cutback)
qed (simp add: copa_OnPacketAcked_def Let_def copa_cutback_commute)

subsection \<open>Properties\<close>



text \<open>C21: outside slow start, and as long as the quantities fit a \<open>double\<close> exactly, an ack event of
  Copa follows the integer rule: up exactly if \<open>cwnd / standing RTT\<close> is at most \<open>2 MSS / delay\<close>, by
  \<open>2 n MSS\<^sup>2 v / cwnd\<close> bytes, and otherwise down by as much but not below four packets.\<close>

theorem copa_follows_rule:
  fixes s rtt acked t
  defines "o' \<equiv> copa_observe rtt acked t s"
  defines "vs \<equiv> cp_velocityState (copa_CheckAndUpdateDirection rtt t o')"
  defines "w \<equiv> uint (cp_cwnd s)"
  defines "up \<equiv> copa_spec_up (rtt_latest rtt - GetBest (cp_minRTTFilter o'))
                  (GetBest (cp_standingRTTFilter o')) w"
  defines "v \<equiv> uint (copa_spec_velocity up (vs_direction vs) (vs_velocity vs))"
  assumes "copa_inv s" "\<not> cp_isSlowStart s" "0 < rtt_latest rtt" "rtt_latest rtt < 2 ^ 53"
    "w * 1000000 < 2 ^ 53" "length acked < 2 ^ 32"
    "2 * int (length acked) * 1460 * 1460 * v < 2 ^ 53"
  shows "\<exists>s'. copa_OnPacketAcked rtt acked t s = Inr s' \<and>
    uint (copa_GetCongestionWindow s') = copa_spec_window up (int (length acked)) v w"
proof -
  define p where "p = copa_CheckAndUpdateDirection rtt t o'"
  have o: "copa_inv o'" "cp_cwnd o' = cp_cwnd s" "\<not> cp_isSlowStart o'"
    using copa_inv_observe assms(6-8) by (simp_all add: o'_def)
  have best: "GetBest (cp_minRTTFilter o') \<le> rtt_latest rtt" "0 < GetBest (cp_minRTTFilter o')"
    "0 < GetBest (cp_standingRTTFilter o')" "GetBest (cp_standingRTTFilter o') \<le> rtt_latest rtt"
    using assms(6,8) by (simp_all add: o'_def copa_inv_def rtt_filter_ok_update)
  have d: "copa_increaseCwnd rtt o' = Inr up"
    unfolding up_def w_def
    by (subst copa_increaseCwnd_exact) (use best o assms(9,10) in \<open>auto simp: copa_inv_def w_def\<close>)
  have n: "uint (of_nat (length acked) :: u64) = int (length acked)"
    using assms(11) by (simp add: unsigned_of_nat take_bit_nat_eq_self)
  have p: "copa_inv p" "cp_cwnd p = cp_cwnd s" "\<not> cp_isSlowStart p" "cp_velocityState p = vs"
    "cp_latencyFactor p = 1/2"
    using o by (simp_all add: p_def vs_def copa_inv_def)
  have w: "0 < uint (cp_cwnd p)" "uint (cp_cwnd p) < 2 ^ 53"
  proof -
    have "5840 \<le> uint (cp_cwnd s)" using assms(6)
      by (simp add: copa_inv_def copa_kDefaultMinimumCongestionWindow_def kDefaultTCPMSS_def word_le_def)
    then show "0 < uint (cp_cwnd p)" "uint (cp_cwnd p) < 2 ^ 53" using assms(10) p by (simp_all add: w_def)
  qed
  have "copa_OnPacketAcked rtt acked t s =
      (if up then copa_increase rtt (of_nat (length acked)) t p else copa_decrease (of_nat (length acked)) t p)"
    using d o by (simp add: copa_OnPacketAcked_def Let_def p_def flip: o'_def)
  then show ?thesis
    using copa_increase_rule [of p "of_nat (length acked)" rtt t] copa_decrease_rule [of p "of_nat (length acked)" t]
      p w n assms(12)
    by (cases up) (auto simp: copa_GetCongestionWindow_def w_def v_def)
qed

text \<open>A sender outside slow start, for the witnesses.\<close>

definition copa_sample :: copa_sender where
  "copa_sample = (fst (CopaSender_new 32 2000 0 None))\<lparr>cp_isSlowStart := False\<rparr>"

lemma copa_sample_inv: "copa_inv copa_sample" "\<not> cp_isSlowStart copa_sample" "uint (cp_cwnd copa_sample) = 46720"
  "vs_lastCwndRecordTime (cp_velocityState copa_sample) = 0" "vs_velocity (cp_velocityState copa_sample) = 1"
  by (simp_all add: copa_sample_def copa_inv_def CopaSender_new_def rtt_filter_ok_def wf_new_def Delta_Zero_def
      GetBest_def mk_sample_def copa_kDefaultMinimumCongestionWindow_def kDefaultTCPMSS_def VelocityState_new_def)

theorem copa_follows_rule_witness:
  "\<exists>s' up v. copa_OnPacketAcked (copa_rtt 20000) [\<lparr>ap_packet_number = 1, ap_bytes_acked = 1460,
       ap_receive_timestamp = 0\<rparr>] 1000000 copa_sample = Inr s' \<and>
    uint (copa_GetCongestionWindow s') = copa_spec_window up 1 v 46720"
  using copa_follows_rule [of copa_sample "copa_rtt 20000" "[\<lparr>ap_packet_number = 1, ap_bytes_acked = 1460,
       ap_receive_timestamp = 0\<rparr>]" 1000000] copa_sample_inv
  by (auto simp: copa_spec_velocity_def copa_CheckAndUpdateDirection_def Time_IsInitialized_def Let_def)



text \<open>Copa does not react to loss: the lost packets of a congestion event influence neither
  the outcome nor the window, only the recovery mark.\<close>

lemma copa_ignores_loss:
  "map_sum id (\<lambda>s'. s'\<lparr>cp_largest_sent_at_last_cutback := 0\<rparr>) (copa_OnCongestionEvent rtt t acked lost s) =
   map_sum id (\<lambda>s'. s'\<lparr>cp_largest_sent_at_last_cutback := 0\<rparr>) (copa_OnCongestionEvent rtt t acked [] s)"
proof -
  obtain c where c: "fold (\<lambda>p. copa_OnPacketLost (lp_packet_number p)) lost s = s\<lparr>cp_largest_sent_at_last_cutback := c\<rparr>"
    using copa_losses_form by blast
  show ?thesis unfolding copa_OnCongestionEvent_def c copa_acked_cutback
    by (simp add: sum.map_comp comp_def id_def)
qed

text \<open>C35: a Copa sender whose velocity has wrapped around to 0 is stuck: its window keeps the same
  value through every later sequence of calls.\<close>

theorem copa_stuck_forever:
  assumes "copa_stuck s" "run_calls copa_step es s = Inr s'"
  shows "copa_stuck s' \<and> copa_GetCongestionWindow s' = copa_GetCongestionWindow s"
  using assms
proof (induction es arbitrary: s)
  case (Cons e es)
  then show ?case using copa_stuck_step [of s e] by (auto simp: copa_GetCongestionWindow_def split: sum.splits)
qed simp

theorem copa_stuck_forever_witness:
  "let s = copa_sample\<lparr>cp_velocityState := \<lparr>vs_velocity = 0, vs_direction = Down, vs_numTimesDirectionSame = 66,
             vs_lastRecordedCwndBytes = cp_cwnd copa_sample, vs_lastCwndRecordTime = 7800000\<rparr>\<rparr>;
       s' = copa_OnPacketSent 1 s
   in copa_stuck s' \<and> copa_GetCongestionWindow s' = copa_GetCongestionWindow s"
  unfolding Let_def
  by (rule copa_stuck_forever [where es = "[CopaSent 1]"])
     (simp_all add: copa_stuck_def copa_sample_inv)

text \<open>C36: this state is reachable by a legal schedule of calls from a new sender: one RTT of
  20 ms and 68 congestion events at an RTT of 100 ms, seven seconds in all.\<close>

theorem copa_stuck_reachable:
  "\<exists>es s'. list_all copa_ok es \<and> run_calls copa_step es (fst (CopaSender_new w m g st)) = Inr s' \<and> copa_stuck s'"
proof -
  let ?es = "[CopaSetInitial 4, CopaCongestion (copa_rtt 20000) 1000000 [] [], copa_queue_event 0, copa_queue_event 1]"
  let ?fs = "map (\<lambda>j. copa_queue_event (j + 2)) [0..<66]"
  obtain s1 where s1: "run_calls copa_step ?es (fst (CopaSender_new w m g st)) = Inr s1" "copa_trickle 0 s1"
    using copa_trickle_start by blast
  obtain s2 where "run_calls copa_step ?fs s1 = Inr s2" "copa_trickle 66 s2"
    using copa_trickle_run [OF s1(2), of 66] by auto
  then have "run_calls copa_step (?es @ ?fs) (fst (CopaSender_new w m g st)) = Inr s2 \<and> copa_stuck s2"
    using s1(1) copa_trickle_stuck by (simp only: run_calls_append sum.case)
  moreover have "list_all copa_ok (?es @ ?fs)"
    by (simp add: copa_queue_event_def copa_kDefaultMinimumCongestionWindow_def list.pred_map list_all_iff)
  ultimately show ?thesis by blast
qed

end
