(* ===== verification/Vegas_Sender.thy ===== *)
theory Vegas_Sender
  imports Send_Algorithm Rtt_Stats Windowed_Filter
begin

text \<open>
  The Vegas congestion controller of \<open>vegas_sender.cc\<close>. As for Copa, the \<open>RttStats\<close> it points to is an
  argument and the overrides with an empty body have no definition.
\<close>

record vegas_sender =
  vg_largest_sent :: packet_number
  vg_largest_acked :: packet_number
  vg_largest_sent_at_last_cutback :: packet_number
  vg_cwnd :: byte_count
  vg_initial_cwnd :: byte_count
  vg_max_cwnd :: byte_count
  vg_min_cwnd :: byte_count
  vg_ssthresh :: byte_count
  vg_pacing_rate :: bandwidth
  vg_baseRTTFilter :: "delta windowed_filter"
  vg_min_rtt :: delta
  vg_rtt_count :: int
  vg_beg_send_next :: packet_number
  vg_num_acked_packets :: u64
  vg_vegas_mode :: bool

subsection \<open>Definitions\<close>

definition vegas_kDefaultMinimumCongestionWindow :: byte_count where
  "vegas_kDefaultMinimumCongestionWindow = 4 * kDefaultTCPMSS"

definition kAlphaCongestionWindow :: byte_count where "kAlphaCongestionWindow = 2 * kDefaultTCPMSS"
definition kBetaCongestionWindow :: byte_count where "kBetaCongestionWindow = 4 * kDefaultTCPMSS"
definition kGammaCongestionWindow :: byte_count where "kGammaCongestionWindow = 1 * kDefaultTCPMSS"

definition vegas_kMinRTTWindowLength :: delta where
  "vegas_kMinRTTWindowLength = FromSeconds 10"

definition VegasSender_new ::
  "packet_count \<Rightarrow> packet_count \<Rightarrow> connection_stats option \<Rightarrow> vegas_sender \<times> connection_stats option" where
  "VegasSender_new initial_window max_window stats =
     (\<lparr>vg_largest_sent = UninitializedPacketNumber, vg_largest_acked = UninitializedPacketNumber,
       vg_largest_sent_at_last_cutback = UninitializedPacketNumber,
       vg_cwnd = initial_window * kDefaultTCPMSS, vg_initial_cwnd = initial_window * kDefaultTCPMSS,
       vg_max_cwnd = max_window * kDefaultTCPMSS, vg_min_cwnd = vegas_kDefaultMinimumCongestionWindow,
       vg_ssthresh = max_window * kDefaultTCPMSS, vg_pacing_rate = mk_bandwidth 0,
       vg_baseRTTFilter = wf_new (of_int vegas_kMinRTTWindowLength) Delta_Zero 0,
       vg_min_rtt = Delta_Infinite, vg_rtt_count = 0, vg_beg_send_next = UninitializedPacketNumber,
       vg_num_acked_packets = 0, vg_vegas_mode = True\<rparr>,
      map_option stats_reset_slowstart stats)"

definition vegas_GetCongestionWindow :: "vegas_sender \<Rightarrow> byte_count" where
  "vegas_GetCongestionWindow s = vg_cwnd s"

definition vegas_GetSlowStartThreshold :: "vegas_sender \<Rightarrow> byte_count" where
  "vegas_GetSlowStartThreshold s = vg_ssthresh s"

definition vegas_InSlowStart :: "vegas_sender \<Rightarrow> bool" where
  "vegas_InSlowStart s \<longleftrightarrow> vegas_GetCongestionWindow s < vegas_GetSlowStartThreshold s"

definition vegas_InRecovery :: "vegas_sender \<Rightarrow> bool" where
  "vegas_InRecovery s \<longleftrightarrow>
     pn_IsInitialized (vg_largest_acked s) \<and> pn_IsInitialized (vg_largest_sent_at_last_cutback s) \<and>
     vg_largest_acked s \<le> vg_largest_sent_at_last_cutback s"

definition vegas_SetInitialCongestionWindowInPackets :: "packet_count \<Rightarrow> vegas_sender \<Rightarrow> vegas_sender" where
  "vegas_SetInitialCongestionWindowInPackets n s =
     (if vegas_InSlowStart s
      then s\<lparr>vg_initial_cwnd := n * kDefaultTCPMSS, vg_cwnd := n * kDefaultTCPMSS\<rparr> else s)"

definition vegas_OnPacketSent :: "packet_number \<Rightarrow> vegas_sender \<Rightarrow> vegas_sender" where
  "vegas_OnPacketSent packet_number s =
     (let s1 = s\<lparr>vg_largest_sent := packet_number\<rparr>
      in if \<not> pn_IsInitialized (vg_beg_send_next s1)
         then s1\<lparr>vg_beg_send_next := vg_largest_sent s1\<rparr> else s1)"

definition vegas_CanSend :: "byte_count \<Rightarrow> vegas_sender \<Rightarrow> bool" where
  "vegas_CanSend bytes_in_flight s \<longleftrightarrow> bytes_in_flight < vegas_GetCongestionWindow s"

definition vegas_PacingRate :: "rtt_stats \<Rightarrow> vegas_sender \<Rightarrow> bandwidth result" where
  "vegas_PacingRate rtt s =
     (case FromBytesAndTimeDelta (vegas_GetCongestionWindow s) (SmoothedOrInitialRtt rtt) of
        Inl e \<Rightarrow> Inl e
      | Inr bw \<Rightarrow> Inr (bandwidth_mult bw (if vegas_InSlowStart s then 2
                                         else if vegas_InRecovery s then 1 else 5/4)))"

definition vegas_BandwidthEstimate :: "rtt_stats \<Rightarrow> vegas_sender \<Rightarrow> bandwidth result" where
  "vegas_BandwidthEstimate rtt s =
     (if Delta_IsZero (rtt_smoothed rtt) then Inr (mk_bandwidth 0)
      else FromBytesAndTimeDelta (vegas_GetCongestionWindow s) (rtt_smoothed rtt))"

definition vegas_GetDebugState :: "vegas_sender \<Rightarrow> string" where
  "vegas_GetDebugState s = ''copa''"

definition vegas_OnPacketLost :: "packet_number \<Rightarrow> vegas_sender \<Rightarrow> vegas_sender" where
  "vegas_OnPacketLost packet_number s =
     (if pn_IsInitialized (vg_largest_sent_at_last_cutback s) \<and>
         packet_number \<le> vg_largest_sent_at_last_cutback s
      then s
      else
        let w = max (vg_cwnd s div 2) (vg_min_cwnd s)
        in s\<lparr>vg_cwnd := w, vg_ssthresh := w, vg_largest_sent_at_last_cutback := vg_largest_sent s,
             vg_num_acked_packets := 0\<rparr>)"

definition IncreaseCongestionWindowAsReno :: "vegas_sender \<Rightarrow> vegas_sender" where
  "IncreaseCongestionWindowAsReno s =
     (if vegas_InSlowStart s then s\<lparr>vg_cwnd := vg_cwnd s + kDefaultTCPMSS\<rparr>
      else
        let s1 = s\<lparr>vg_num_acked_packets := vg_num_acked_packets s + 1\<rparr>
        in if vg_num_acked_packets s1 * kDefaultTCPMSS \<ge> vg_cwnd s1
           then s1\<lparr>vg_cwnd := vg_cwnd s1 + kDefaultTCPMSS, vg_num_acked_packets := 0\<rparr> else s1)"

text \<open>The adjustment at the end of a round with more than two RTT samples.\<close>

definition vegas_adjust :: "vegas_sender \<Rightarrow> vegas_sender result" where
  "vegas_adjust s =
     (let base_rtt = GetBest (vg_baseRTTFilter s); min_rtt = vg_min_rtt s
      in if min_rtt = 0 then Inl DivideByZero
         else
           let t = vg_cwnd s * of_int base_rtt div of_int min_rtt;
               target_cwnd = (t + kDefaultTCPMSS - 1) div kDefaultTCPMSS * kDefaultTCPMSS
           in if \<not> min_rtt \<ge> base_rtt then Inl CheckFailed
              else if base_rtt = 0 then Inl DivideByZero
              else
                let diff = vg_cwnd s * of_int (min_rtt - base_rtt) div of_int base_rtt
                in Inr (if diff > kGammaCongestionWindow \<and> vegas_InSlowStart s
                        then s\<lparr>vg_cwnd := min (vg_cwnd s) target_cwnd,
                               vg_ssthresh := min (vg_cwnd s) target_cwnd\<rparr>
                        else if vegas_InSlowStart s then s\<lparr>vg_cwnd := vg_cwnd s + kDefaultTCPMSS\<rparr>
                        else if diff > kBetaCongestionWindow
                        then (if vg_cwnd s > vg_min_cwnd s
                              then s\<lparr>vg_cwnd := vg_cwnd s - kDefaultTCPMSS,
                                     vg_ssthresh := vg_cwnd s - kDefaultTCPMSS\<rparr>
                              else s)
                        else if diff < kAlphaCongestionWindow then s\<lparr>vg_cwnd := vg_cwnd s + kDefaultTCPMSS\<rparr>
                        else s))"

definition vegas_clamp :: "vegas_sender \<Rightarrow> vegas_sender" where
  "vegas_clamp s = s\<lparr>vg_cwnd := max (vg_cwnd s) (vg_min_cwnd s)\<rparr>"

definition vegas_OnPacketAcked :: "packet_number \<Rightarrow> vegas_sender \<Rightarrow> vegas_sender result" where
  "vegas_OnPacketAcked acked_packet_number s0 =
     (let s = s0\<lparr>vg_largest_acked := pn_UpdateMax acked_packet_number (vg_largest_acked s0)\<rparr>
      in if \<not> vg_vegas_mode s then Inr (IncreaseCongestionWindowAsReno s)
         else if \<not> pn_IsInitialized (vg_beg_send_next s) then Inl CheckFailed
         else if acked_packet_number \<ge> vg_beg_send_next s
         then
           let s1 = s\<lparr>vg_beg_send_next := vg_largest_sent s\<rparr>
           in case (if vg_rtt_count s1 \<le> 2 then Inr (IncreaseCongestionWindowAsReno s1) else vegas_adjust s1) of
                Inl e \<Rightarrow> Inl e
              | Inr s2 \<Rightarrow> Inr (vegas_clamp (s2\<lparr>vg_min_rtt := Delta_Infinite, vg_rtt_count := 0\<rparr>))
         else if vegas_InSlowStart s
         then Inr (vegas_clamp (s\<lparr>vg_cwnd := vg_cwnd s + kDefaultTCPMSS\<rparr>))
         else Inr (vegas_clamp s))"

text \<open>\<open>OnCongestionEvent\<close>: the RTT sample, the losses, the acks, and the switch of the mode.\<close>

definition vegas_sample :: "rtt_stats \<Rightarrow> quic_time \<Rightarrow> vegas_sender \<Rightarrow> vegas_sender" where
  "vegas_sample rtt event_time s =
     (let vrtt = rtt_latest rtt + 1
      in s\<lparr>vg_baseRTTFilter := wf_Update MinFilter vrtt (of_int event_time) (vg_baseRTTFilter s),
           vg_min_rtt := (if vg_min_rtt s > vrtt then vrtt else vg_min_rtt s),
           vg_rtt_count := vg_rtt_count s + 1\<rparr>)"

fun vegas_acks :: "acked_packet list \<Rightarrow> vegas_sender \<Rightarrow> vegas_sender result" where
  "vegas_acks [] s = Inr s"
| "vegas_acks (p # ps) s =
     (case vegas_OnPacketAcked (ap_packet_number p) s of Inl e \<Rightarrow> Inl e | Inr s' \<Rightarrow> vegas_acks ps s')"

definition vegas_switch :: "bool \<Rightarrow> vegas_sender \<Rightarrow> vegas_sender" where
  "vegas_switch before s =
     (if vegas_InRecovery s \<noteq> before
      then (if vegas_InRecovery s then s\<lparr>vg_vegas_mode := False\<rparr>
            else s\<lparr>vg_vegas_mode := True, vg_beg_send_next := vg_largest_sent s,
                   vg_min_rtt := Delta_Infinite, vg_rtt_count := 0\<rparr>)
      else s)"

definition vegas_OnCongestionEvent ::
  "rtt_stats \<Rightarrow> quic_time \<Rightarrow> acked_packet list \<Rightarrow> lost_packet list \<Rightarrow> vegas_sender \<Rightarrow> vegas_sender result" where
  "vegas_OnCongestionEvent rtt event_time acked_packets lost_packets s =
     (let s1 = (if acked_packets \<noteq> [] then vegas_sample rtt event_time s else s);
          before = vegas_InRecovery s1;
          s2 = fold (\<lambda>p. vegas_OnPacketLost (lp_packet_number p)) lost_packets s1
      in case vegas_acks acked_packets s2 of Inl e \<Rightarrow> Inl e | Inr s3 \<Rightarrow> Inr (vegas_switch before s3))"

datatype vegas_call =
    VegasSent packet_number
  | VegasSetInitial packet_count
  | VegasCongestion rtt_stats quic_time "acked_packet list" "lost_packet list"

fun vegas_step :: "vegas_call \<Rightarrow> vegas_sender \<Rightarrow> vegas_sender result" where
  "vegas_step (VegasSent p) s = Inr (vegas_OnPacketSent p s)"
| "vegas_step (VegasSetInitial n) s = Inr (vegas_SetInitialCongestionWindowInPackets n s)"
| "vegas_step (VegasCongestion rtt t acked lost) s = vegas_OnCongestionEvent rtt t acked lost s"

subsection \<open>The invariant\<close>

text \<open>
  \<open>vegas_floor\<close> is the window's lower bound, below the largest value where adding a segment wraps
  around. \<open>vegas_rtts\<close> says that the RTTs are positive and that the base RTT is at most the
  minimum of the round, which \<open>QUICHE_CHECK\<close> in \<open>OnPacketAcked\<close> asserts; it is stated for the
  senders that have sent a packet.
\<close>

definition vegas_floor :: "vegas_sender \<Rightarrow> bool" where
  "vegas_floor s \<longleftrightarrow> vg_min_cwnd s = vegas_kDefaultMinimumCongestionWindow \<and>
     vegas_kDefaultMinimumCongestionWindow \<le> vg_cwnd s"

definition vegas_rtts :: "vegas_sender \<Rightarrow> bool" where
  "vegas_rtts s \<longleftrightarrow> wf_zero_value (vg_baseRTTFilter s) = 0 \<and>
     (GetBest (vg_baseRTTFilter s) = 0 \<or> wf_all (\<lambda>d. 0 < d) (vg_baseRTTFilter s)) \<and>
     0 < vg_min_rtt s \<and> vg_min_rtt s \<le> Delta_Infinite \<and> GetBest (vg_baseRTTFilter s) \<le> vg_min_rtt s \<and>
     (GetBest (vg_baseRTTFilter s) = 0 \<longrightarrow> vg_min_rtt s = Delta_Infinite \<and> vg_rtt_count s \<le> 0)"

definition vegas_started :: "vegas_sender \<Rightarrow> bool" where
  "vegas_started s \<longleftrightarrow> pn_IsInitialized (vg_beg_send_next s) \<and> pn_IsInitialized (vg_largest_sent s)"

text \<open>
  What a caller owes: packet numbers are initialized, acks come after sends, RTTs are not
  negative, the window stays clear of \<open>2\<^sup>6\<^sup>4\<close>, and the base RTT estimate is not older than the ten
  seconds of the filter's window.
\<close>

definition vegas_fresh :: "quic_time \<Rightarrow> delta windowed_filter \<Rightarrow> bool" where
  "vegas_fresh t f \<longleftrightarrow> GetBest f = wf_zero_value f \<or>
     (of_int t - smp_time (wf_est0 f) \<le> wf_window_length f \<and> of_int t - smp_time (wf_est2 f) \<le> wf_window_length f)"

fun vegas_ok :: "vegas_call \<Rightarrow> vegas_sender \<Rightarrow> bool" where
  "vegas_ok (VegasSent p) s \<longleftrightarrow> pn_IsInitialized p"
| "vegas_ok (VegasSetInitial n) s \<longleftrightarrow> vegas_kDefaultMinimumCongestionWindow \<le> n * kDefaultTCPMSS"
| "vegas_ok (VegasCongestion rtt t acked lost) s \<longleftrightarrow>
     uint (vg_cwnd s) + 1460 * int (length acked) < 2 ^ 64 \<and> 0 \<le> rtt_latest rtt \<and>
     rtt_latest rtt < Delta_Infinite \<and> (acked \<noteq> [] \<longrightarrow> vegas_started s \<and> vegas_fresh t (vg_baseRTTFilter s))"

lemma fresh_update:
  assumes "vegas_fresh t f"
  shows "GetBest (wf_Update MinFilter d (of_int t) f) =
    (if GetBest f = wf_zero_value f \<or> d \<le> GetBest f then d else GetBest f)"
  using assms
  by (auto simp: vegas_fresh_def wf_Update_def MinFilter_def GetBest_def wf_Reset_def mk_sample_def
      wf_expire_def wf_replace_def not_less Let_def)

lemma vegas_MSS: "uint kDefaultTCPMSS = 1460" "uint vegas_kDefaultMinimumCongestionWindow = 5840"
  by (simp_all add: kDefaultTCPMSS_def vegas_kDefaultMinimumCongestionWindow_def)

lemma add_MSS:
  assumes "uint (w::u64) + 1460 < 2 ^ 64"
  shows "uint (w + kDefaultTCPMSS) = uint w + 1460"
  using assms by (simp add: uint_add_u64 vegas_MSS)

lemma vegas_sample_rtts:
  assumes "vegas_rtts s" "vegas_fresh t (vg_baseRTTFilter s)" "0 \<le> rtt_latest rtt" "rtt_latest rtt < Delta_Infinite"
  shows "vegas_rtts (vegas_sample rtt t s)"
proof -
  let ?f = "vg_baseRTTFilter s" and ?d = "rtt_latest rtt + 1"
  have "wf_all (\<lambda>d. 0 < d) (wf_Update MinFilter ?d (of_int t) ?f)"
    by (rule min_filter.update_all) (use assms in \<open>auto simp: vegas_rtts_def GetBest_def\<close>)
  moreover have "GetBest (wf_Update MinFilter ?d (of_int t) ?f) = (if GetBest ?f = 0 \<or> ?d \<le> GetBest ?f then ?d else GetBest ?f)"
    using fresh_update [OF assms(2), of ?d] assms(1) by (simp add: vegas_rtts_def)
  ultimately show ?thesis using assms
    by (auto simp: vegas_rtts_def vegas_sample_def Let_def wf_all_def)
qed

lemma vegas_lost_inv:
  assumes "vegas_floor s" "vegas_rtts s"
  shows "vegas_floor (vegas_OnPacketLost p s)" "vegas_rtts (vegas_OnPacketLost p s)"
    "vegas_started (vegas_OnPacketLost p s) = vegas_started s"
    "uint (vg_cwnd (vegas_OnPacketLost p s)) \<le> uint (vg_cwnd s)"
proof -
  have "uint (vg_cwnd s div 2) \<le> uint (vg_cwnd s)" 
    using zdiv_mono2 [of "uint (vg_cwnd s)" 1 2] by (simp add: uint_div)
  then have "uint (max (vg_cwnd s div 2) (vg_min_cwnd s)) \<le> uint (vg_cwnd s)"
    using assms(1) by (auto simp: max_def vegas_floor_def word_le_def)
  then show "vegas_floor (vegas_OnPacketLost p s)" "vegas_rtts (vegas_OnPacketLost p s)"
    "vegas_started (vegas_OnPacketLost p s) = vegas_started s"
    "uint (vg_cwnd (vegas_OnPacketLost p s)) \<le> uint (vg_cwnd s)"
    using assms by (auto simp: vegas_OnPacketLost_def vegas_floor_def vegas_rtts_def vegas_started_def Let_def)
qed

lemma vegas_losses_inv:
  fixes s lost
  assumes "vegas_floor s" "vegas_rtts s"
  defines "s' \<equiv> fold (\<lambda>p. vegas_OnPacketLost (lp_packet_number p)) lost s"
  shows "vegas_floor s' \<and> vegas_rtts s' \<and> vegas_started s' = vegas_started s \<and> uint (vg_cwnd s') \<le> uint (vg_cwnd s)"
  unfolding s'_def using assms(1,2)
proof (induction lost arbitrary: s)
  case (Cons p lost)
  note l = vegas_lost_inv [OF Cons.prems, of "lp_packet_number p"]
  show ?case using Cons.IH [OF l(1,2)] l(3,4) by simp
qed simp

text \<open>What one acked packet may do to the window: it grows by at most a segment.\<close>

lemma vegas_reno_bounds:
  assumes "vegas_floor s" "uint (vg_cwnd s) + 1460 < 2 ^ 64"
  shows "vegas_floor (IncreaseCongestionWindowAsReno s)"
    "uint (vg_cwnd (IncreaseCongestionWindowAsReno s)) \<le> uint (vg_cwnd s) + 1460"
    "vegas_rtts (IncreaseCongestionWindowAsReno s) = vegas_rtts s"
    "vegas_started (IncreaseCongestionWindowAsReno s) = vegas_started s"
  using assms add_MSS [OF assms(2)]
  by (auto simp: IncreaseCongestionWindowAsReno_def Let_def vegas_floor_def vegas_rtts_def vegas_started_def word_le_def)

lemma vegas_adjust_bounds:
  assumes "vegas_floor s" "uint (vg_cwnd s) + 1460 < 2 ^ 64" "vegas_rtts s" "0 < vg_rtt_count s"
  shows "\<exists>s'. vegas_adjust s = Inr s' \<and> uint (vg_cwnd s') \<le> uint (vg_cwnd s) + 1460 \<and>
    vg_min_cwnd s' = vg_min_cwnd s \<and> vg_baseRTTFilter s' = vg_baseRTTFilter s \<and> vegas_started s' = vegas_started s"
proof -
  have r: "vg_min_rtt s \<noteq> 0" "GetBest (vg_baseRTTFilter s) \<le> vg_min_rtt s" "GetBest (vg_baseRTTFilter s) \<noteq> 0"
    using assms(3,4) by (auto simp: vegas_rtts_def)
  have m: "uint (min (vg_cwnd s) x) \<le> uint (vg_cwnd s) + 1460" for x
    by (auto simp: min_def word_le_def)
  have "kDefaultTCPMSS \<le> vg_cwnd s"
    using assms(1) by (auto simp: vegas_floor_def word_le_def vegas_MSS)
  then have "uint (vg_cwnd s - kDefaultTCPMSS) \<le> uint (vg_cwnd s) + 1460" by (simp add: uint_sub_le vegas_MSS)
  then show ?thesis using r m add_MSS [OF assms(2)]
    by (simp add: vegas_adjust_def Let_def vegas_started_def)
qed

text \<open>The end of a round keeps the invariant, whatever became of the window.\<close>

lemma vegas_reset_inv:
  assumes "vg_min_cwnd u = vegas_kDefaultMinimumCongestionWindow" "vegas_rtts s"
    "vg_baseRTTFilter u = vg_baseRTTFilter s" "uint (vg_cwnd u) \<le> B" "5840 \<le> B" "vegas_started u"
  defines "r \<equiv> vegas_clamp (u\<lparr>vg_min_rtt := Delta_Infinite, vg_rtt_count := 0\<rparr>)"
  shows "vegas_floor r \<and> vegas_rtts r \<and> vegas_started r \<and> uint (vg_cwnd r) \<le> B"
proof -
  have "vegas_floor r" "uint (vg_cwnd r) \<le> B"
    using assms(1,4,5) by (auto simp: r_def vegas_clamp_def vegas_floor_def max_def word_le_def vegas_MSS)
  moreover have "vegas_rtts r" using assms(2,3)
    by (simp add: r_def vegas_clamp_def vegas_rtts_def Delta_Infinite_def)
  moreover have "vegas_started r" using assms(6) by (simp add: r_def vegas_clamp_def vegas_started_def)
  ultimately show ?thesis by simp
qed

lemma vegas_reno_filter:
  "vg_baseRTTFilter (IncreaseCongestionWindowAsReno s) = vg_baseRTTFilter s"
  "vg_min_cwnd (IncreaseCongestionWindowAsReno s) = vg_min_cwnd s"
  by (simp_all add: IncreaseCongestionWindowAsReno_def Let_def)

lemma vegas_acked_inv:
  assumes "vegas_floor s" "uint (vg_cwnd s) + 1460 < 2 ^ 64" "vegas_rtts s" "vegas_started s"
  shows "\<exists>s'. vegas_OnPacketAcked p s = Inr s' \<and> vegas_floor s' \<and> vegas_rtts s' \<and> vegas_started s' \<and>
    uint (vg_cwnd s') \<le> uint (vg_cwnd s) + 1460"
proof -
  define s1 where "s1 = s\<lparr>vg_largest_acked := pn_UpdateMax p (vg_largest_acked s)\<rparr>"
  define s2 where "s2 = s1\<lparr>vg_beg_send_next := vg_largest_sent s1\<rparr>"
  have c: "vegas_floor u \<and> uint (vg_cwnd u) + 1460 < 2 ^ 64 \<and> vegas_rtts u \<and> vegas_started u \<and> vg_cwnd u = vg_cwnd s \<and>
     vg_rtt_count u = vg_rtt_count s" if "u = s1 \<or> u = s2" for u
    using that assms by (auto simp: s1_def s2_def vegas_floor_def vegas_rtts_def vegas_started_def)
  have f2: "vg_baseRTTFilter s2 = vg_baseRTTFilter s" "vg_min_cwnd s2 = vg_min_cwnd s"
    by (simp_all add: s1_def s2_def)
  have fl: "vg_min_cwnd s = vegas_kDefaultMinimumCongestionWindow" "5840 \<le> uint (vg_cwnd s)"
    using assms(1) by (auto simp: vegas_floor_def word_le_def vegas_MSS)
  consider "\<not> vg_vegas_mode s" | "vg_vegas_mode s" "p \<ge> vg_beg_send_next s" "vg_rtt_count s \<le> 2"
    | "vg_vegas_mode s" "p \<ge> vg_beg_send_next s" "vg_rtt_count s > 2"
    | "vg_vegas_mode s" "\<not> p \<ge> vg_beg_send_next s" by linarith
  then show ?thesis
  proof cases
    case 1
    then have "vegas_OnPacketAcked p s = Inr (IncreaseCongestionWindowAsReno s1)"
      by (simp add: vegas_OnPacketAcked_def Let_def s1_def)
    then show ?thesis using c [of s1] vegas_reno_bounds [of s1] by auto
  next
    case 2
    have "vegas_OnPacketAcked p s =
        Inr (vegas_clamp ((IncreaseCongestionWindowAsReno s2)\<lparr>vg_min_rtt := Delta_Infinite, vg_rtt_count := 0\<rparr>))"
      using 2 assms(4) by (simp add: vegas_OnPacketAcked_def Let_def s1_def s2_def vegas_started_def)
    moreover have "vegas_started (IncreaseCongestionWindowAsReno s2)"
      "uint (vg_cwnd (IncreaseCongestionWindowAsReno s2)) \<le> uint (vg_cwnd s) + 1460"
      using c [of s2] vegas_reno_bounds [of s2] by auto
    ultimately show ?thesis
      using vegas_reset_inv [OF _ assms(3), of "IncreaseCongestionWindowAsReno s2" "uint (vg_cwnd s) + 1460"] f2 fl
      by (simp add: vegas_reno_filter)
  next
    case 3
    obtain s3 where s3: "vegas_adjust s2 = Inr s3" "uint (vg_cwnd s3) \<le> uint (vg_cwnd s) + 1460"
      "vg_min_cwnd s3 = vg_min_cwnd s2" "vg_baseRTTFilter s3 = vg_baseRTTFilter s2" "vegas_started s3"
      using vegas_adjust_bounds [of s2] c [of s2] 3 by auto
    have "vegas_OnPacketAcked p s =
        Inr (vegas_clamp (s3\<lparr>vg_min_rtt := Delta_Infinite, vg_rtt_count := 0\<rparr>))"
      using 3 assms(4) s3(1) by (simp add: vegas_OnPacketAcked_def Let_def s1_def s2_def vegas_started_def)
    then show ?thesis
      using vegas_reset_inv [OF _ assms(3), of s3 "uint (vg_cwnd s) + 1460"] f2 fl s3 by simp
  next
    case 4
    define r where "r = (if vegas_InSlowStart s1 then s1\<lparr>vg_cwnd := vg_cwnd s1 + kDefaultTCPMSS\<rparr> else s1)"
    have "vegas_OnPacketAcked p s = Inr (vegas_clamp r)"
      using 4 assms(4) by (simp add: vegas_OnPacketAcked_def Let_def s1_def vegas_started_def r_def)
    moreover have "uint (vg_cwnd r) \<le> uint (vg_cwnd s) + 1460" "vg_min_cwnd r = vegas_kDefaultMinimumCongestionWindow"
      "vegas_rtts r" "vegas_started r"
      using c [of s1] fl add_MSS [OF assms(2)]
      by (simp_all add: r_def s1_def vegas_rtts_def vegas_started_def)
    moreover from this have "vegas_floor (vegas_clamp r)" "uint (vg_cwnd (vegas_clamp r)) \<le> uint (vg_cwnd s) + 1460"
      using fl by (auto simp: vegas_clamp_def vegas_floor_def max_def word_le_def vegas_MSS)
    moreover have "vegas_rtts (vegas_clamp r) = vegas_rtts r" "vegas_started (vegas_clamp r) = vegas_started r"
      by (simp_all add: vegas_clamp_def vegas_rtts_def vegas_started_def)
    ultimately show ?thesis by simp
  qed
qed

lemma vegas_acks_inv:
  assumes "vegas_floor s" "uint (vg_cwnd s) + 1460 * int (length acked) < 2 ^ 64" "vegas_rtts s"
    "acked \<noteq> [] \<longrightarrow> vegas_started s"
  shows "\<exists>s'. vegas_acks acked s = Inr s' \<and> vegas_floor s' \<and> vegas_rtts s' \<and>
    uint (vg_cwnd s') \<le> uint (vg_cwnd s) + 1460 * int (length acked)"
  using assms
proof (induction acked arbitrary: s)
  case (Cons p ps)
  then obtain s1 where s1: "vegas_OnPacketAcked (ap_packet_number p) s = Inr s1" "vegas_floor s1" "vegas_rtts s1"
    "vegas_started s1" "uint (vg_cwnd s1) \<le> uint (vg_cwnd s) + 1460"
    using vegas_acked_inv [of s "ap_packet_number p"] by auto
  from Cons.IH [OF s1(2) _ s1(3)] s1(4,5) Cons.prems(2) obtain s2 where
    "vegas_acks ps s1 = Inr s2" "vegas_floor s2" "vegas_rtts s2"
    "uint (vg_cwnd s2) \<le> uint (vg_cwnd s1) + 1460 * int (length ps)" by auto
  then show ?case using s1 by auto
qed simp

lemma vegas_switch_inv:
  "vegas_floor (vegas_switch b s) = vegas_floor s" "vegas_rtts s \<Longrightarrow> vegas_rtts (vegas_switch b s)"
  "vg_cwnd (vegas_switch b s) = vg_cwnd s"
  by (auto simp: vegas_switch_def vegas_floor_def vegas_rtts_def Delta_Infinite_def)

lemma vegas_event_inv:
  assumes "vegas_floor s" "vegas_rtts s" "vegas_ok (VegasCongestion rtt t acked lost) s"
  shows "\<exists>s'. vegas_OnCongestionEvent rtt t acked lost s = Inr s' \<and> vegas_floor s' \<and> vegas_rtts s' \<and>
    uint (vg_cwnd s') \<le> uint (vg_cwnd s) + 1460 * int (length acked)"
proof -
  define s1 where "s1 = (if acked \<noteq> [] then vegas_sample rtt t s else s)"
  define s2 where "s2 = fold (\<lambda>p. vegas_OnPacketLost (lp_packet_number p)) lost s1"
  have s1: "vegas_floor s1" "vegas_rtts s1" "vegas_started s1 = vegas_started s" "vg_cwnd s1 = vg_cwnd s"
    using assms vegas_sample_rtts [of s t rtt]
    by (auto simp: s1_def vegas_floor_def vegas_started_def vegas_sample_def Let_def)
  have s2: "vegas_floor s2" "vegas_rtts s2" "vegas_started s2 = vegas_started s" "uint (vg_cwnd s2) \<le> uint (vg_cwnd s)"
    using vegas_losses_inv [OF s1(1,2), of lost] s1(3,4) by (auto simp: s2_def)
  obtain s3 where s3: "vegas_acks acked s2 = Inr s3" "vegas_floor s3" "vegas_rtts s3"
    "uint (vg_cwnd s3) \<le> uint (vg_cwnd s2) + 1460 * int (length acked)"
    using vegas_acks_inv [OF s2(1) _ s2(2), of acked] s2(3,4) assms(3) by auto
  then have "vegas_OnCongestionEvent rtt t acked lost s = Inr (vegas_switch (vegas_InRecovery s1) s3)"
    by (simp add: vegas_OnCongestionEvent_def Let_def s1_def s2_def)
  then show ?thesis using s3 s2(4) by (simp add: vegas_switch_inv)
qed

lemma vegas_step_inv:
  assumes "vegas_floor s \<and> vegas_rtts s" "vegas_ok e s"
  shows "\<exists>s'. vegas_step e s = Inr s' \<and> vegas_floor s' \<and> vegas_rtts s'"
proof (cases e)
  case (VegasCongestion rtt t acked lost)
  then show ?thesis using vegas_event_inv [of s rtt t acked lost] assms by auto
qed (use assms in \<open>auto simp: vegas_floor_def vegas_rtts_def vegas_OnPacketSent_def
       vegas_SetInitialCongestionWindowInPackets_def Let_def\<close>)

lemma vegas_new_inv:
  "vegas_kDefaultMinimumCongestionWindow \<le> w * kDefaultTCPMSS \<Longrightarrow>
   vegas_floor (fst (VegasSender_new w m st)) \<and> vegas_rtts (fst (VegasSender_new w m st))"
  by (simp add: vegas_floor_def vegas_rtts_def VegasSender_new_def wf_new_def GetBest_def mk_sample_def
      Delta_Zero_def Delta_Infinite_def)

interpretation vegas: window_sender vegas_step vegas_ok "\<lambda>s. vegas_floor s \<and> vegas_rtts s"
  "\<lambda>err. False" vegas_GetCongestionWindow vegas_kDefaultMinimumCongestionWindow
proof unfold_locales
  show "case vegas_step e s of Inl err \<Rightarrow> False | Inr s' \<Rightarrow> vegas_floor s' \<and> vegas_rtts s'"
    if "vegas_floor s \<and> vegas_rtts s" "vegas_ok e s" for s e
    using vegas_step_inv [OF that] by auto
  show "vegas_kDefaultMinimumCongestionWindow \<le> vegas_GetCongestionWindow s" if "vegas_floor s \<and> vegas_rtts s" for s
    using that by (simp add: vegas_floor_def vegas_GetCongestionWindow_def)
qed

text \<open>Losses of packets that were in flight at the last cutback are one loss event.\<close>

lemma vegas_lost_ignored:
  assumes "pn_IsInitialized (vg_largest_sent_at_last_cutback s)"
    "\<forall>p \<in> set lost. lp_packet_number p \<le> vg_largest_sent_at_last_cutback s"
  shows "fold (\<lambda>p. vegas_OnPacketLost (lp_packet_number p)) lost s = s"
  using assms by (induction lost arbitrary: s) (auto simp: vegas_OnPacketLost_def)

lemma vegas_losses_once:
  assumes "pn_IsInitialized (vg_largest_sent s)" "\<forall>p \<in> set lost. lp_packet_number p \<le> vg_largest_sent s"
  shows "fold (\<lambda>p. vegas_OnPacketLost (lp_packet_number p)) lost s =
    (if \<exists>p \<in> set lost. \<not> (pn_IsInitialized (vg_largest_sent_at_last_cutback s) \<and>
          lp_packet_number p \<le> vg_largest_sent_at_last_cutback s)
     then s\<lparr>vg_cwnd := max (vg_cwnd s div 2) (vg_min_cwnd s), vg_ssthresh := max (vg_cwnd s div 2) (vg_min_cwnd s),
            vg_largest_sent_at_last_cutback := vg_largest_sent s, vg_num_acked_packets := 0\<rparr>
     else s)"
  using assms
proof (induction lost arbitrary: s)
  case (Cons p lost)
  show ?case
  proof (cases "pn_IsInitialized (vg_largest_sent_at_last_cutback s) \<and>
      lp_packet_number p \<le> vg_largest_sent_at_last_cutback s")
    case True
    then have "vegas_OnPacketLost (lp_packet_number p) s = s" by (simp add: vegas_OnPacketLost_def)
    then show ?thesis using Cons True by auto
  next
    case False
    let ?w = "max (vg_cwnd s div 2) (vg_min_cwnd s)"
    let ?s = "s\<lparr>vg_cwnd := ?w, vg_ssthresh := ?w, vg_largest_sent_at_last_cutback := vg_largest_sent s,
      vg_num_acked_packets := 0\<rparr>"
    have "vegas_OnPacketLost (lp_packet_number p) s = ?s"
      unfolding vegas_OnPacketLost_def Let_def if_not_P [OF False] ..
    moreover have "fold (\<lambda>p. vegas_OnPacketLost (lp_packet_number p)) lost ?s = ?s"
      by (rule vegas_lost_ignored) (use Cons.prems in auto)
    ultimately show ?thesis using False by auto
  qed
qed simp

subsection \<open>Properties\<close>


definition vegas_rtt :: "delta \<Rightarrow> rtt_stats" where
  "vegas_rtt d = RttStats_new\<lparr>rtt_latest := d\<rparr>"

definition vegas_ack :: "packet_number \<Rightarrow> acked_packet" where
  "vegas_ack p = \<lparr>ap_packet_number = p, ap_bytes_acked = 1460, ap_receive_timestamp = 0\<rparr>"



text \<open>C28: the losses of one congestion event reduce the window at most once: to half, but at least
  four packets, if one of them was sent after the last cutback, and not at all otherwise.\<close>

theorem vegas_halves_once:
  assumes "pn_IsInitialized (vg_largest_sent s)" "\<forall>p \<in> set lost. lp_packet_number p \<le> vg_largest_sent s"
  shows "vegas_GetCongestionWindow (fold (\<lambda>p. vegas_OnPacketLost (lp_packet_number p)) lost s) =
    (if \<exists>p \<in> set lost. \<not> (pn_IsInitialized (vg_largest_sent_at_last_cutback s) \<and>
          lp_packet_number p \<le> vg_largest_sent_at_last_cutback s)
     then max (vg_cwnd s div 2) (vg_min_cwnd s) else vg_cwnd s)"
  by (simp add: vegas_losses_once [OF assms] vegas_GetCongestionWindow_def)

theorem vegas_halves_once_witness:
  "vegas_GetCongestionWindow (fold (\<lambda>p. vegas_OnPacketLost (lp_packet_number p))
       [\<lparr>lp_packet_number = 2, lp_bytes_lost = 1460\<rparr>, \<lparr>lp_packet_number = 3, lp_bytes_lost = 1460\<rparr>]
       (vegas_OnPacketSent 5 (fst (VegasSender_new 32 2000 None)))) = 23360"
  by (subst vegas_halves_once)
     (auto simp: VegasSender_new_def vegas_OnPacketSent_def pn_IsInitialized_def UninitializedPacketNumber_def
       kDefaultTCPMSS_def vegas_kDefaultMinimumCongestionWindow_def)

text \<open>C27: one congestion event increases the window by at most one segment per acked packet.\<close>

theorem vegas_growth_bounded:
  assumes "vegas_floor s" "vegas_rtts s" "vegas_ok (VegasCongestion rtt t acked lost) s"
  shows "\<exists>s'. vegas_OnCongestionEvent rtt t acked lost s = Inr s' \<and>
    uint (vegas_GetCongestionWindow s') \<le> uint (vegas_GetCongestionWindow s) + 1460 * int (length acked)"
  using vegas_event_inv [OF assms] by (auto simp: vegas_GetCongestionWindow_def)

theorem vegas_growth_bounded_witness:
  "\<exists>s'. vegas_OnCongestionEvent (vegas_rtt 10000) 1000000 [vegas_ack 1] []
       (vegas_OnPacketSent 1 (fst (VegasSender_new 32 2000 None))) = Inr s' \<and>
    uint (vegas_GetCongestionWindow s') \<le>
    uint (vegas_GetCongestionWindow (vegas_OnPacketSent 1 (fst (VegasSender_new 32 2000 None)))) + 1460 * int (length [vegas_ack 1])"
  by (rule vegas_growth_bounded)
     (simp_all add: VegasSender_new_def vegas_OnPacketSent_def pn_IsInitialized_def UninitializedPacketNumber_def
       vegas_floor_def vegas_rtts_def wf_new_def GetBest_def mk_sample_def Delta_Zero_def Delta_Infinite_def
       vegas_rtt_def vegas_fresh_def vegas_started_def kDefaultTCPMSS_def vegas_kDefaultMinimumCongestionWindow_def)

end
