(* ===== verification/Hybrid_Slow_Start.thy ===== *)
theory Hybrid_Slow_Start
  imports Packet_Types
begin

text \<open>
  Hybrid slow start (\<open>hybrid_slow_start.cc\<close>): leave slow start when the least RTT of the first
  eight samples of a round exceeds the session's minimum by a threshold.
\<close>

datatype hystart_state = NOT_FOUND | DELAY

record hybrid_slow_start =
  hss_started :: bool
  hss_hystart_found :: hystart_state
  hss_last_sent :: packet_number
  hss_end_packet_number :: packet_number
  hss_rtt_sample_count :: u32
  hss_current_min_rtt :: delta

subsection \<open>Definitions\<close>

definition kHybridStartLowWindow :: u64 where "kHybridStartLowWindow = 16"
definition kHybridStartMinSamples :: u32 where "kHybridStartMinSamples = 8"
definition kHybridStartDelayFactorExp :: nat where "kHybridStartDelayFactorExp = 3"
definition kHybridStartDelayMinThresholdUs :: int where "kHybridStartDelayMinThresholdUs = 4000"
definition kHybridStartDelayMaxThresholdUs :: int where "kHybridStartDelayMaxThresholdUs = 16000"

definition HybridSlowStart_new :: hybrid_slow_start where
  "HybridSlowStart_new =
     \<lparr>hss_started = False, hss_hystart_found = NOT_FOUND, hss_last_sent = UninitializedPacketNumber,
      hss_end_packet_number = UninitializedPacketNumber, hss_rtt_sample_count = 0,
      hss_current_min_rtt = Delta_Zero\<rparr>"

definition hss_IsEndOfRound :: "packet_number \<Rightarrow> hybrid_slow_start \<Rightarrow> bool" where
  "hss_IsEndOfRound ack s \<longleftrightarrow>
     \<not> pn_IsInitialized (hss_end_packet_number s) \<or> hss_end_packet_number s \<le> ack"

definition hss_OnPacketAcked :: "packet_number \<Rightarrow> hybrid_slow_start \<Rightarrow> hybrid_slow_start" where
  "hss_OnPacketAcked acked_packet_number s =
     (if hss_IsEndOfRound acked_packet_number s then s\<lparr>hss_started := False\<rparr> else s)"

definition hss_OnPacketSent :: "packet_number \<Rightarrow> hybrid_slow_start \<Rightarrow> hybrid_slow_start" where
  "hss_OnPacketSent packet_number s = s\<lparr>hss_last_sent := packet_number\<rparr>"

definition hss_Restart :: "hybrid_slow_start \<Rightarrow> hybrid_slow_start" where
  "hss_Restart s = s\<lparr>hss_started := False, hss_hystart_found := NOT_FOUND\<rparr>"

definition StartReceiveRound :: "packet_number \<Rightarrow> hybrid_slow_start \<Rightarrow> hybrid_slow_start" where
  "StartReceiveRound last_sent s =
     s\<lparr>hss_end_packet_number := last_sent, hss_current_min_rtt := Delta_Zero,
       hss_rtt_sample_count := 0, hss_started := True\<rparr>"

text \<open>The two updates of \<open>ShouldExitSlowStart\<close>: the round's minimum and the detection.\<close>

definition hss_take_sample :: "delta \<Rightarrow> hybrid_slow_start \<Rightarrow> hybrid_slow_start" where
  "hss_take_sample latest_rtt s =
     (let s1 = s\<lparr>hss_rtt_sample_count := hss_rtt_sample_count s + 1\<rparr>
      in if hss_rtt_sample_count s1 \<le> kHybridStartMinSamples \<and>
            (Delta_IsZero (hss_current_min_rtt s1) \<or> hss_current_min_rtt s1 > latest_rtt)
         then s1\<lparr>hss_current_min_rtt := latest_rtt\<rparr> else s1)"

definition hss_detect :: "delta \<Rightarrow> hybrid_slow_start \<Rightarrow> hybrid_slow_start" where
  "hss_detect min_rtt s =
     (if hss_rtt_sample_count s = kHybridStartMinSamples
      then
        let us = min_rtt div 2 ^ kHybridStartDelayFactorExp;
            us' = min us kHybridStartDelayMaxThresholdUs;
            min_rtt_increase_threshold = max us' kHybridStartDelayMinThresholdUs
        in if hss_current_min_rtt s > min_rtt + min_rtt_increase_threshold
           then s\<lparr>hss_hystart_found := DELAY\<rparr> else s
      else s)"

definition ShouldExitSlowStart ::
  "delta \<Rightarrow> delta \<Rightarrow> packet_count \<Rightarrow> hybrid_slow_start \<Rightarrow> bool \<times> hybrid_slow_start" where
  "ShouldExitSlowStart latest_rtt min_rtt congestion_window s =
     (let s1 = (if \<not> hss_started s then StartReceiveRound (hss_last_sent s) s else s)
      in if hss_hystart_found s1 \<noteq> NOT_FOUND then (True, s1)
         else
           let s2 = hss_detect min_rtt (hss_take_sample latest_rtt s1)
           in (congestion_window \<ge> kHybridStartLowWindow \<and> hss_hystart_found s2 \<noteq> NOT_FOUND, s2))"

text \<open>The samples of a round, fed one by one.\<close>

definition hss_feed :: "delta \<Rightarrow> packet_count \<Rightarrow> delta list \<Rightarrow> hybrid_slow_start \<Rightarrow> hybrid_slow_start" where
  "hss_feed min_rtt w rs s = fold (\<lambda>r s. snd (ShouldExitSlowStart r min_rtt w s)) rs s"

subsection \<open>Lemmas\<close>

text \<open>While fewer than eight samples have been taken, only the count and the minimum change.\<close>

definition hss_round :: "delta list \<Rightarrow> hybrid_slow_start \<Rightarrow> bool" where
  "hss_round rs s \<longleftrightarrow> hss_started s \<and> hss_hystart_found s = NOT_FOUND \<and>
     hss_rtt_sample_count s = of_nat (length rs) \<and>
     hss_current_min_rtt s = (if rs = [] then 0 else Min (set rs))"

lemma small_count: "n < 8 \<Longrightarrow> of_nat n + 1 \<le> (8 :: u32) \<and> (of_nat n + 1 = (8 :: u32)) = (n = 7)"
proof -
  assume "n < 8"
  then have "n \<in> {0, 1, 2, 3, 4, 5, 6, 7}" by auto
  then show ?thesis by (elim insertE) simp_all
qed

lemma hss_take_sample_round:
  assumes "hss_round rs s" "length rs < 8" "\<forall>r \<in> set rs. 0 < r" "0 < r"
  shows "hss_round (rs @ [r]) (hss_take_sample r s)"
proof -
  define M where "M = (if rs = [] then 0 else Min (set rs))"
  have M: "0 < M" if "rs \<noteq> []" using assms(3) that by (simp add: M_def)
  have e: "Min (set (rs @ [r])) = (if M = 0 \<or> M > r then r else M)"
  proof (cases "rs = []")
    case False
    then have "Min (set (rs @ [r])) = min r M" by (simp add: M_def)
    then show ?thesis using M [OF False] by (simp only: min_def) auto
  qed (simp add: M_def)
  have c: "of_nat (length rs) + 1 \<le> (8 :: u32)" using small_count [OF assms(2)] by simp
  have s: "hss_started s" "hss_hystart_found s = NOT_FOUND" "hss_rtt_sample_count s = of_nat (length rs)"
    "hss_current_min_rtt s = M"
    using assms(1) by (simp_all add: hss_round_def M_def)
  have "hss_take_sample r s = s\<lparr>hss_rtt_sample_count := of_nat (length rs) + 1,
      hss_current_min_rtt := Min (set (rs @ [r]))\<rparr>"
    unfolding e using s c
    by (simp add: hss_take_sample_def Let_def kHybridStartMinSamples_def Delta_IsZero_def)
  then show ?thesis using s unfolding hss_round_def by (simp del: set_append add: add.commute)
qed

lemma ShouldExit_started:
  "hss_round rs s \<Longrightarrow> snd (ShouldExitSlowStart r m w s) = hss_detect m (hss_take_sample r s)"
  by (simp add: ShouldExitSlowStart_def hss_round_def Let_def)

lemma hss_detect_early:
  assumes "hss_round rs s" "length rs < 8"
  shows "hss_detect m s = s"
proof -
  have "unat (of_nat (length rs) :: u32) = length rs"
    using assms(2) by (simp add: unsigned_of_nat take_bit_nat_eq_self)
  then have "(of_nat (length rs) :: u32) \<noteq> 8" using assms(2) by auto
  then show ?thesis using assms(1) by (simp add: hss_detect_def hss_round_def kHybridStartMinSamples_def)
qed

lemma hss_feed_short:
  "hss_round [] s \<Longrightarrow> \<forall>r \<in> set rs. 0 < r \<Longrightarrow> length rs < 8 \<Longrightarrow> hss_round rs (hss_feed m w rs s)"
proof (induction rs rule: rev_induct)
  case (snoc r rs)
  then have i: "hss_round rs (hss_feed m w rs s)" by simp
  have "hss_round (rs @ [r]) (hss_take_sample r (hss_feed m w rs s))"
    using hss_take_sample_round [OF i] snoc.prems by simp
  then show ?case
    using hss_detect_early snoc.prems ShouldExit_started [OF i, of r m w] by (simp add: hss_feed_def)
qed (simp add: hss_feed_def)

lemma hss_start_round:
  "\<not> hss_started s \<Longrightarrow> hss_hystart_found s = NOT_FOUND \<Longrightarrow>
   ShouldExitSlowStart r m w s = ShouldExitSlowStart r m w (StartReceiveRound (hss_last_sent s) s) \<and>
   hss_round [] (StartReceiveRound (hss_last_sent s) s)"
  by (simp add: ShouldExitSlowStart_def StartReceiveRound_def hss_round_def Let_def Delta_Zero_def)

subsection \<open>Properties\<close>



text \<open>Once a delay increase is found, every later call asks to leave slow start, also with a
  window of fewer than the 16 packets that the comment at the end of the function requires.\<close>

lemma hystart_exit_ignores_window:
  assumes "hss_hystart_found s = DELAY"
  shows "fst (ShouldExitSlowStart r m w s)"
  using assms by (simp add: ShouldExitSlowStart_def StartReceiveRound_def Let_def)

end
