(* ===== verification/Prr_Sender.thy ===== *)
theory Prr_Sender
  imports Packet_Types
begin

text \<open>
  Proportional rate reduction (\<open>prr_sender.cc\<close>), which paces the Cubic sender in recovery.
\<close>

record prr_sender =
  prr_bytes_sent_since_loss :: byte_count
  prr_bytes_delivered_since_loss :: byte_count
  prr_ack_count_since_loss :: u64
  prr_bytes_in_flight_before_loss :: byte_count

subsection \<open>Definitions\<close>

definition PrrSender_new :: prr_sender where
  "PrrSender_new =
     \<lparr>prr_bytes_sent_since_loss = 0, prr_bytes_delivered_since_loss = 0,
      prr_ack_count_since_loss = 0, prr_bytes_in_flight_before_loss = 0\<rparr>"

definition prr_OnPacketSent :: "byte_count \<Rightarrow> prr_sender \<Rightarrow> prr_sender" where
  "prr_OnPacketSent sent_bytes s =
     s\<lparr>prr_bytes_sent_since_loss := prr_bytes_sent_since_loss s + sent_bytes\<rparr>"

definition prr_OnPacketLost :: "byte_count \<Rightarrow> prr_sender \<Rightarrow> prr_sender" where
  "prr_OnPacketLost prior_in_flight s =
     s\<lparr>prr_bytes_sent_since_loss := 0, prr_bytes_in_flight_before_loss := prior_in_flight,
       prr_bytes_delivered_since_loss := 0, prr_ack_count_since_loss := 0\<rparr>"

definition prr_OnPacketAcked :: "byte_count \<Rightarrow> prr_sender \<Rightarrow> prr_sender" where
  "prr_OnPacketAcked acked_bytes s =
     s\<lparr>prr_bytes_delivered_since_loss := prr_bytes_delivered_since_loss s + acked_bytes,
       prr_ack_count_since_loss := prr_ack_count_since_loss s + 1\<rparr>"

definition prr_CanSend :: "byte_count \<Rightarrow> byte_count \<Rightarrow> byte_count \<Rightarrow> prr_sender \<Rightarrow> bool" where
  "prr_CanSend congestion_window bytes_in_flight slowstart_threshold s =
     (if prr_bytes_sent_since_loss s = 0 \<or> bytes_in_flight < kMaxSegmentSize then True
      else if congestion_window > bytes_in_flight
      then
        (if prr_bytes_delivered_since_loss s + prr_ack_count_since_loss s * kMaxSegmentSize
              \<le> prr_bytes_sent_since_loss s then False else True)
      else if prr_bytes_delivered_since_loss s * slowstart_threshold >
              prr_bytes_sent_since_loss s * prr_bytes_in_flight_before_loss s
      then True else False)"

text \<open>
  What happens in a recovery period: acks arrive and packets go out. A packet goes out only if
  \<open>CanSend\<close> allows it at that moment; \<open>flight\<close> is the number of bytes then in flight.
\<close>

datatype prr_call = PrrAck byte_count | PrrSend byte_count byte_count

fun prr_step :: "byte_count \<Rightarrow> byte_count \<Rightarrow> prr_call \<Rightarrow> prr_sender \<Rightarrow> prr_sender" where
  "prr_step w ssthresh (PrrAck b) s = prr_OnPacketAcked b s"
| "prr_step w ssthresh (PrrSend flight b) s =
     (if prr_CanSend w flight ssthresh s then prr_OnPacketSent b s else s)"

definition prr_run :: "byte_count \<Rightarrow> byte_count \<Rightarrow> prr_call list \<Rightarrow> prr_sender \<Rightarrow> prr_sender" where
  "prr_run w ssthresh es s = fold (prr_step w ssthresh) es s"

subsection \<open>Lemmas\<close>

text \<open>Packets of at most \<open>m\<close> bytes; in flight there is at least a segment and at least the window.\<close>

fun prr_call_ok :: "byte_count \<Rightarrow> nat \<Rightarrow> prr_call \<Rightarrow> bool" where
  "prr_call_ok w m (PrrAck b) \<longleftrightarrow> unat b \<le> m"
| "prr_call_ok w m (PrrSend flight b) \<longleftrightarrow> unat b \<le> m \<and> kMaxSegmentSize \<le> flight \<and> w \<le> flight"

text \<open>The bound, with room for \<open>n\<close> more calls before a counter could wrap around.\<close>

definition prr_room :: "nat \<Rightarrow> nat \<Rightarrow> nat \<Rightarrow> nat \<Rightarrow> nat \<Rightarrow> nat \<Rightarrow> bool" where
  "prr_room S m n F sent got \<longleftrightarrow> sent * F \<le> got * S + m * F \<and>
     (sent + n * m) * F < 2 ^ 64 \<and> (got + n * m) * S < 2 ^ 64 \<and> sent + n * m < 2 ^ 64 \<and> got + n * m < 2 ^ 64"

definition prr_inv :: "byte_count \<Rightarrow> nat \<Rightarrow> nat \<Rightarrow> prr_sender \<Rightarrow> bool" where
  "prr_inv ssthresh m n s \<longleftrightarrow>
     prr_room (unat ssthresh) m n (unat (prr_bytes_in_flight_before_loss s))
       (unat (prr_bytes_sent_since_loss s)) (unat (prr_bytes_delivered_since_loss s))"

lemma prr_room_mono: "prr_room S m (Suc n) F sent got \<Longrightarrow> prr_room S m n F sent got"
  unfolding prr_room_def by (auto simp: add_mult_distrib)

lemma prr_room_ack:
  assumes "prr_room S m (Suc n) F sent got" "b \<le> m"
  shows "prr_room S m n F sent (got + b)"
proof -
  have "(got + b + n * m) * S \<le> (got + Suc n * m) * S" by (rule mult_right_mono) (use assms(2) in auto)
  moreover have "(sent + n * m) * F \<le> (sent + Suc n * m) * F" by (rule mult_right_mono) auto
  moreover have "got * S \<le> (got + b) * S" by simp
  ultimately show ?thesis using assms unfolding prr_room_def
    by (elim conjE) (intro conjI; (linarith | simp))
qed

lemma prr_room_send:
  assumes "prr_room S m (Suc n) F sent got" "b \<le> m" "sent * F \<le> got * S"
  shows "prr_room S m n F (sent + b) got"
proof -
  have "b * F \<le> m * F" using assms(2) by simp
  moreover have "(sent + b + n * m) * F \<le> (sent + Suc n * m) * F"
    by (rule mult_right_mono) (use assms(2) in auto)
  moreover have "(got + n * m) * S \<le> (got + Suc n * m) * S" by (rule mult_right_mono) auto
  moreover have "(sent + b) * F = sent * F + b * F" by (rule add_mult_distrib)
  ultimately show ?thesis using assms unfolding prr_room_def
    by (elim conjE) (intro conjI; (linarith | simp))
qed

lemma prr_ack_inv:
  assumes "prr_inv ssthresh m (Suc n) s" "unat b \<le> m"
  shows "prr_inv ssthresh m n (prr_OnPacketAcked b s)"
proof -
  have "unat (prr_bytes_delivered_since_loss s + b) = unat (prr_bytes_delivered_since_loss s) + unat b"
    using assms by (intro unat_add_u64) (simp add: prr_inv_def prr_room_def)
  then show ?thesis using prr_room_ack assms by (simp add: prr_inv_def prr_OnPacketAcked_def)
qed

lemma prr_CanSend_bound:
  assumes "prr_CanSend w flight ssthresh s" "kMaxSegmentSize \<le> flight" "w \<le> flight" "prr_inv ssthresh m n s"
  shows "unat (prr_bytes_sent_since_loss s) * unat (prr_bytes_in_flight_before_loss s) \<le>
    unat (prr_bytes_delivered_since_loss s) * unat ssthresh"
proof (cases "prr_bytes_sent_since_loss s = 0")
  case False
  let ?got = "unat (prr_bytes_delivered_since_loss s)" and ?F = "unat (prr_bytes_in_flight_before_loss s)"
  let ?sent = "unat (prr_bytes_sent_since_loss s)" and ?S = "unat ssthresh"
  have "?sent * ?F \<le> (?sent + n * m) * ?F" "?got * ?S \<le> (?got + n * m) * ?S" by (rule mult_right_mono; simp)+
  then have "?sent * ?F < 2 ^ 64" "?got * ?S < 2 ^ 64"
    using assms(4) unfolding prr_inv_def prr_room_def by linarith+
  then show ?thesis using assms(1-3) False
    by (auto simp: prr_CanSend_def word_less_nat_alt word_le_nat_alt unat_mult_u64 split: if_splits)
qed simp

lemma prr_send_inv:
  assumes "prr_inv ssthresh m (Suc n) s" "unat b \<le> m" "kMaxSegmentSize \<le> flight" "w \<le> flight"
    "prr_CanSend w flight ssthresh s"
  shows "prr_inv ssthresh m n (prr_OnPacketSent b s)"
proof -
  have "unat (prr_bytes_sent_since_loss s + b) = unat (prr_bytes_sent_since_loss s) + unat b"
    using assms by (intro unat_add_u64) (simp add: prr_inv_def prr_room_def)
  then show ?thesis using prr_room_send [OF _ assms(2)] prr_CanSend_bound [OF assms(5,3,4,1)] assms(1)
    by (simp add: prr_inv_def prr_OnPacketSent_def)
qed

lemma prr_inv_Suc: "prr_inv ssthresh m (Suc n) s \<Longrightarrow> prr_inv ssthresh m n s"
  unfolding prr_inv_def by (rule prr_room_mono)

lemma prr_run_inv:
  assumes "prr_inv ssthresh m (length es) s" "list_all (prr_call_ok w m) es"
  shows "prr_inv ssthresh m 0 (prr_run w ssthresh es s)"
  using assms
proof (induction es arbitrary: s)
  case (Cons e es)
  have "prr_inv ssthresh m (length es) (prr_step w ssthresh e s)"
    using Cons.prems by (cases e) (auto intro: prr_ack_inv prr_send_inv prr_inv_Suc)
  then show ?case using Cons.IH Cons.prems by (simp add: prr_run_def)
qed (simp add: prr_run_def)

subsection \<open>Property\<close>



end
