(* ===== verification/Cubic_Bytes.thy ===== *)
theory Cubic_Bytes
  imports Packet_Types
begin

text \<open>
  The window computation of TCP Cubic (\<open>cubic_bytes.cc\<close>). Single precision arithmetic is rounded
  after every operation, as the code is compiled for SSE. The cube root of the C library is not
  specified to be correctly rounded, so it is an argument \<open>cbrt\<close> of the one function that calls it;
  nothing below depends on it. Conversions of a \<open>float\<close> to an integer type it does not fit are
  undefined in C++; here they truncate.
\<close>

record cubic_bytes =
  cb_num_connections :: int
  cb_epoch :: quic_time
  cb_last_max_congestion_window :: byte_count
  cb_acked_bytes_count :: byte_count
  cb_estimated_tcp_congestion_window :: byte_count
  cb_origin_point_congestion_window :: byte_count
  cb_time_to_origin_point :: u32
  cb_last_target_congestion_window :: byte_count

subsection \<open>Definitions\<close>

definition kCubeScale :: nat where "kCubeScale = 40"
definition kCubeCongestionWindowScale :: u64 where "kCubeCongestionWindowScale = 410"
definition kCubeFactor :: u64 where
  "kCubeFactor = push_bit kCubeScale 1 div kCubeCongestionWindowScale div kDefaultTCPMSS"

definition kDefaultCubicBackoffFactor :: rat where "kDefaultCubicBackoffFactor = f32 (7/10)"
definition kBetaLastMax :: rat where "kBetaLastMax = f32 (85/100)"

definition cubic_Beta :: "cubic_bytes \<Rightarrow> rat" where
  "cubic_Beta c = f32 (f32 (f32 (of_int (cb_num_connections c - 1)) + kDefaultCubicBackoffFactor) /
                       f32 (of_int (cb_num_connections c)))"

definition cubic_BetaLastMax :: "cubic_bytes \<Rightarrow> rat" where
  "cubic_BetaLastMax c = f32 (f32 (f32 (of_int (cb_num_connections c - 1)) + kBetaLastMax) /
                              f32 (of_int (cb_num_connections c)))"

definition cubic_Alpha :: "cubic_bytes \<Rightarrow> rat" where
  "cubic_Alpha c =
     (let beta = cubic_Beta c
      in f32 (f32 (f32 (of_int (3 * cb_num_connections c * cb_num_connections c)) * f32 (1 - beta)) /
              f32 (1 + beta)))"

definition ResetCubicState :: "cubic_bytes \<Rightarrow> cubic_bytes" where
  "ResetCubicState c =
     c\<lparr>cb_epoch := 0, cb_last_max_congestion_window := 0, cb_acked_bytes_count := 0,
       cb_estimated_tcp_congestion_window := 0, cb_origin_point_congestion_window := 0,
       cb_time_to_origin_point := 0, cb_last_target_congestion_window := 0\<rparr>"

definition CubicBytes_new :: cubic_bytes where
  "CubicBytes_new =
     ResetCubicState
       \<lparr>cb_num_connections = kDefaultNumConnections, cb_epoch = 0, cb_last_max_congestion_window = 0,
        cb_acked_bytes_count = 0, cb_estimated_tcp_congestion_window = 0,
        cb_origin_point_congestion_window = 0, cb_time_to_origin_point = 0,
        cb_last_target_congestion_window = 0\<rparr>"

definition SetNumConnections :: "int \<Rightarrow> cubic_bytes \<Rightarrow> cubic_bytes" where
  "SetNumConnections n c = c\<lparr>cb_num_connections := n\<rparr>"

definition cubic_OnApplicationLimited :: "cubic_bytes \<Rightarrow> cubic_bytes" where
  "cubic_OnApplicationLimited c = c\<lparr>cb_epoch := 0\<rparr>"

definition CongestionWindowAfterPacketLoss :: "byte_count \<Rightarrow> cubic_bytes \<Rightarrow> byte_count \<times> cubic_bytes" where
  "CongestionWindowAfterPacketLoss current c =
     (let c1 = (if current + kDefaultTCPMSS < cb_last_max_congestion_window c
                then c\<lparr>cb_last_max_congestion_window :=
                         of_int (ctrunc (f32 (cubic_BetaLastMax c * f32 (of_int (uint current)))))\<rparr>
                else c\<lparr>cb_last_max_congestion_window := current\<rparr>)
      in (of_int (ctrunc (f32 (f32 (of_int (uint current)) * cubic_Beta c1))), c1\<lparr>cb_epoch := 0\<rparr>))"

text \<open>\<open>CongestionWindowAfterAck\<close>: the start of an epoch, the point of the cubic curve, the Reno
  estimate, and the result.\<close>

definition cubic_start_epoch ::
  "(rat \<Rightarrow> rat) \<Rightarrow> byte_count \<Rightarrow> byte_count \<Rightarrow> quic_time \<Rightarrow> cubic_bytes \<Rightarrow> cubic_bytes" where
  "cubic_start_epoch cbrt acked_bytes current event_time c =
     (let c1 = c\<lparr>cb_epoch := event_time, cb_acked_bytes_count := acked_bytes,
                 cb_estimated_tcp_congestion_window := current\<rparr>
      in if cb_last_max_congestion_window c1 \<le> current
         then c1\<lparr>cb_time_to_origin_point := 0, cb_origin_point_congestion_window := current\<rparr>
         else c1\<lparr>cb_time_to_origin_point :=
                   of_int (ctrunc (cbrt (f64 (of_int (uint
                     (kCubeFactor * (cb_last_max_congestion_window c1 - current))))))),
                 cb_origin_point_congestion_window := cb_last_max_congestion_window c1\<rparr>)"

definition cubic_elapsed :: "delta \<Rightarrow> quic_time \<Rightarrow> cubic_bytes \<Rightarrow> int" where
  "cubic_elapsed delay_min event_time c =
     sint ((of_int ((event_time + delay_min - cb_epoch c) * 2 ^ 10) :: u64) div kNumMicrosPerSecond)"

definition cubic_delta :: "int \<Rightarrow> cubic_bytes \<Rightarrow> byte_count" where
  "cubic_delta elapsed_time c =
     (let offset = (of_int \<bar>uint (cb_time_to_origin_point c) - elapsed_time\<bar> :: u64)
      in drop_bit kCubeScale (kCubeCongestionWindowScale * offset * offset * offset * kDefaultTCPMSS))"

definition cubic_target :: "byte_count \<Rightarrow> int \<Rightarrow> cubic_bytes \<Rightarrow> byte_count" where
  "cubic_target current elapsed_time c =
     (let delta_congestion_window = cubic_delta elapsed_time c;
          add_delta = elapsed_time > uint (cb_time_to_origin_point c);
          target = (if add_delta then cb_origin_point_congestion_window c + delta_congestion_window
                    else cb_origin_point_congestion_window c - delta_congestion_window)
      in min target (current + cb_acked_bytes_count c div 2))"

definition cubic_reno_estimate :: "cubic_bytes \<Rightarrow> byte_count" where
  "cubic_reno_estimate c =
     (let est = f32 (of_int (uint (cb_estimated_tcp_congestion_window c)))
      in of_int (ctrunc (f32 (est +
           f32 (f32 (f32 (of_int (uint (cb_acked_bytes_count c))) *
                     f32 (cubic_Alpha c * f32 (of_int (uint kDefaultTCPMSS)))) / est)))))"

definition CongestionWindowAfterAck ::
  "(rat \<Rightarrow> rat) \<Rightarrow> byte_count \<Rightarrow> byte_count \<Rightarrow> delta \<Rightarrow> quic_time \<Rightarrow> cubic_bytes \<Rightarrow> byte_count \<times> cubic_bytes" where
  "CongestionWindowAfterAck cbrt acked_bytes current delay_min event_time c =
     (let c1 = c\<lparr>cb_acked_bytes_count := cb_acked_bytes_count c + acked_bytes\<rparr>;
          c2 = (if \<not> Time_IsInitialized (cb_epoch c1)
                then cubic_start_epoch cbrt acked_bytes current event_time c1 else c1);
          target = cubic_target current (cubic_elapsed delay_min event_time c2) c2;
          est = cubic_reno_estimate c2;
          c3 = c2\<lparr>cb_estimated_tcp_congestion_window := est, cb_acked_bytes_count := 0,
                  cb_last_target_congestion_window := target\<rparr>
      in (if target < est then est else target, c3))"

subsection \<open>The factors\<close>

definition cubic_conns :: "cubic_bytes \<Rightarrow> bool" where
  "cubic_conns c \<longleftrightarrow> cb_num_connections c = 1 \<or> cb_num_connections c = 2"

lemma f32_le: "0 \<le> x \<Longrightarrow> f32 x \<le> x * (1 + 1 / 16777216)"
  using fl_upper [of x 24] by simp

lemma f32_ge: "0 \<le> x \<Longrightarrow> x * (1 - 1 / 16777216) \<le> f32 x"
  using fl_lower [of x 24] by simp

lemma f32_int: "\<bar>k\<bar> < 16777216 \<Longrightarrow> f32 (of_int k) = of_int k"
  by (rule fl_of_int) simp

lemma f32_double: "0 \<le> x \<Longrightarrow> f32 x \<le> 2 * x"
  using f32_le [of x] by simp

lemma f32_at_least: "of_int k \<le> x \<Longrightarrow> 0 \<le> k \<Longrightarrow> k < 16777216 \<Longrightarrow> of_int k \<le> f32 x"
  using fl_mono [of "of_int k" x 24] f32_int [of k] by simp

lemma f32_at_most: "x \<le> of_int k \<Longrightarrow> 0 \<le> x \<Longrightarrow> k < 16777216 \<Longrightarrow> f32 x \<le> of_int k"
proof -
  assume a: "x \<le> of_int k" "0 \<le> x" "k < 16777216"
  then have "0 \<le> k" by (metis of_int_0_le_iff order_trans)
  then show ?thesis using fl_mono [of x "of_int k" 24] f32_int [of k] a by simp
qed

lemma backoff_bounds: "69/100 \<le> kDefaultCubicBackoffFactor" "kDefaultCubicBackoffFactor \<le> 71/100"
  using f32_le [of "7/10"] f32_ge [of "7/10"] by (simp_all add: kDefaultCubicBackoffFactor_def)

lemma cubic_Beta_bounds:
  assumes "cubic_conns c"
  shows "68/100 \<le> cubic_Beta c" "cubic_Beta c \<le> 86/100"
    "cb_num_connections c = 2 \<Longrightarrow> 84/100 \<le> cubic_Beta c"
proof -
  let ?k = kDefaultCubicBackoffFactor
  have "f32 (of_int 0) = of_int 0" "f32 (of_int 1) = of_int 1" "f32 (of_int 2) = of_int 2" by (rule f32_int; simp)+
  then have i: "f32 0 = 0" "f32 1 = 1" "f32 2 = 2" by simp_all
  have b: "cubic_Beta c = f32 (f32 ?k)" if "cb_num_connections c = 1" using that i by (simp add: cubic_Beta_def)
  have b2: "cubic_Beta c = f32 (f32 (1 + ?k) / 2)" if "cb_num_connections c = 2" using that i by (simp add: cubic_Beta_def)
  note k = backoff_bounds f32_le [of ?k] f32_ge [of ?k] f32_le [of "f32 ?k"] f32_ge [of "f32 ?k"]
    f32_le [of "1 + ?k"] f32_ge [of "1 + ?k"] f32_le [of "f32 (1 + ?k) / 2"] f32_ge [of "f32 (1 + ?k) / 2"]
  have p: "0 \<le> ?k" "0 \<le> f32 ?k" "0 \<le> f32 (1 + ?k)" using backoff_bounds by simp_all
  show "68/100 \<le> cubic_Beta c" "cubic_Beta c \<le> 86/100" "cb_num_connections c = 2 \<Longrightarrow> 84/100 \<le> cubic_Beta c"
    using assms b b2 k p by (auto simp: cubic_conns_def)
qed

lemma cubic_Alpha_bounds:
  assumes "cubic_conns c"
  shows "0 \<le> cubic_Alpha c" "cubic_Alpha c \<le> 12"
proof -
  let ?b = "cubic_Beta c" and ?n = "cb_num_connections c"
  note b = cubic_Beta_bounds [OF assms]
  have n': "0 \<le> 3 * ?n * ?n" "3 * ?n * ?n \<le> 12" using assms by (auto simp: cubic_conns_def)
  have "f32 (of_int (3 * ?n * ?n)) = of_int (3 * ?n * ?n)" by (rule f32_int) (use n' in linarith)
  note n = this n'
  have m: "0 \<le> f32 (1 - ?b)" "f32 (1 - ?b) \<le> 1" using f32_at_most [of "1 - ?b" 1] b by simp_all
  have d: "1 \<le> f32 (1 + ?b)" using f32_at_least [of 1 "1 + ?b"] b by simp
  have "of_int (3 * ?n * ?n) * f32 (1 - ?b) \<le> 12 * 1"
    by (rule mult_mono) (use m n in \<open>simp_all flip: of_int_mult\<close>)
  moreover have "0 \<le> of_int (3 * ?n * ?n) * f32 (1 - ?b)"
    by (rule mult_nonneg_nonneg) (use m n(2) in \<open>simp_all only: of_int_0_le_iff\<close>)
  ultimately have p: "0 \<le> f32 (of_int (3 * ?n * ?n) * f32 (1 - ?b))" "f32 (of_int (3 * ?n * ?n) * f32 (1 - ?b)) \<le> 12"
    using f32_at_most [of "of_int (3 * ?n * ?n) * f32 (1 - ?b)" 12] by simp_all
  have "f32 (of_int (3 * ?n * ?n) * f32 (1 - ?b)) / f32 (1 + ?b) \<le> 12 / 1"
    by (rule frac_le) (use p d in auto)
  moreover have "0 \<le> f32 (of_int (3 * ?n * ?n) * f32 (1 - ?b)) / f32 (1 + ?b)" using p d by simp
  moreover have "cubic_Alpha c = f32 (f32 (of_int (3 * ?n * ?n) * f32 (1 - ?b)) / f32 (1 + ?b))"
    unfolding cubic_Alpha_def Let_def n(1) ..
  ultimately show "0 \<le> cubic_Alpha c" "cubic_Alpha c \<le> 12"
    using f32_at_most [of "f32 (of_int (3 * ?n * ?n) * f32 (1 - ?b)) / f32 (1 + ?b)" 12] by simp_all
qed

subsection \<open>After a loss\<close>

text \<open>The product with the back-off factor, with the rounding of the conversion and of the product.\<close>

lemma cubic_scaled_bounds:
  assumes "0 \<le> lo" "lo \<le> b" "b \<le> 86/100" "x = f32 (f32 (of_int (uint (w::u64))) * b)"
  shows "of_int (uint w) * (lo * (99/100)) - 1 \<le> of_int (ctrunc x)" "ctrunc x \<le> uint w" "0 \<le> ctrunc x"
    "of_int (ctrunc x) \<le> of_int (uint w) * (87/100 :: rat)"
proof -
  let ?w = "rat_of_int (uint w)"
  have w: "0 \<le> ?w" by simp
  have f: "?w * (1 - 1 / 16777216) \<le> f32 ?w" "f32 ?w \<le> ?w * (1 + 1 / 16777216)" "0 \<le> f32 ?w"
    using f32_le [OF w] f32_ge [OF w] by simp_all
  have p: "0 \<le> f32 ?w * b" using f assms by simp
  have u: "x \<le> f32 ?w * b * (1 + 1 / 16777216)" "f32 ?w * b * (1 - 1 / 16777216) \<le> x" "0 \<le> x"
    using f32_le [OF p] f32_ge [OF p] p assms(4) by simp_all
  have "f32 ?w * b \<le> (?w * (1 + 1 / 16777216)) * (86/100)" by (rule mult_mono) (use f assms w in auto)
  moreover have "y \<le> W * (1 + 1 / 16777216) * (86/100) \<Longrightarrow> v \<le> y * (1 + 1 / 16777216) \<Longrightarrow> 0 \<le> W \<Longrightarrow> v \<le> W * (87/100)"
    for y W v :: rat by (simp add: field_simps)
  ultimately have x: "x \<le> ?w * (87/100)" using u(1) w by blast
  then show "of_int (ctrunc x) \<le> ?w * (87/100)" using ctrunc_le [OF u(3)] by linarith
  have "W * (87/100) \<le> W" if "0 \<le> W" for W :: rat using that by simp
  then have "x \<le> ?w" using x w by (meson order_trans)
  then show "ctrunc x \<le> uint w" 
    using ctrunc_mono [OF u(3), of ?w] by (simp only: ctrunc_of_int)
  have "(?w * (1 - 1 / 16777216)) * lo \<le> f32 ?w * b" by (rule mult_mono) (use f assms w in auto)
  then have "(?w * (1 - 1 / 16777216)) * lo * (1 - 1 / 16777216) \<le> f32 ?w * b * (1 - 1 / 16777216)"
    by (rule mult_right_mono) simp
  moreover have "?w * (lo * (99/100)) \<le> (?w * (1 - 1 / 16777216)) * lo * (1 - 1 / 16777216)"
  proof -
    have "?w * lo * (99/100) \<le> ?w * lo * ((1 - 1 / 16777216) * (1 - 1 / 16777216))"
      by (rule mult_left_mono) (use w assms in simp_all)
    then show ?thesis by (simp only: mult_ac)
  qed
  ultimately have "?w * (lo * (99/100)) \<le> x" using u(2) by linarith
  then show "?w * (lo * (99/100)) - 1 \<le> of_int (ctrunc x)"
    using u(3) floor_correct [of x] by (simp add: ctrunc_def)
  show "0 \<le> ctrunc x" using u(3) by simp
qed

lemma cubic_loss_le:
  assumes "cubic_conns c"
  shows "uint (fst (CongestionWindowAfterPacketLoss w c)) \<le> uint w"
proof -
  define c1 where "c1 = (if w + kDefaultTCPMSS < cb_last_max_congestion_window c
      then c\<lparr>cb_last_max_congestion_window :=
          of_int (ctrunc (f32 (cubic_BetaLastMax c * f32 (of_int (uint w)))))\<rparr>
      else c\<lparr>cb_last_max_congestion_window := w\<rparr>)"
  have "cubic_conns c1" using assms by (simp add: c1_def cubic_conns_def)
  note b = cubic_Beta_bounds [OF this]
  note s = cubic_scaled_bounds [OF _ b(1,2) refl, of w]
  have "fst (CongestionWindowAfterPacketLoss w c) = of_int (ctrunc (f32 (f32 (of_int (uint w)) * cubic_Beta c1)))"
    by (simp add: CongestionWindowAfterPacketLoss_def Let_def c1_def)
  then show ?thesis using s uint_lt2p [of w] by (simp add: uint_word_of_int mod_pos_pos_trivial)
qed

subsection \<open>After an ack\<close>

text \<open>The increment of the Reno estimate \<open>e\<close> for \<open>a\<close> acked bytes, in single precision.\<close>

definition reno_increment :: "rat \<Rightarrow> rat \<Rightarrow> cubic_bytes \<Rightarrow> rat" where
  "reno_increment e a c = f32 (f32 (a * f32 (cubic_Alpha c * f32 (of_int (uint kDefaultTCPMSS)))) / e)"

lemma cubic_reno_estimate_alt:
  "cubic_reno_estimate c =
     (let e = f32 (of_int (uint (cb_estimated_tcp_congestion_window c)))
      in of_int (ctrunc (f32 (e + reno_increment e (f32 (of_int (uint (cb_acked_bytes_count c)))) c))))"
  by (simp add: cubic_reno_estimate_def reno_increment_def Let_def)

lemma reno_increment_bounds:
  assumes "cubic_conns c" "1 \<le> e" "0 \<le> a" "a \<le> 4 * e"
  shows "0 \<le> reno_increment e a c" "reno_increment e a c \<le> 560640"
proof -
  define k where "k = f32 (cubic_Alpha c * f32 (of_int (uint kDefaultTCPMSS)))"
  have "f32 (rat_of_int 1460) = of_int 1460" by (rule f32_int) simp
  then have "f32 (of_int (uint kDefaultTCPMSS)) = 1460" by (simp add: kDefaultTCPMSS_def)
  then have k: "0 \<le> k" "k \<le> 35040"
    using cubic_Alpha_bounds [OF assms(1)] f32_double [of "cubic_Alpha c * 1460"] by (simp_all add: k_def)
  have "a * k \<le> (4 * e) * 35040" by (rule mult_mono) (use assms k in auto)
  then have p: "0 \<le> f32 (a * k)" "f32 (a * k) \<le> 280320 * e"
    using f32_double [of "a * k"] assms k by simp_all
  have "f32 (a * k) / e \<le> 280320" using p assms by (simp add: pos_divide_le_eq)
  moreover have "reno_increment e a c = f32 (f32 (a * k) / e)" unfolding reno_increment_def k_def ..
  ultimately show "0 \<le> reno_increment e a c" "reno_increment e a c \<le> 560640"
    using f32_double [of "f32 (a * k) / e"] p assms by simp_all
qed

lemma f32_uint_bounds:
  "of_int (uint (w::u64)) / 2 \<le> f32 (of_int (uint w))" "f32 (of_int (uint w)) \<le> 2 * of_int (uint w)"
  "0 \<le> f32 (of_int (uint w))"
proof -
  let ?w = "rat_of_int (uint w)"
  have w: "0 \<le> ?w" by simp
  have "W / 2 \<le> W * (1 - 1 / 16777216)" if "0 \<le> W" for W :: rat using that by (simp add: field_simps)
  then show "?w / 2 \<le> f32 ?w" using f32_ge [OF w] w by (meson order_trans)
  show "f32 ?w \<le> 2 * ?w" using f32_double [OF w] .
  show "0 \<le> f32 ?w" using w by (rule fl_nonneg)
qed

lemma cubic_reno_estimate_bounds:
  assumes "cubic_conns c" "m \<le> uint (cb_estimated_tcp_congestion_window c)" "2 \<le> m" "m < 16777216"
    "uint (cb_estimated_tcp_congestion_window c) < 2 ^ 60"
    "uint (cb_acked_bytes_count c) \<le> uint (cb_estimated_tcp_congestion_window c)"
  shows "m \<le> uint (cubic_reno_estimate c)"
    "uint (cubic_reno_estimate c) \<le> 4 * uint (cb_estimated_tcp_congestion_window c) + 1121280"
proof -
  let ?est = "uint (cb_estimated_tcp_congestion_window c)" and ?a = "uint (cb_acked_bytes_count c)"
  define e where "e = f32 (of_int ?est)"
  define x where "x = reno_increment e (f32 (of_int ?a)) c"
  have m: "rat_of_int m \<le> of_int ?est" using assms(2) by (simp only: of_int_le_iff)
  have "2 \<le> rat_of_int m" using assms(3) by simp
  note m = m this
  have "of_int m \<le> e" unfolding e_def by (rule f32_at_least) (use m assms in auto)
  then have e: "of_int m \<le> e" "1 \<le> e" "e \<le> 2 * of_int ?est" "of_int ?est / 2 \<le> e"
    using m f32_uint_bounds [of "cb_estimated_tcp_congestion_window c"] by (simp_all add: e_def)
  have "rat_of_int ?a \<le> of_int ?est" using assms(6) by (simp only: of_int_le_iff)
  then have a: "f32 (of_int ?a) \<le> 4 * e" "0 \<le> f32 (of_int ?a)"
    using e(4) f32_uint_bounds [of "cb_acked_bytes_count c"] by linarith+
  have x: "0 \<le> x" "x \<le> 560640"
    unfolding x_def using reno_increment_bounds [OF assms(1) e(2) a(2,1)] by simp_all
  have l: "of_int m \<le> f32 (e + x)" by (rule f32_at_least) (use e x assms in auto)
  have "f32 (e + x) \<le> 2 * (e + x)" using e x by (intro f32_double) simp
  then have "f32 (e + x) \<le> of_int (4 * ?est + 1121280)" using e x by simp
  then have u: "ctrunc (f32 (e + x)) \<le> 4 * ?est + 1121280"
    using ctrunc_mono [of "f32 (e + x)" "of_int (4 * ?est + 1121280)"] e x by (simp only: ctrunc_of_int) simp
  have l': "m \<le> ctrunc (f32 (e + x))" using ctrunc_mono [of "of_int m" "f32 (e + x)"] l assms(3) by simp
  have "cubic_reno_estimate c = of_int (ctrunc (f32 (e + x)))"
    by (simp add: cubic_reno_estimate_alt Let_def e_def x_def)
  moreover have "uint (word_of_int (ctrunc (f32 (e + x))) :: u64) = ctrunc (f32 (e + x))"
    using u l' assms(3,5) by (simp add: uint_word_of_int mod_pos_pos_trivial)
  ultimately show "m \<le> uint (cubic_reno_estimate c)" "uint (cubic_reno_estimate c) \<le> 4 * ?est + 1121280"
    using u l' by simp_all
qed

text \<open>The invariant that a sender with minimum window \<open>m\<close> relies on.\<close>

definition cubic_ok :: "int \<Rightarrow> cubic_bytes \<Rightarrow> bool" where
  "cubic_ok m c \<longleftrightarrow> cubic_conns c \<and> cb_acked_bytes_count c = 0 \<and>
     (Time_IsInitialized (cb_epoch c) \<longrightarrow> m \<le> uint (cb_estimated_tcp_congestion_window c))"

lemma cubic_ack_floor:
  assumes "cubic_ok m c" "m \<le> uint w" "2 \<le> m" "m < 16777216" "uint w < 2 ^ 60"
    "uint (cb_estimated_tcp_congestion_window c) < 2 ^ 60" "uint a \<le> m"
  shows "m \<le> uint (fst (CongestionWindowAfterAck cbrt a w d t c)) \<and>
    cubic_ok m (snd (CongestionWindowAfterAck cbrt a w d t c))"
proof -
  define c2 where "c2 = (if \<not> Time_IsInitialized (cb_epoch c)
      then cubic_start_epoch cbrt a w t (c\<lparr>cb_acked_bytes_count := a\<rparr>) else c\<lparr>cb_acked_bytes_count := a\<rparr>)"
  have c2: "cubic_conns c2" "m \<le> uint (cb_estimated_tcp_congestion_window c2)" "cb_acked_bytes_count c2 = a"
    "uint (cb_estimated_tcp_congestion_window c2) < 2 ^ 60"
    using assms by (auto simp: c2_def cubic_start_epoch_def Let_def cubic_ok_def cubic_conns_def)
  have e: "m \<le> uint (cubic_reno_estimate c2)"
    by (rule cubic_reno_estimate_bounds) (use c2 assms in auto)
  have c: "CongestionWindowAfterAck cbrt a w d t c =
    (let target = cubic_target w (cubic_elapsed d t c2) c2; est = cubic_reno_estimate c2
     in (if target < est then est else target,
         c2\<lparr>cb_estimated_tcp_congestion_window := est, cb_acked_bytes_count := 0,
             cb_last_target_congestion_window := target\<rparr>))"
    using assms(1) by (simp add: CongestionWindowAfterAck_def c2_def Let_def cubic_ok_def)
  show ?thesis using e c2(1)
    by (auto simp: c Let_def cubic_ok_def cubic_conns_def word_less_def not_less)
qed

lemma cubic_loss_ok: "cubic_ok m c \<Longrightarrow> cubic_ok m (snd (CongestionWindowAfterPacketLoss w c))"
  by (auto simp: cubic_ok_def cubic_conns_def CongestionWindowAfterPacketLoss_def Let_def Time_IsInitialized_def)

lemma cubic_reset_ok: "cubic_conns c \<Longrightarrow> cubic_ok m (ResetCubicState c)"
  by (simp add: cubic_ok_def cubic_conns_def ResetCubicState_def Time_IsInitialized_def)

lemma cubic_limited_ok: "cubic_ok m c \<Longrightarrow> cubic_ok m (cubic_OnApplicationLimited c)"
  by (simp add: cubic_ok_def cubic_conns_def cubic_OnApplicationLimited_def Time_IsInitialized_def)


subsection \<open>Properties\<close>

text \<open>C33: with the two emulated connections the code uses, a loss reduces the window to between
  83 and 87 percent of its value (the factor 0.85 in single precision), up to a byte.\<close>

theorem cubic_loss_factor:
  assumes "cb_num_connections c = 2" "uint w < 2 ^ 31"
  shows "let w' = uint (fst (CongestionWindowAfterPacketLoss w c))
    in 83 * uint w - 100 \<le> 100 * w' \<and> 100 * w' \<le> 87 * uint w"
proof -
  define c1 where "c1 = (if w + kDefaultTCPMSS < cb_last_max_congestion_window c
      then c\<lparr>cb_last_max_congestion_window :=
          of_int (ctrunc (f32 (cubic_BetaLastMax c * f32 (of_int (uint w)))))\<rparr>
      else c\<lparr>cb_last_max_congestion_window := w\<rparr>)"
  define x where "x = f32 (f32 (of_int (uint w)) * cubic_Beta c1)"
  have c1: "cubic_conns c1" "cb_num_connections c1 = 2" using assms(1) by (simp_all add: c1_def cubic_conns_def)
  note b = cubic_Beta_bounds [OF c1(1)]
  have "(0::rat) \<le> 84/100" by simp
  note s = cubic_scaled_bounds [OF this b(3) [OF c1(2)] b(2) x_def]
  have "fst (CongestionWindowAfterPacketLoss w c) = of_int (ctrunc x)"
    by (simp add: CongestionWindowAfterPacketLoss_def Let_def c1_def x_def)
  then have e: "uint (fst (CongestionWindowAfterPacketLoss w c)) = ctrunc x"
    using s(2,3) uint_lt2p [of w] by (simp add: uint_word_of_int mod_pos_pos_trivial)
  have "W * (84/100 * (99/100)) - 1 \<le> v \<Longrightarrow> 0 \<le> W \<Longrightarrow> 83 * W - 100 \<le> 100 * v" for W v :: rat by simp
  from this [OF s(1)] have "rat_of_int (83 * uint w - 100) \<le> of_int (100 * ctrunc x)" by simp
  then have "83 * uint w - 100 \<le> 100 * ctrunc x" by (simp only: of_int_le_iff)
  moreover have "v \<le> W * (87/100) \<Longrightarrow> 100 * v \<le> 87 * W" for W v :: rat by simp
  from this [OF s(4)] have "rat_of_int (100 * ctrunc x) \<le> of_int (87 * uint w)" by simp
  then have "100 * ctrunc x \<le> 87 * uint w" by (simp only: of_int_le_iff)
  ultimately show ?thesis by (simp add: e)
qed

theorem cubic_loss_factor_witness:
  "let w' = uint (fst (CongestionWindowAfterPacketLoss 146000 CubicBytes_new))
    in 83 * uint (146000 :: byte_count) - 100 \<le> 100 * w' \<and> 100 * w' \<le> 87 * uint (146000 :: byte_count)"
  by (rule cubic_loss_factor)
     (simp_all add: CubicBytes_new_def ResetCubicState_def kDefaultNumConnections_def)

text \<open>C38: the cube in the cubic curve is computed in 64 bits and wraps around 30.6 seconds into an
  epoch that starts at its origin: a millisecond earlier the curve is 16.7 MB above the
  origin, then only 492 bytes, so an ack without any loss shrinks a window above that.\<close>

theorem cubic_curve_wraps:
  assumes "cubic_conns c" "Time_IsInitialized (cb_epoch c)" "cb_time_to_origin_point c = 0"
    "cb_acked_bytes_count c = 0" "event_time + delay_min - cb_epoch c = 30617188"
    "uint (cb_origin_point_congestion_window c) + 492 < uint w" "uint w < 2 ^ 58"
    "2 \<le> uint (cb_estimated_tcp_congestion_window c)" "uint a \<le> uint (cb_estimated_tcp_congestion_window c)"
    "4 * uint (cb_estimated_tcp_congestion_window c) + 1121280 < uint w"
  shows "cubic_delta (cubic_elapsed delay_min (event_time - 1000) c) c = 16774497 \<and>
    cubic_delta (cubic_elapsed delay_min event_time c) c = 492 \<and>
    uint (fst (CongestionWindowAfterAck cbrt a w delay_min event_time c)) < uint w"
proof -
  let ?c = "c\<lparr>cb_acked_bytes_count := a\<rparr>"
  have t: "event_time - 1000 + delay_min - cb_epoch c = 30616188" using assms(5) by linarith
  have e: "cubic_elapsed delay_min event_time c = 31352" "cubic_elapsed delay_min (event_time - 1000) c = 31350"
    unfolding cubic_elapsed_def t assms(5) by (simp_all add: kNumMicrosPerSecond_def sint_u64 uint_div)
  have d: "cubic_delta 31352 c' = 492" "cubic_delta 31350 c' = 16774497" if "cb_time_to_origin_point c' = 0" for c'
    using that by (simp_all add: cubic_delta_def Let_def kCubeScale_def kCubeCongestionWindowScale_def kDefaultTCPMSS_def
        drop_bit_eq_div)
  have "uint (cb_origin_point_congestion_window c + 492) = uint (cb_origin_point_congestion_window c) + 492"
    using assms(6) uint_lt2p [of w] by (simp add: uint_add_u64)
  moreover have "cubic_target w 31352 ?c = min (cb_origin_point_congestion_window c + 492) (w + a div 2)"
    using d(1) [of ?c] assms(3) by (simp add: cubic_target_def)
  moreover have "uint (min (cb_origin_point_congestion_window c + 492) (w + a div 2)) \<le>
      uint (cb_origin_point_congestion_window c + 492)" by (simp add: min_def word_le_def)
  ultimately have t: "uint (cubic_target w 31352 ?c) < uint w" using assms(6) by simp
  have r: "uint (cubic_reno_estimate ?c) \<le> 4 * uint (cb_estimated_tcp_congestion_window ?c) + 1121280"
    by (rule cubic_reno_estimate_bounds(2) [where m = 2])
       (use assms in \<open>auto simp: cubic_conns_def\<close>)
  have "fst (CongestionWindowAfterAck cbrt a w delay_min event_time c) =
      (if cubic_target w 31352 ?c < cubic_reno_estimate ?c then cubic_reno_estimate ?c else cubic_target w 31352 ?c)"
    using assms(2,4) e by (simp add: CongestionWindowAfterAck_def Let_def cubic_elapsed_def)
  then have "uint (fst (CongestionWindowAfterAck cbrt a w delay_min event_time c)) < uint w"
    using t r assms(10) by simp
  then show ?thesis unfolding e using d [OF assms(3)] by blast
qed

definition cubic_sample :: cubic_bytes where
  "cubic_sample = CubicBytes_new\<lparr>cb_epoch := 1000000, cb_estimated_tcp_congestion_window := 146000,
     cb_origin_point_congestion_window := 146000\<rparr>"

theorem cubic_curve_wraps_witness:
  "cubic_delta (cubic_elapsed 0 (31617188 - 1000) cubic_sample) cubic_sample = 16774497 \<and>
    cubic_delta (cubic_elapsed 0 31617188 cubic_sample) cubic_sample = 492 \<and>
    uint (fst (CongestionWindowAfterAck (\<lambda>x. x) 1460 2920000 0 31617188 cubic_sample)) < uint (2920000 :: byte_count)"
  by (rule cubic_curve_wraps)
     (simp_all add: cubic_sample_def CubicBytes_new_def ResetCubicState_def kDefaultNumConnections_def cubic_conns_def
       Time_IsInitialized_def)

end
