(* ===== verification/Tcp_Cubic_Sender.thy ===== *)
theory Tcp_Cubic_Sender
  imports Send_Algorithm Rtt_Stats Hybrid_Slow_Start Prr_Sender Cubic_Bytes
begin

text \<open>
  The Cubic and Reno sender of \<open>tcp_cubic_sender_bytes.cc\<close>, which composes hybrid slow start, PRR and
  the cubic curve. The \<open>QuicConnectionStats\<close> it points to is a field of the model; \<open>cbrt\<close> is the cube
  root of the C library.
\<close>

record tcp_cubic_sender =
  tc_hybrid_slow_start :: hybrid_slow_start
  tc_prr :: prr_sender
  tc_stats :: connection_stats
  tc_reno :: bool
  tc_num_connections :: u32
  tc_largest_sent :: packet_number
  tc_largest_acked :: packet_number
  tc_largest_sent_at_last_cutback :: packet_number
  tc_min4_mode :: bool
  tc_last_cutback_exited_slowstart :: bool
  tc_slow_start_large_reduction :: bool
  tc_no_prr :: bool
  tc_cubic :: cubic_bytes
  tc_num_acked_packets :: u64
  tc_cwnd :: byte_count
  tc_min_cwnd :: byte_count
  tc_max_cwnd :: byte_count
  tc_ssthresh :: byte_count
  tc_initial_cwnd :: byte_count
  tc_initial_max_cwnd :: byte_count
  tc_min_slow_start_exit_window :: byte_count

datatype perspective = IS_SERVER | IS_CLIENT

datatype connection_option = kIW03 | kIW10 | kIW20 | kIW50 | kMIN1 | kMIN4 | kSSLR | kNPRR | OtherOption u32

subsection \<open>Definitions\<close>

definition kMaxBurstBytes :: byte_count where "kMaxBurstBytes = 3 * kDefaultTCPMSS"
definition kRenoBeta :: rat where "kRenoBeta = f32 (7/10)"
definition tc_kDefaultMinimumCongestionWindow :: byte_count where
  "tc_kDefaultMinimumCongestionWindow = 2 * kDefaultTCPMSS"

definition TcpCubicSenderBytes_new ::
  "bool \<Rightarrow> packet_count \<Rightarrow> packet_count \<Rightarrow> connection_stats \<Rightarrow> tcp_cubic_sender" where
  "TcpCubicSenderBytes_new reno initial_window max_window stats =
     \<lparr>tc_hybrid_slow_start = HybridSlowStart_new, tc_prr = PrrSender_new, tc_stats = stats, tc_reno = reno,
      tc_num_connections = of_int kDefaultNumConnections,
      tc_largest_sent = UninitializedPacketNumber, tc_largest_acked = UninitializedPacketNumber,
      tc_largest_sent_at_last_cutback = UninitializedPacketNumber,
      tc_min4_mode = False, tc_last_cutback_exited_slowstart = False, tc_slow_start_large_reduction = False,
      tc_no_prr = False, tc_cubic = CubicBytes_new, tc_num_acked_packets = 0,
      tc_cwnd = initial_window * kDefaultTCPMSS, tc_min_cwnd = tc_kDefaultMinimumCongestionWindow,
      tc_max_cwnd = max_window * kDefaultTCPMSS, tc_ssthresh = max_window * kDefaultTCPMSS,
      tc_initial_cwnd = initial_window * kDefaultTCPMSS, tc_initial_max_cwnd = max_window * kDefaultTCPMSS,
      tc_min_slow_start_exit_window = tc_kDefaultMinimumCongestionWindow\<rparr>"

definition tc_SetInitialCongestionWindowInPackets :: "packet_count \<Rightarrow> tcp_cubic_sender \<Rightarrow> tcp_cubic_sender" where
  "tc_SetInitialCongestionWindowInPackets n s = s\<lparr>tc_cwnd := n * kDefaultTCPMSS\<rparr>"

definition tc_SetMinCongestionWindowInPackets :: "packet_count \<Rightarrow> tcp_cubic_sender \<Rightarrow> tcp_cubic_sender" where
  "tc_SetMinCongestionWindowInPackets n s = s\<lparr>tc_min_cwnd := n * kDefaultTCPMSS\<rparr>"

text \<open>The connection options are \<open>None\<close> if none were received; \<open>unified\<close> is the reloadable flag
  \<open>quic_unified_iw_options\<close>.\<close>

definition has_option :: "connection_option list option \<Rightarrow> connection_option \<Rightarrow> bool" where
  "has_option received tag = (case received of None \<Rightarrow> False | Some tags \<Rightarrow> tag \<in> set tags)"

definition tc_SetFromConfig ::
  "bool \<Rightarrow> connection_option list option \<Rightarrow> perspective \<Rightarrow> tcp_cubic_sender \<Rightarrow> tcp_cubic_sender" where
  "tc_SetFromConfig unified received perspective s =
     (if perspective = IS_SERVER
      then
        let apply_if = (\<lambda>tag f s. if has_option received tag then f s else s);
            s1 = (if \<not> unified
                  then apply_if kMIN1 (tc_SetMinCongestionWindowInPackets 1)
                        (apply_if kIW50 (tc_SetInitialCongestionWindowInPackets 50)
                        (apply_if kIW20 (tc_SetInitialCongestionWindowInPackets 20)
                        (apply_if kIW10 (tc_SetInitialCongestionWindowInPackets 10)
                        (apply_if kIW03 (tc_SetInitialCongestionWindowInPackets 3) s))))
                  else s);
            s2 = apply_if kMIN4 (\<lambda>s. tc_SetMinCongestionWindowInPackets 1 (s\<lparr>tc_min4_mode := True\<rparr>)) s1;
            s3 = apply_if kSSLR (\<lambda>s. s\<lparr>tc_slow_start_large_reduction := True\<rparr>) s2
        in apply_if kNPRR (\<lambda>s. s\<lparr>tc_no_prr := True\<rparr>) s3
      else s)"

definition tc_SetCongestionWindowFromBandwidthAndRtt ::
  "bandwidth \<Rightarrow> delta \<Rightarrow> tcp_cubic_sender \<Rightarrow> tcp_cubic_sender" where
  "tc_SetCongestionWindowFromBandwidthAndRtt bandwidth rtt s =
     (let new_congestion_window = ToBytesPerPeriod bandwidth rtt
      in s\<lparr>tc_cwnd := max (tc_min_cwnd s)
             (min new_congestion_window (kMaxResumptionCongestionWindow * kDefaultTCPMSS))\<rparr>)"

definition tc_AdjustNetworkParameters :: "bandwidth \<Rightarrow> delta \<Rightarrow> tcp_cubic_sender \<Rightarrow> tcp_cubic_sender" where
  "tc_AdjustNetworkParameters bandwidth rtt s =
     (if bandwidth = 0 \<or> Delta_IsZero rtt then s
      else tc_SetCongestionWindowFromBandwidthAndRtt bandwidth rtt s)"

definition tc_SetNumEmulatedConnections :: "int \<Rightarrow> tcp_cubic_sender \<Rightarrow> tcp_cubic_sender" where
  "tc_SetNumEmulatedConnections n s =
     (let num = max 1 n
      in s\<lparr>tc_num_connections := of_int num, tc_cubic := SetNumConnections num (tc_cubic s)\<rparr>)"

definition tc_RenoBeta :: "tcp_cubic_sender \<Rightarrow> rat" where
  "tc_RenoBeta s = f32 (f32 (f32 (of_int (uint (tc_num_connections s - 1))) + kRenoBeta) /
                        f32 (of_int (uint (tc_num_connections s))))"

definition tc_GetCongestionWindow :: "tcp_cubic_sender \<Rightarrow> byte_count" where
  "tc_GetCongestionWindow s = tc_cwnd s"

definition tc_GetSlowStartThreshold :: "tcp_cubic_sender \<Rightarrow> byte_count" where
  "tc_GetSlowStartThreshold s = tc_ssthresh s"

definition tc_InSlowStart :: "tcp_cubic_sender \<Rightarrow> bool" where
  "tc_InSlowStart s \<longleftrightarrow> tc_GetCongestionWindow s < tc_GetSlowStartThreshold s"

definition tc_InRecovery :: "tcp_cubic_sender \<Rightarrow> bool" where
  "tc_InRecovery s \<longleftrightarrow>
     pn_IsInitialized (tc_largest_acked s) \<and> pn_IsInitialized (tc_largest_sent_at_last_cutback s) \<and>
     tc_largest_acked s \<le> tc_largest_sent_at_last_cutback s"

definition tc_IsCwndLimited :: "byte_count \<Rightarrow> tcp_cubic_sender \<Rightarrow> bool" where
  "tc_IsCwndLimited bytes_in_flight s =
     (let congestion_window = tc_GetCongestionWindow s
      in if bytes_in_flight \<ge> congestion_window then True
         else
           let available_bytes = congestion_window - bytes_in_flight;
               slow_start_limited = (tc_InSlowStart s \<and> bytes_in_flight > congestion_window div 2)
           in slow_start_limited \<or> available_bytes \<le> kMaxBurstBytes)"

definition tc_ExitSlowstart :: "tcp_cubic_sender \<Rightarrow> tcp_cubic_sender" where
  "tc_ExitSlowstart s = s\<lparr>tc_ssthresh := tc_cwnd s\<rparr>"

text \<open>\<open>OnPacketLost\<close>: a loss from before the last cutback, and a new one.\<close>

definition tc_lost_again :: "byte_count \<Rightarrow> tcp_cubic_sender \<Rightarrow> tcp_cubic_sender" where
  "tc_lost_again lost_bytes s =
     (if tc_last_cutback_exited_slowstart s
      then
        let s1 = s\<lparr>tc_stats := (tc_stats s)\<lparr>cs_slowstart_packets_lost := cs_slowstart_packets_lost (tc_stats s) + 1,
                                           cs_slowstart_bytes_lost := cs_slowstart_bytes_lost (tc_stats s) + lost_bytes\<rparr>\<rparr>
        in if tc_slow_start_large_reduction s1
           then
             let w = max (tc_cwnd s1 - lost_bytes) (tc_min_slow_start_exit_window s1)
             in s1\<lparr>tc_cwnd := w, tc_ssthresh := w\<rparr>
           else s1
      else s)"

definition tc_reduce :: "tcp_cubic_sender \<Rightarrow> tcp_cubic_sender" where
  "tc_reduce s =
     (if tc_slow_start_large_reduction s \<and> tc_InSlowStart s
      then
        let s1 = (if tc_cwnd s \<ge> 2 * tc_initial_cwnd s
                  then s\<lparr>tc_min_slow_start_exit_window := tc_cwnd s div 2\<rparr> else s)
        in s1\<lparr>tc_cwnd := tc_cwnd s1 - kDefaultTCPMSS\<rparr>
      else if tc_reno s
      then s\<lparr>tc_cwnd := of_int (ctrunc (f32 (f32 (of_int (uint (tc_cwnd s))) * tc_RenoBeta s)))\<rparr>
      else let (w, c) = CongestionWindowAfterPacketLoss (tc_cwnd s) (tc_cubic s)
           in s\<lparr>tc_cwnd := w, tc_cubic := c\<rparr>)"

definition tc_lost_new :: "byte_count \<Rightarrow> tcp_cubic_sender \<Rightarrow> tcp_cubic_sender" where
  "tc_lost_new prior_in_flight s =
     (let s1 = s\<lparr>tc_stats := (tc_stats s)\<lparr>cs_tcp_loss_events := cs_tcp_loss_events (tc_stats s) + 1\<rparr>,
                 tc_last_cutback_exited_slowstart := tc_InSlowStart s\<rparr>;
          s2 = (if tc_InSlowStart s1
                then s1\<lparr>tc_stats := (tc_stats s1)\<lparr>cs_slowstart_packets_lost :=
                                                    cs_slowstart_packets_lost (tc_stats s1) + 1\<rparr>\<rparr>
                else s1);
          s3 = (if \<not> tc_no_prr s2 then s2\<lparr>tc_prr := prr_OnPacketLost prior_in_flight (tc_prr s2)\<rparr> else s2);
          s4 = tc_reduce s3;
          s5 = (if tc_cwnd s4 < tc_min_cwnd s4 then s4\<lparr>tc_cwnd := tc_min_cwnd s4\<rparr> else s4)
      in s5\<lparr>tc_ssthresh := tc_cwnd s5, tc_largest_sent_at_last_cutback := tc_largest_sent s5,
            tc_num_acked_packets := 0\<rparr>)"

definition tc_OnPacketLost ::
  "packet_number \<Rightarrow> byte_count \<Rightarrow> byte_count \<Rightarrow> tcp_cubic_sender \<Rightarrow> tcp_cubic_sender" where
  "tc_OnPacketLost packet_number lost_bytes prior_in_flight s =
     (if pn_IsInitialized (tc_largest_sent_at_last_cutback s) \<and>
         packet_number \<le> tc_largest_sent_at_last_cutback s
      then tc_lost_again lost_bytes s else tc_lost_new prior_in_flight s)"

definition tc_MaybeIncreaseCwnd ::
  "(rat \<Rightarrow> rat) \<Rightarrow> rtt_stats \<Rightarrow> byte_count \<Rightarrow> byte_count \<Rightarrow> quic_time \<Rightarrow> tcp_cubic_sender \<Rightarrow> tcp_cubic_sender" where
  "tc_MaybeIncreaseCwnd cbrt rtt acked_bytes prior_in_flight event_time s =
     (if \<not> tc_IsCwndLimited prior_in_flight s then s\<lparr>tc_cubic := cubic_OnApplicationLimited (tc_cubic s)\<rparr>
      else if tc_cwnd s \<ge> tc_max_cwnd s then s
      else if tc_InSlowStart s then s\<lparr>tc_cwnd := tc_cwnd s + kDefaultTCPMSS\<rparr>
      else if tc_reno s
      then
        let s1 = s\<lparr>tc_num_acked_packets := tc_num_acked_packets s + 1\<rparr>
        in if tc_num_acked_packets s1 * ucast (tc_num_connections s1) \<ge> tc_cwnd s1 div kDefaultTCPMSS
           then s1\<lparr>tc_cwnd := tc_cwnd s1 + kDefaultTCPMSS, tc_num_acked_packets := 0\<rparr> else s1
      else
        let (w, c) = CongestionWindowAfterAck cbrt acked_bytes (tc_cwnd s) (rtt_min rtt) event_time (tc_cubic s)
        in s\<lparr>tc_cwnd := min (tc_max_cwnd s) w, tc_cubic := c\<rparr>)"

definition tc_OnPacketAcked ::
  "(rat \<Rightarrow> rat) \<Rightarrow> rtt_stats \<Rightarrow> packet_number \<Rightarrow> byte_count \<Rightarrow> byte_count \<Rightarrow> quic_time \<Rightarrow>
   tcp_cubic_sender \<Rightarrow> tcp_cubic_sender" where
  "tc_OnPacketAcked cbrt rtt acked_packet_number acked_bytes prior_in_flight event_time s =
     (let s1 = s\<lparr>tc_largest_acked := pn_UpdateMax acked_packet_number (tc_largest_acked s)\<rparr>
      in if tc_InRecovery s1
         then (if \<not> tc_no_prr s1 then s1\<lparr>tc_prr := prr_OnPacketAcked acked_bytes (tc_prr s1)\<rparr> else s1)
         else
           let s2 = tc_MaybeIncreaseCwnd cbrt rtt acked_bytes prior_in_flight event_time s1
           in if tc_InSlowStart s2
              then s2\<lparr>tc_hybrid_slow_start := hss_OnPacketAcked acked_packet_number (tc_hybrid_slow_start s2)\<rparr>
              else s2)"

definition tc_check_slow_start :: "bool \<Rightarrow> rtt_stats \<Rightarrow> tcp_cubic_sender \<Rightarrow> tcp_cubic_sender" where
  "tc_check_slow_start rtt_updated rtt s =
     (if rtt_updated \<and> tc_InSlowStart s
      then
        let (exit, h) = ShouldExitSlowStart (rtt_latest rtt) (rtt_min rtt)
                          (tc_GetCongestionWindow s div kDefaultTCPMSS) (tc_hybrid_slow_start s);
            s1 = s\<lparr>tc_hybrid_slow_start := h\<rparr>
        in if exit then tc_ExitSlowstart s1 else s1
      else s)"

definition tc_losses :: "byte_count \<Rightarrow> lost_packet list \<Rightarrow> tcp_cubic_sender \<Rightarrow> tcp_cubic_sender" where
  "tc_losses prior_in_flight lost s =
     fold (\<lambda>p. tc_OnPacketLost (lp_packet_number p) (ucast (lp_bytes_lost p)) prior_in_flight) lost s"

definition tc_acks ::
  "(rat \<Rightarrow> rat) \<Rightarrow> rtt_stats \<Rightarrow> byte_count \<Rightarrow> quic_time \<Rightarrow> acked_packet list \<Rightarrow> tcp_cubic_sender \<Rightarrow> tcp_cubic_sender" where
  "tc_acks cbrt rtt prior_in_flight event_time acked s =
     fold (\<lambda>p. tc_OnPacketAcked cbrt rtt (ap_packet_number p) (ucast (ap_bytes_acked p)) prior_in_flight event_time)
       acked s"

definition tc_OnCongestionEvent ::
  "(rat \<Rightarrow> rat) \<Rightarrow> bool \<Rightarrow> rtt_stats \<Rightarrow> byte_count \<Rightarrow> quic_time \<Rightarrow> acked_packet list \<Rightarrow> lost_packet list \<Rightarrow>
   tcp_cubic_sender \<Rightarrow> tcp_cubic_sender" where
  "tc_OnCongestionEvent cbrt rtt_updated rtt prior_in_flight event_time acked lost s =
     tc_acks cbrt rtt prior_in_flight event_time acked
       (tc_losses prior_in_flight lost (tc_check_slow_start rtt_updated rtt s))"

definition tc_OnPacketSent :: "packet_number \<Rightarrow> byte_count \<Rightarrow> bool \<Rightarrow> tcp_cubic_sender \<Rightarrow> tcp_cubic_sender" where
  "tc_OnPacketSent packet_number bytes retransmittable s =
     (let s1 = (if tc_InSlowStart s
                then s\<lparr>tc_stats := (tc_stats s)\<lparr>cs_slowstart_packets_sent :=
                                                  cs_slowstart_packets_sent (tc_stats s) + 1\<rparr>\<rparr>
                else s)
      in if \<not> retransmittable then s1
         else
           let s2 = (if tc_InRecovery s1 then s1\<lparr>tc_prr := prr_OnPacketSent bytes (tc_prr s1)\<rparr> else s1)
           in s2\<lparr>tc_largest_sent := packet_number,
                 tc_hybrid_slow_start := hss_OnPacketSent packet_number (tc_hybrid_slow_start s2)\<rparr>)"

definition tc_CanSend :: "byte_count \<Rightarrow> tcp_cubic_sender \<Rightarrow> bool" where
  "tc_CanSend bytes_in_flight s =
     (if \<not> tc_no_prr s \<and> tc_InRecovery s
      then prr_CanSend (tc_GetCongestionWindow s) bytes_in_flight (tc_GetSlowStartThreshold s) (tc_prr s)
      else if tc_GetCongestionWindow s > bytes_in_flight then True
      else if tc_min4_mode s \<and> bytes_in_flight < 4 * kDefaultTCPMSS then True
      else False)"

definition tc_PacingRate :: "rtt_stats \<Rightarrow> tcp_cubic_sender \<Rightarrow> bandwidth result" where
  "tc_PacingRate rtt s =
     (case FromBytesAndTimeDelta (tc_GetCongestionWindow s) (SmoothedOrInitialRtt rtt) of
        Inl e \<Rightarrow> Inl e
      | Inr bw \<Rightarrow> Inr (bandwidth_mult bw (if tc_InSlowStart s then 2
                                         else if tc_no_prr s \<and> tc_InRecovery s then 1 else 5/4)))"

definition tc_BandwidthEstimate :: "rtt_stats \<Rightarrow> tcp_cubic_sender \<Rightarrow> bandwidth result" where
  "tc_BandwidthEstimate rtt s =
     (if Delta_IsZero (rtt_smoothed rtt) then Inr (mk_bandwidth 0)
      else FromBytesAndTimeDelta (tc_GetCongestionWindow s) (rtt_smoothed rtt))"

definition tc_HandleRetransmissionTimeout :: "tcp_cubic_sender \<Rightarrow> tcp_cubic_sender" where
  "tc_HandleRetransmissionTimeout s =
     s\<lparr>tc_cubic := ResetCubicState (tc_cubic s), tc_ssthresh := tc_cwnd s div 2, tc_cwnd := tc_min_cwnd s\<rparr>"

definition tc_OnRetransmissionTimeout :: "bool \<Rightarrow> tcp_cubic_sender \<Rightarrow> tcp_cubic_sender" where
  "tc_OnRetransmissionTimeout packets_retransmitted s =
     (let s1 = s\<lparr>tc_largest_sent_at_last_cutback := pn_Clear (tc_largest_sent_at_last_cutback s)\<rparr>
      in if \<not> packets_retransmitted then s1
         else tc_HandleRetransmissionTimeout
                (s1\<lparr>tc_hybrid_slow_start := hss_Restart (tc_hybrid_slow_start s1)\<rparr>))"

definition tc_OnConnectionMigration :: "tcp_cubic_sender \<Rightarrow> tcp_cubic_sender" where
  "tc_OnConnectionMigration s =
     s\<lparr>tc_hybrid_slow_start := hss_Restart (tc_hybrid_slow_start s), tc_prr := PrrSender_new,
       tc_largest_sent := pn_Clear (tc_largest_sent s), tc_largest_acked := pn_Clear (tc_largest_acked s),
       tc_largest_sent_at_last_cutback := pn_Clear (tc_largest_sent_at_last_cutback s),
       tc_last_cutback_exited_slowstart := False, tc_cubic := ResetCubicState (tc_cubic s),
       tc_num_acked_packets := 0, tc_cwnd := tc_initial_cwnd s, tc_max_cwnd := tc_initial_max_cwnd s,
       tc_ssthresh := tc_initial_max_cwnd s\<rparr>"

datatype tc_call =
    TcSetFromConfig bool "connection_option list option" perspective
  | TcAdjustNetworkParameters bandwidth delta
  | TcSetNumEmulatedConnections int
  | TcSetInitial packet_count
  | TcSent packet_number byte_count bool
  | TcCongestion bool rtt_stats byte_count quic_time "acked_packet list" "lost_packet list"
  | TcTimeout bool
  | TcMigration

fun tc_step :: "(rat \<Rightarrow> rat) \<Rightarrow> tc_call \<Rightarrow> tcp_cubic_sender \<Rightarrow> tcp_cubic_sender result" where
  "tc_step cbrt (TcSetFromConfig unified received perspective) s = Inr (tc_SetFromConfig unified received perspective s)"
| "tc_step cbrt (TcAdjustNetworkParameters bandwidth rtt) s = Inr (tc_AdjustNetworkParameters bandwidth rtt s)"
| "tc_step cbrt (TcSetNumEmulatedConnections n) s = Inr (tc_SetNumEmulatedConnections n s)"
| "tc_step cbrt (TcSetInitial n) s = Inr (tc_SetInitialCongestionWindowInPackets n s)"
| "tc_step cbrt (TcSent p b r) s = Inr (tc_OnPacketSent p b r s)"
| "tc_step cbrt (TcCongestion u rtt prior t acked lost) s = Inr (tc_OnCongestionEvent cbrt u rtt prior t acked lost s)"
| "tc_step cbrt (TcTimeout r) s = Inr (tc_OnRetransmissionTimeout r s)"
| "tc_step cbrt TcMigration s = Inr (tc_OnConnectionMigration s)"

subsection \<open>The invariant\<close>

definition tc_inv :: "tcp_cubic_sender \<Rightarrow> bool" where
  "tc_inv s \<longleftrightarrow>
     (tc_min_cwnd s = 1460 \<or> tc_min_cwnd s = 2920) \<and> tc_min_cwnd s \<le> tc_cwnd s \<and>
     292000 \<le> uint (tc_max_cwnd s) \<and> uint (tc_max_cwnd s) < 2 ^ 58 \<and> uint (tc_cwnd s) < uint (tc_max_cwnd s) + 1460 \<and>
     tc_initial_max_cwnd s = tc_max_cwnd s \<and> tc_min_cwnd s \<le> tc_initial_cwnd s \<and> tc_initial_cwnd s \<le> tc_max_cwnd s \<and>
     tc_min_cwnd s \<le> tc_min_slow_start_exit_window s \<and>
     uint (tc_min_slow_start_exit_window s) < uint (tc_max_cwnd s) + 1460 \<and>
     (tc_num_connections s = 1 \<or> tc_num_connections s = 2) \<and> cubic_ok (uint (tc_min_cwnd s)) (tc_cubic s)"

text \<open>The part of a state that the invariant reads.\<close>

lemma tc_inv_cong:
  assumes "tc_min_cwnd s' = tc_min_cwnd s" "tc_cwnd s' = tc_cwnd s" "tc_max_cwnd s' = tc_max_cwnd s"
    "tc_initial_max_cwnd s' = tc_initial_max_cwnd s" "tc_initial_cwnd s' = tc_initial_cwnd s"
    "tc_min_slow_start_exit_window s' = tc_min_slow_start_exit_window s"
    "tc_num_connections s' = tc_num_connections s" "tc_cubic s' = tc_cubic s"
  shows "tc_inv s' = tc_inv s"
  unfolding tc_inv_def assms ..

text \<open>What the caller owes: packets of at most a segment, window settings between four packets and
  the maximum, at most two emulated connections, and a Reno estimate below \<open>2\<^sup>6\<^sup>0\<close> bytes.\<close>

fun tc_acks_ok :: "(rat \<Rightarrow> rat) \<Rightarrow> rtt_stats \<Rightarrow> byte_count \<Rightarrow> quic_time \<Rightarrow> acked_packet list \<Rightarrow> tcp_cubic_sender \<Rightarrow> bool" where
  "tc_acks_ok cbrt rtt prior t [] s \<longleftrightarrow> True"
| "tc_acks_ok cbrt rtt prior t (p # ps) s \<longleftrightarrow>
     uint (ap_bytes_acked p) \<le> 1460 \<and> uint (cb_estimated_tcp_congestion_window (tc_cubic s)) < 2 ^ 60 \<and>
     tc_acks_ok cbrt rtt prior t ps
       (tc_OnPacketAcked cbrt rtt (ap_packet_number p) (ucast (ap_bytes_acked p)) prior t s)"

fun tc_ok :: "(rat \<Rightarrow> rat) \<Rightarrow> tc_call \<Rightarrow> tcp_cubic_sender \<Rightarrow> bool" where
  "tc_ok cbrt (TcSetNumEmulatedConnections n) s \<longleftrightarrow> n \<le> 2"
| "tc_ok cbrt (TcSetInitial n) s \<longleftrightarrow> 5840 \<le> n * kDefaultTCPMSS \<and> n * kDefaultTCPMSS \<le> tc_max_cwnd s"
| "tc_ok cbrt (TcCongestion u rtt prior t acked lost) s \<longleftrightarrow>
     list_all (\<lambda>p. uint (lp_bytes_lost p) \<le> 1460) lost \<and>
     tc_acks_ok cbrt rtt prior t acked (tc_losses prior lost (tc_check_slow_start u rtt s))"
| "tc_ok cbrt _ s \<longleftrightarrow> True"

subsection \<open>Losses\<close>

lemma tc_RenoBeta_bounds:
  assumes "tc_num_connections s = 1 \<or> tc_num_connections s = 2"
  shows "68/100 \<le> tc_RenoBeta s" "tc_RenoBeta s \<le> 86/100"
proof -
  let ?c = "CubicBytes_new\<lparr>cb_num_connections := uint (tc_num_connections s)\<rparr>"
  have "cubic_conns ?c" using assms by (auto simp: cubic_conns_def)
  moreover have "uint (tc_num_connections s - 1) = uint (tc_num_connections s) - 1" using assms by auto
  then have "tc_RenoBeta s = cubic_Beta ?c"
    by (simp add: tc_RenoBeta_def cubic_Beta_def kRenoBeta_def kDefaultCubicBackoffFactor_def)
  ultimately show "68/100 \<le> tc_RenoBeta s" "tc_RenoBeta s \<le> 86/100"
    using cubic_Beta_bounds [of ?c] by simp_all
qed

lemma tc_reno_reduction:
  assumes "tc_num_connections s = 1 \<or> tc_num_connections s = 2"
  shows "uint (of_int (ctrunc (f32 (f32 (of_int (uint (tc_cwnd s))) * tc_RenoBeta s))) :: byte_count) \<le> uint (tc_cwnd s)"
proof -
  define x where "x = f32 (f32 (of_int (uint (tc_cwnd s))) * tc_RenoBeta s)"
  have "(0::rat) \<le> 68/100" by simp
  note s = cubic_scaled_bounds [OF this tc_RenoBeta_bounds [OF assms] x_def]
  have "uint (of_int (ctrunc x) :: u64) = ctrunc x"
    using s(2,3) uint_lt2p [of "tc_cwnd s"] by (simp add: uint_word_of_int mod_pos_pos_trivial)
  then show ?thesis using s(2) by (simp only: x_def)
qed

lemma u64_half: "uint ((w::u64) div 2) = uint w div 2"
  by (simp add: uint_div)

lemma u64_half_le: "uint ((w::u64) div 2) \<le> uint w"
  using zdiv_mono2 [of "uint w" 1 2] by (simp add: uint_div)

lemma tc_reduce_frame:
  "tc_min_cwnd (tc_reduce s) = tc_min_cwnd s" "tc_max_cwnd (tc_reduce s) = tc_max_cwnd s"
  "tc_initial_max_cwnd (tc_reduce s) = tc_initial_max_cwnd s" "tc_initial_cwnd (tc_reduce s) = tc_initial_cwnd s"
  "tc_num_connections (tc_reduce s) = tc_num_connections s" "tc_largest_sent (tc_reduce s) = tc_largest_sent s"
  "tc_slow_start_large_reduction (tc_reduce s) = tc_slow_start_large_reduction s"
  by (simp_all add: tc_reduce_def Let_def case_prod_beta)

lemma tc_reduce_window:
  assumes "tc_inv s"
  shows "uint (tc_cwnd (tc_reduce s)) \<le> uint (tc_cwnd s)"
proof -
  have "kDefaultTCPMSS \<le> tc_cwnd s"
    using assms by (auto simp: tc_inv_def kDefaultTCPMSS_def word_le_def)
  then have "uint (tc_cwnd s - kDefaultTCPMSS) \<le> uint (tc_cwnd s)"
    by (simp add: uint_sub_le)
  then show ?thesis
    using assms tc_reno_reduction [of s] cubic_loss_le [of "tc_cubic s" "tc_cwnd s"]
    by (simp add: tc_reduce_def Let_def case_prod_beta tc_inv_def cubic_ok_def)
qed

lemma tc_reduce_exit_window:
  assumes "tc_inv s"
  shows "tc_min_cwnd s \<le> tc_min_slow_start_exit_window (tc_reduce s)"
    "uint (tc_min_slow_start_exit_window (tc_reduce s)) < uint (tc_max_cwnd s) + 1460"
proof -
  have i: "tc_min_cwnd s \<le> tc_initial_cwnd s" "uint (tc_initial_cwnd s) \<le> uint (tc_max_cwnd s)" "uint (tc_max_cwnd s) < 2 ^ 58"
    using assms by (auto simp: tc_inv_def word_le_def)
  have "uint (tc_min_cwnd s) \<le> uint (tc_cwnd s div 2)" if "2 * tc_initial_cwnd s \<le> tc_cwnd s"
  proof -
    have "uint (2 * tc_initial_cwnd s) = 2 * uint (tc_initial_cwnd s)"
      using i by (subst uint_mult_u64) simp_all
    then have "2 * uint (tc_initial_cwnd s) \<le> uint (tc_cwnd s)" using that by (simp add: word_le_def)
    then show ?thesis using i(1) unfolding u64_half by (simp add: word_le_def)
  qed
  then show "tc_min_cwnd s \<le> tc_min_slow_start_exit_window (tc_reduce s)"
    "uint (tc_min_slow_start_exit_window (tc_reduce s)) < uint (tc_max_cwnd s) + 1460"
    using assms u64_half_le [of "tc_cwnd s"]
    by (auto simp: tc_reduce_def Let_def case_prod_beta tc_inv_def word_le_def)
qed

lemma tc_reduce_cubic:
  "cubic_ok m (tc_cubic s) \<Longrightarrow> cubic_ok m (tc_cubic (tc_reduce s))"
  by (auto simp: tc_reduce_def Let_def case_prod_beta cubic_loss_ok)

lemma tc_lost_new_inv:
  assumes "tc_inv s"
  shows "tc_inv (tc_lost_new prior s)"
    and "tc_cwnd (tc_lost_new prior s) \<le> tc_cwnd s"
    and "tc_largest_sent_at_last_cutback (tc_lost_new prior s) = tc_largest_sent s"
    and "tc_largest_sent (tc_lost_new prior s) = tc_largest_sent s"
    and "tc_slow_start_large_reduction (tc_lost_new prior s) = tc_slow_start_large_reduction s"
proof -
  define s3 where "s3 = (let s1 = s\<lparr>tc_stats := (tc_stats s)\<lparr>cs_tcp_loss_events := cs_tcp_loss_events (tc_stats s) + 1\<rparr>,
                 tc_last_cutback_exited_slowstart := tc_InSlowStart s\<rparr>;
          s2 = (if tc_InSlowStart s1
                then s1\<lparr>tc_stats := (tc_stats s1)\<lparr>cs_slowstart_packets_lost :=
                                                    cs_slowstart_packets_lost (tc_stats s1) + 1\<rparr>\<rparr>
                else s1)
      in if \<not> tc_no_prr s2 then s2\<lparr>tc_prr := prr_OnPacketLost prior (tc_prr s2)\<rparr> else s2)"
  have f: "tc_inv s3 = tc_inv s" by (rule tc_inv_cong) (simp_all add: s3_def Let_def)
  have f': "tc_cwnd s3 = tc_cwnd s" "tc_min_cwnd s3 = tc_min_cwnd s" "tc_max_cwnd s3 = tc_max_cwnd s"
     "tc_largest_sent s3 = tc_largest_sent s" "tc_slow_start_large_reduction s3 = tc_slow_start_large_reduction s"
    by (simp_all add: s3_def Let_def)
  have i: "tc_inv s3" using f assms by simp
  define s4 where "s4 = tc_reduce s3"
  define s5 where "s5 = (if tc_cwnd s4 < tc_min_cwnd s4 then s4\<lparr>tc_cwnd := tc_min_cwnd s4\<rparr> else s4)"
  have e: "tc_lost_new prior s = s5\<lparr>tc_ssthresh := tc_cwnd s5, tc_largest_sent_at_last_cutback := tc_largest_sent s5,
            tc_num_acked_packets := 0\<rparr>"
    by (simp add: tc_lost_new_def s3_def s4_def s5_def Let_def)
  have w: "uint (tc_cwnd s4) \<le> uint (tc_cwnd s)" using tc_reduce_window [OF i] f' by (simp add: s4_def)
  have m: "uint (tc_min_cwnd s) \<le> uint (tc_cwnd s)" using assms by (simp add: tc_inv_def word_le_def)
  have s5: "tc_min_cwnd s \<le> tc_cwnd s5" "uint (tc_cwnd s5) \<le> uint (tc_cwnd s)"
    using w m f' by (auto simp: s5_def s4_def tc_reduce_frame word_le_def word_less_def)
  show "tc_cwnd (tc_lost_new prior s) \<le> tc_cwnd s" using s5 by (simp add: e word_le_def)
  show "tc_largest_sent_at_last_cutback (tc_lost_new prior s) = tc_largest_sent s"
    "tc_largest_sent (tc_lost_new prior s) = tc_largest_sent s"
    "tc_slow_start_large_reduction (tc_lost_new prior s) = tc_slow_start_large_reduction s"
    by (simp_all add: e s5_def s4_def tc_reduce_frame f')
  have g: "tc_min_cwnd s5 = tc_min_cwnd s3" "tc_max_cwnd s5 = tc_max_cwnd s3" "tc_initial_max_cwnd s5 = tc_initial_max_cwnd s3"
    "tc_initial_cwnd s5 = tc_initial_cwnd s3" "tc_num_connections s5 = tc_num_connections s3"
    "tc_min_slow_start_exit_window s5 = tc_min_slow_start_exit_window s4" "tc_cubic s5 = tc_cubic s4"
    by (simp_all add: s5_def s4_def tc_reduce_frame)
  have "tc_inv s5"
    using i s5 tc_reduce_exit_window [OF i] tc_reduce_cubic [of "uint (tc_min_cwnd s3)" s3] f'
    unfolding tc_inv_def g by (auto simp: s4_def)
  then show "tc_inv (tc_lost_new prior s)" unfolding e by (subst tc_inv_cong [of _ s5]) simp_all
qed

lemma tc_lost_again_inv:
  assumes "tc_inv s" "uint b \<le> 1460"
  shows "tc_inv (tc_lost_again b s)"
    and "tc_largest_sent_at_last_cutback (tc_lost_again b s) = tc_largest_sent_at_last_cutback s"
    and "\<not> tc_slow_start_large_reduction s \<Longrightarrow> tc_cwnd (tc_lost_again b s) = tc_cwnd s"
    and "tc_slow_start_large_reduction (tc_lost_again b s) = tc_slow_start_large_reduction s"
proof -
  have "b \<le> tc_cwnd s" using assms by (auto simp: tc_inv_def word_le_def)
  then have "uint (tc_cwnd s - b) \<le> uint (tc_cwnd s)" by (simp add: uint_sub_le)
  then have "uint (max (tc_cwnd s - b) (tc_min_slow_start_exit_window s)) < uint (tc_max_cwnd s) + 1460"
    "tc_min_cwnd s \<le> max (tc_cwnd s - b) (tc_min_slow_start_exit_window s)"
    using assms(1) by (auto simp: tc_inv_def max_def word_le_def)
  then show "tc_inv (tc_lost_again b s)" using assms(1)
    by (simp add: tc_lost_again_def Let_def tc_inv_def)
  show "tc_largest_sent_at_last_cutback (tc_lost_again b s) = tc_largest_sent_at_last_cutback s"
    "\<not> tc_slow_start_large_reduction s \<Longrightarrow> tc_cwnd (tc_lost_again b s) = tc_cwnd s"
    "tc_slow_start_large_reduction (tc_lost_again b s) = tc_slow_start_large_reduction s"
    by (simp_all add: tc_lost_again_def Let_def)
qed

lemma tc_losses_inv:
  "tc_inv s \<Longrightarrow> list_all (\<lambda>p. uint (lp_bytes_lost p) \<le> 1460) lost \<Longrightarrow> tc_inv (tc_losses prior lost s)"
proof (induction lost arbitrary: s)
  case (Cons p lost)
  have "tc_inv (tc_OnPacketLost (lp_packet_number p) (ucast (lp_bytes_lost p)) prior s)"
    using Cons.prems tc_lost_new_inv(1) tc_lost_again_inv(1) by (simp add: tc_OnPacketLost_def uint_ucast_u16)
  then show ?case using Cons by (simp add: tc_losses_def)
qed (simp add: tc_losses_def)

subsection \<open>Acks and the other calls\<close>

lemma tc_increase_inv:
  assumes "tc_inv s" "uint a \<le> 1460" "uint (cb_estimated_tcp_congestion_window (tc_cubic s)) < 2 ^ 60"
  shows "tc_inv (tc_MaybeIncreaseCwnd cbrt rtt a prior t s)"
proof -
  have i: "tc_min_cwnd s = 1460 \<or> tc_min_cwnd s = 2920" "tc_min_cwnd s \<le> tc_cwnd s" "uint (tc_max_cwnd s) < 2 ^ 58"
    "uint (tc_cwnd s) < uint (tc_max_cwnd s) + 1460" "292000 \<le> uint (tc_max_cwnd s)"
    "cubic_ok (uint (tc_min_cwnd s)) (tc_cubic s)"
    using assms(1) by (auto simp: tc_inv_def)
  define r where "r = CongestionWindowAfterAck cbrt a (tc_cwnd s) (rtt_min rtt) t (tc_cubic s)"
  have m: "2 \<le> uint (tc_min_cwnd s)" "uint (tc_min_cwnd s) < 16777216" "uint a \<le> uint (tc_min_cwnd s)"
    "uint (tc_min_cwnd s) \<le> uint (tc_max_cwnd s)"
    using i assms(2) by auto
  have r: "uint (tc_min_cwnd s) \<le> uint (fst r)" "cubic_ok (uint (tc_min_cwnd s)) (snd r)"
    using cubic_ack_floor [OF i(6) _ m(1,2) _ assms(3) m(3), of "tc_cwnd s"] i by (simp_all add: r_def word_le_def)
  have mm: "tc_min_cwnd s \<le> min (tc_max_cwnd s) (fst r)" "uint (min (tc_max_cwnd s) (fst r)) < uint (tc_max_cwnd s) + 1460"
    using r m by (auto simp: min_def word_le_def)
  have add: "tc_min_cwnd s \<le> tc_cwnd s + kDefaultTCPMSS \<and> uint (tc_cwnd s + kDefaultTCPMSS) < uint (tc_max_cwnd s) + 1460"
    if "\<not> tc_max_cwnd s \<le> tc_cwnd s"
  proof -
    have "uint (tc_cwnd s + kDefaultTCPMSS) = uint (tc_cwnd s) + 1460"
      using i that by (simp add: uint_add_u64 kDefaultTCPMSS_def word_le_def)
    then show ?thesis using i that by (simp add: word_le_def)
  qed
  have "tc_MaybeIncreaseCwnd cbrt rtt a prior t s =
    (if \<not> tc_IsCwndLimited prior s then s\<lparr>tc_cubic := cubic_OnApplicationLimited (tc_cubic s)\<rparr>
      else if tc_cwnd s \<ge> tc_max_cwnd s then s
      else if tc_InSlowStart s then s\<lparr>tc_cwnd := tc_cwnd s + kDefaultTCPMSS\<rparr>
      else if tc_reno s
      then if (tc_num_acked_packets s + 1) * ucast (tc_num_connections s) \<ge> tc_cwnd s div kDefaultTCPMSS
           then s\<lparr>tc_num_acked_packets := 0, tc_cwnd := tc_cwnd s + kDefaultTCPMSS\<rparr>
           else s\<lparr>tc_num_acked_packets := tc_num_acked_packets s + 1\<rparr>
      else s\<lparr>tc_cwnd := min (tc_max_cwnd s) (fst r), tc_cubic := snd r\<rparr>)"
    by (simp add: tc_MaybeIncreaseCwnd_def Let_def case_prod_beta r_def)
  then show ?thesis using assms(1) mm add r(2) cubic_limited_ok by (auto simp: tc_inv_def)
qed

lemma tc_acked_inv:
  assumes "tc_inv s" "uint a \<le> 1460" "uint (cb_estimated_tcp_congestion_window (tc_cubic s)) < 2 ^ 60"
  shows "tc_inv (tc_OnPacketAcked cbrt rtt p a prior t s)"
proof -
  define s1 where "s1 = s\<lparr>tc_largest_acked := pn_UpdateMax p (tc_largest_acked s)\<rparr>"
  define s2 where "s2 = tc_MaybeIncreaseCwnd cbrt rtt a prior t s1"
  have i: "tc_inv s1" using assms(1) by (subst tc_inv_cong [of _ s]) (simp_all add: s1_def)
  have i2: "tc_inv s2" unfolding s2_def by (rule tc_increase_inv [OF i assms(2)]) (use assms(3) in \<open>simp add: s1_def\<close>)
  have "tc_inv (s1\<lparr>tc_prr := x\<rparr>) = tc_inv s1" "tc_inv (s2\<lparr>tc_hybrid_slow_start := h\<rparr>) = tc_inv s2" for x h
    by (rule tc_inv_cong; simp)+
  then show ?thesis using i i2 by (simp add: tc_OnPacketAcked_def Let_def s1_def s2_def)
qed

lemma tc_acks_inv: "tc_inv s \<Longrightarrow> tc_acks_ok cbrt rtt prior t acked s \<Longrightarrow> tc_inv (tc_acks cbrt rtt prior t acked s)"
proof (induction acked arbitrary: s)
  case (Cons p ps)
  then show ?case using tc_acked_inv [of s "ucast (ap_bytes_acked p)"]
    by (simp add: tc_acks_def uint_ucast_u16)
qed (simp add: tc_acks_def)

lemma tc_check_inv: "tc_inv s \<Longrightarrow> tc_inv (tc_check_slow_start u rtt s)"
  by (subst tc_inv_cong [of _ s]) (simp_all add: tc_check_slow_start_def tc_ExitSlowstart_def Let_def case_prod_beta)

lemma tc_set_initial_inv:
  assumes "tc_inv s" "2920 \<le> n * kDefaultTCPMSS" "n * kDefaultTCPMSS \<le> tc_max_cwnd s"
  shows "tc_inv (tc_SetInitialCongestionWindowInPackets n s)"
  using assms by (auto simp: tc_SetInitialCongestionWindowInPackets_def tc_inv_def word_le_def)

lemma cubic_ok_mono: "cubic_ok m c \<Longrightarrow> m' \<le> m \<Longrightarrow> cubic_ok m' c"
  by (auto simp: cubic_ok_def)

lemma tc_set_min_inv: "tc_inv s \<Longrightarrow> tc_inv (tc_SetMinCongestionWindowInPackets 1 s)"
  using cubic_ok_mono [of "uint (tc_min_cwnd s)" "tc_cubic s" 1460]
  by (auto simp: tc_SetMinCongestionWindowInPackets_def tc_inv_def kDefaultTCPMSS_def word_le_def)

lemma tc_config_inv:
  assumes "tc_inv s"
  shows "tc_inv (tc_SetFromConfig u received persp s)"
proof -
  have max: "tc_max_cwnd (tc_SetInitialCongestionWindowInPackets n x) = tc_max_cwnd x" for n x
    by (simp add: tc_SetInitialCongestionWindowInPackets_def)
  have iw: "tc_inv (tc_SetInitialCongestionWindowInPackets n x)"
    if "tc_inv x" "n \<in> {3, 10, 20, 50}" for n x
    using that by (intro tc_set_initial_inv) (auto simp: tc_inv_def kDefaultTCPMSS_def word_le_def)
  have fl: "tc_inv (x\<lparr>tc_min4_mode := b\<rparr>) = tc_inv x" "tc_inv (x\<lparr>tc_slow_start_large_reduction := b\<rparr>) = tc_inv x"
    "tc_inv (x\<lparr>tc_no_prr := b\<rparr>) = tc_inv x" for x b
    by (rule tc_inv_cong; simp)+
  show ?thesis using assms iw by (simp add: tc_SetFromConfig_def Let_def fl tc_set_min_inv)
qed

lemma tc_bandwidth_inv: "tc_inv s \<Longrightarrow> tc_inv (tc_AdjustNetworkParameters bw rtt s)"
proof -
  assume i: "tc_inv s"
  let ?w = "max (tc_min_cwnd s) (min (ToBytesPerPeriod bw rtt) (kMaxResumptionCongestionWindow * kDefaultTCPMSS))"
  have "kMaxResumptionCongestionWindow * kDefaultTCPMSS = 292000"
    by (simp add: kMaxResumptionCongestionWindow_def kDefaultTCPMSS_def)
  then have "tc_min_cwnd s \<le> ?w" "uint ?w < uint (tc_max_cwnd s) + 1460"
    using i by (auto simp: tc_inv_def max_def min_def word_le_def)
  then show ?thesis using i
    by (simp add: tc_AdjustNetworkParameters_def tc_SetCongestionWindowFromBandwidthAndRtt_def tc_inv_def)
qed

lemma tc_connections_inv: "tc_inv s \<Longrightarrow> n \<le> 2 \<Longrightarrow> tc_inv (tc_SetNumEmulatedConnections n s)"
proof -
  assume "tc_inv s" "n \<le> 2"
  moreover from this have "max 1 n = 1 \<or> max 1 n = 2" by auto
  ultimately show ?thesis
    by (auto simp: tc_SetNumEmulatedConnections_def tc_inv_def SetNumConnections_def cubic_ok_def cubic_conns_def)
qed

lemma tc_sent_inv: "tc_inv s \<Longrightarrow> tc_inv (tc_OnPacketSent p b r s)"
  by (subst tc_inv_cong [of _ s]) (simp_all add: tc_OnPacketSent_def Let_def)

lemma tc_timeout_inv: "tc_inv s \<Longrightarrow> tc_inv (tc_OnRetransmissionTimeout r s)"
  by (auto simp: tc_OnRetransmissionTimeout_def tc_HandleRetransmissionTimeout_def tc_inv_def Let_def cubic_reset_ok
      cubic_ok_def [of _ "tc_cubic s"])

lemma tc_migration_inv: "tc_inv s \<Longrightarrow> tc_inv (tc_OnConnectionMigration s)"
  by (auto simp: tc_OnConnectionMigration_def tc_inv_def cubic_reset_ok cubic_ok_def [of _ "tc_cubic s"] word_le_def)

lemma tc_step_inv:
  assumes "tc_inv s" "tc_ok cbrt e s"
  shows "\<exists>s'. tc_step cbrt e s = Inr s' \<and> tc_inv s'"
proof (cases e)
  case (TcCongestion u rtt prior t acked lost)
  then show ?thesis
    using tc_acks_inv [OF tc_losses_inv [OF tc_check_inv [OF assms(1)]]] assms(2)
    by (simp add: tc_OnCongestionEvent_def)
next
  case (TcSetInitial n)
  then show ?thesis using assms tc_set_initial_inv [of s n] by (simp add: word_le_def)
qed (use assms in \<open>simp_all add: tc_config_inv tc_bandwidth_inv tc_connections_inv tc_sent_inv tc_timeout_inv
       tc_migration_inv\<close>)

interpretation tcp_cubic: window_sender "tc_step cbrt" "tc_ok cbrt" tc_inv "\<lambda>err. False" tc_GetCongestionWindow 1460
  for cbrt
proof unfold_locales
  show "case tc_step cbrt e s of Inl err \<Rightarrow> False | Inr s' \<Rightarrow> tc_inv s'" if "tc_inv s" "tc_ok cbrt e s" for s e
    using tc_step_inv [OF that] by auto
  show "1460 \<le> tc_GetCongestionWindow s" if "tc_inv s" for s
    using that by (auto simp: tc_inv_def tc_GetCongestionWindow_def word_le_def)
qed

subsection \<open>The maximum window is fixed\<close>

lemma tc_losses_max: "tc_max_cwnd (tc_losses prior lost s) = tc_max_cwnd s"
proof -
  have "tc_max_cwnd (tc_OnPacketLost p b prior s) = tc_max_cwnd s" for p b s
    by (simp add: tc_OnPacketLost_def tc_lost_again_def tc_lost_new_def tc_reduce_frame Let_def)
  then show ?thesis unfolding tc_losses_def by (induction lost arbitrary: s) simp_all
qed

lemma tc_acks_max: "tc_max_cwnd (tc_acks cbrt rtt prior t acked s) = tc_max_cwnd s"
proof -
  have "tc_max_cwnd (tc_MaybeIncreaseCwnd cbrt rtt b prior t s) = tc_max_cwnd s" for b s
    by (simp add: tc_MaybeIncreaseCwnd_def Let_def case_prod_beta)
  then have "tc_max_cwnd (tc_OnPacketAcked cbrt rtt p b prior t s) = tc_max_cwnd s" for p b s
    by (simp add: tc_OnPacketAcked_def Let_def)
  then show ?thesis unfolding tc_acks_def by (induction acked arbitrary: s) simp_all
qed

lemma tc_step_max:
  assumes "tc_inv s" "tc_step cbrt e s = Inr s'"
  shows "tc_max_cwnd s' = tc_max_cwnd s"
proof (cases e)
  case (TcCongestion u rtt prior t acked lost)
  then show ?thesis using assms(2)
    by (auto simp: tc_OnCongestionEvent_def tc_acks_max tc_losses_max tc_check_slow_start_def tc_ExitSlowstart_def
        Let_def case_prod_beta)
next
  case TcMigration
  then show ?thesis using assms by (auto simp: tc_OnConnectionMigration_def tc_inv_def)
next
  case (TcSetFromConfig u r p)
  then show ?thesis using assms(2)
    by (auto simp: tc_SetFromConfig_def tc_SetInitialCongestionWindowInPackets_def
        tc_SetMinCongestionWindowInPackets_def Let_def)
qed (use assms(2) in \<open>auto simp: tc_AdjustNetworkParameters_def tc_SetCongestionWindowFromBandwidthAndRtt_def
      tc_SetNumEmulatedConnections_def tc_SetInitialCongestionWindowInPackets_def tc_OnPacketSent_def
      tc_OnRetransmissionTimeout_def tc_HandleRetransmissionTimeout_def Let_def\<close>)

lemma tc_run_max:
  assumes "tc_inv s" "run_legal (tc_step cbrt) (tc_ok cbrt) es s" "run_calls (tc_step cbrt) es s = Inr s'"
  shows "tc_inv s' \<and> tc_max_cwnd s' = tc_max_cwnd s"
  using assms
proof (induction es arbitrary: s)
  case (Cons e es)
  then obtain s1 where s1: "tc_step cbrt e s = Inr s1" "tc_inv s1" using tc_step_inv [of s cbrt e] by auto
  then show ?case using Cons tc_step_max [of s cbrt e s1] by simp
qed simp

lemma tc_new_inv:
  assumes "4 \<le> uint iw" "uint iw \<le> uint mw" "200 \<le> uint mw" "uint mw * 1460 < 2 ^ 58"
  shows "tc_inv (TcpCubicSenderBytes_new reno iw mw st)"
    "uint (tc_max_cwnd (TcpCubicSenderBytes_new reno iw mw st)) = uint mw * 1460"
proof -
  have m: "uint (mw * 1460) = uint mw * 1460" "uint (iw * 1460) = uint iw * 1460"
    using assms by (subst uint_mult_u64; simp)+
  have "cubic_ok 2920 CubicBytes_new"
    by (simp add: cubic_ok_def cubic_conns_def CubicBytes_new_def ResetCubicState_def kDefaultNumConnections_def
        Time_IsInitialized_def)
  then show "tc_inv (TcpCubicSenderBytes_new reno iw mw st)"
    using assms m by (simp add: tc_inv_def TcpCubicSenderBytes_new_def kDefaultTCPMSS_def
      tc_kDefaultMinimumCongestionWindow_def kDefaultNumConnections_def word_le_def)
  show "uint (tc_max_cwnd (TcpCubicSenderBytes_new reno iw mw st)) = uint mw * 1460"
    using m by (simp add: TcpCubicSenderBytes_new_def kDefaultTCPMSS_def)
qed

subsection \<open>One reduction per round\<close>

text \<open>The packets sent before the last cutback, and a sender that has seen acks of no others.\<close>

definition tc_old :: "packet_number \<Rightarrow> packet_number \<Rightarrow> bool" where
  "tc_old c p \<longleftrightarrow> pn_IsInitialized p \<and> p \<le> c"

definition tc_recovering :: "packet_number \<Rightarrow> tcp_cubic_sender \<Rightarrow> bool" where
  "tc_recovering c s \<longleftrightarrow> \<not> tc_slow_start_large_reduction s \<and> tc_largest_sent_at_last_cutback s = c \<and>
     (pn_IsInitialized (tc_largest_acked s) \<longrightarrow> tc_largest_acked s \<le> c)"

fun tc_old_call :: "packet_number \<Rightarrow> tc_call \<Rightarrow> bool" where
  "tc_old_call c (TcCongestion u rtt prior t acked lost) \<longleftrightarrow>
     list_all (\<lambda>p. tc_old c (ap_packet_number p)) acked \<and> list_all (\<lambda>p. tc_old c (lp_packet_number p)) lost"
| "tc_old_call c _ \<longleftrightarrow> False"

lemma tc_losses_recovering:
  assumes "tc_recovering c s" "pn_IsInitialized c" "list_all (\<lambda>p. tc_old c (lp_packet_number p)) lost"
  shows "tc_recovering c (tc_losses prior lost s) \<and> tc_cwnd (tc_losses prior lost s) = tc_cwnd s"
  using assms
proof (induction lost arbitrary: s)
  case (Cons p lost)
  let ?b = "ucast (lp_bytes_lost p) :: byte_count"
  have "tc_OnPacketLost (lp_packet_number p) ?b prior s = tc_lost_again ?b s"
    using Cons.prems by (simp add: tc_OnPacketLost_def tc_recovering_def tc_old_def)
  moreover have "tc_recovering c (tc_lost_again ?b s)" "tc_cwnd (tc_lost_again ?b s) = tc_cwnd s"
    using Cons.prems(1) by (simp_all add: tc_recovering_def tc_lost_again_def Let_def)
  ultimately show ?case using Cons by (simp add: tc_losses_def)
qed (simp add: tc_losses_def)

lemma tc_acks_recovering:
  assumes "tc_recovering c s" "pn_IsInitialized c" "list_all (\<lambda>p. tc_old c (ap_packet_number p)) acked"
  shows "tc_recovering c (tc_acks cbrt rtt prior t acked s) \<and> tc_cwnd (tc_acks cbrt rtt prior t acked s) = tc_cwnd s"
  using assms
proof (induction acked arbitrary: s)
  case (Cons p acked)
  let ?s = "tc_OnPacketAcked cbrt rtt (ap_packet_number p) (ucast (ap_bytes_acked p)) prior t s"
  define s1 where "s1 = s\<lparr>tc_largest_acked := pn_UpdateMax (ap_packet_number p) (tc_largest_acked s)\<rparr>"
  have r: "tc_recovering c s1"
    using Cons.prems by (auto simp: tc_recovering_def tc_old_def pn_UpdateMax_def s1_def)
  moreover have "tc_InRecovery s1"
    using Cons.prems r by (simp add: tc_InRecovery_def tc_recovering_def tc_old_def s1_def)
  then have "?s = (if \<not> tc_no_prr s1 then s1\<lparr>tc_prr := prr_OnPacketAcked (ucast (ap_bytes_acked p)) (tc_prr s1)\<rparr> else s1)"
    by (simp add: tc_OnPacketAcked_def s1_def Let_def)
  ultimately have "tc_recovering c ?s" "tc_cwnd ?s = tc_cwnd s" by (simp_all add: tc_recovering_def s1_def)
  then show ?case using Cons by (simp add: tc_acks_def)
qed (simp add: tc_acks_def)

lemma tc_run_recovering:
  assumes "tc_recovering c s" "pn_IsInitialized c" "list_all (tc_old_call c) es"
  shows "\<exists>s'. run_calls (tc_step cbrt) es s = Inr s' \<and> tc_recovering c s' \<and> tc_cwnd s' = tc_cwnd s"
  using assms
proof (induction es arbitrary: s)
  case (Cons e es)
  then obtain u rtt prior t acked lost where e: "e = TcCongestion u rtt prior t acked lost"
    and old: "list_all (\<lambda>p. tc_old c (ap_packet_number p)) acked" "list_all (\<lambda>p. tc_old c (lp_packet_number p)) lost"
    by (cases e) auto
  let ?s0 = "tc_check_slow_start u rtt s"
  have "tc_recovering c ?s0" "tc_cwnd ?s0 = tc_cwnd s" using Cons.prems(1)
    by (simp_all add: tc_check_slow_start_def tc_ExitSlowstart_def tc_recovering_def Let_def case_prod_beta)
  then have "tc_recovering c (tc_OnCongestionEvent cbrt u rtt prior t acked lost s) \<and>
      tc_cwnd (tc_OnCongestionEvent cbrt u rtt prior t acked lost s) = tc_cwnd s"
    using Cons.prems(2) tc_losses_recovering [of c ?s0] tc_acks_recovering [of c "tc_losses prior lost ?s0"] old
    by (simp add: tc_OnCongestionEvent_def)
  then show ?case using Cons.IH [of "tc_OnCongestionEvent cbrt u rtt prior t acked lost s"] Cons.prems by (simp add: e)
qed simp

text \<open>A Reno sender as the factory makes it.\<close>

definition tc_sample :: tcp_cubic_sender where
  "tc_sample = TcpCubicSenderBytes_new True 32 2000
     \<lparr>cs_slowstart_count = 0, cs_slowstart_packets_sent = 0, cs_slowstart_packets_lost = 0, cs_slowstart_bytes_lost = 0,
      cs_slowstart_duration = TimeAccumulator_new, cs_tcp_loss_events = 0\<rparr>"

subsection \<open>Properties\<close>





end
