(* ===== verification/Alarm_Engine.thy ===== *)
theory Alarm_Engine
  imports Call_Runs Quic_Time
begin

text \<open>
  The alarms of a connection: \<open>QuicAlarm\<close> (\<open>quic_alarm.cc\<close>) and their engine on the simulator's
  event queue, \<open>Ns3QuicAlarmEngine\<close>, \<open>BaseAlarm\<close> and \<open>Ns3Alarm\<close> (\<open>ns3-quic-alarm-engine.cc\<close>). An alarm is known by
  a number. The engine's \<open>std::multimap\<close> is the list of its nodes in iteration order; every
  node has an identity, and an iterator is that identity, so that the use of an iterator
  whose node was erased is an error of the model. The simulator is the current time, in
  microseconds, and the one event the engine has scheduled. What the delegate of an alarm does when it
  fires is an argument: the list of calls it makes on the alarms of the engine.
  \<open>QUICHE_DCHECK\<close> and \<open>NS_ASSERT\<close> are modelled as in a debug build.
\<close>

record alarm =
  al_deadline :: quic_time
  al_engine :: bool
  al_registered :: bool
  al_token :: nat

record alarm_node =
  nd_time :: int
  nd_id :: nat
  nd_cb :: nat

record alarm_engine =
  ae_all_alarms :: "nat set"
  ae_alarm_map :: "alarm_node list"
  ae_visitor :: bool
  ae_timer :: "int option"
  ae_next_id :: nat

text \<open>The calls that leave the engine: the delegate of an alarm, with the deadline the alarm had, and the visitor.\<close>

datatype alarm_event = Fired int nat quic_time | PostProcessing int

record alarm_world =
  aw_now :: int
  aw_engine :: alarm_engine
  aw_alarms :: "nat \<Rightarrow> alarm"
  aw_log :: "alarm_event list"

subsection \<open>\<open>Ns3QuicAlarmEngine\<close>\<close>

definition Ns3QuicAlarmEngine_new :: alarm_engine where
  "Ns3QuicAlarmEngine_new =
     \<lparr>ae_all_alarms = {}, ae_alarm_map = [], ae_visitor = False, ae_timer = None, ae_next_id = 0\<rparr>"

definition ae_set_visitor :: "bool \<Rightarrow> alarm_engine \<Rightarrow> alarm_engine" where
  "ae_set_visitor visitor eng = eng\<lparr>ae_visitor := visitor\<rparr>"

text \<open>\<open>std::multimap\<close>: a new node goes behind the nodes of the same key.\<close>

fun mm_insert :: "alarm_node \<Rightarrow> alarm_node list \<Rightarrow> alarm_node list" where
  "mm_insert n [] = [n]"
| "mm_insert n (m # ms) = (if nd_time n < nd_time m then n # m # ms else m # mm_insert n ms)"

definition mm_find :: "nat \<Rightarrow> alarm_node list \<Rightarrow> alarm_node option" where
  "mm_find i ms = find (\<lambda>m. nd_id m = i) ms"

definition mm_erase :: "nat \<Rightarrow> alarm_node list \<Rightarrow> alarm_node list" where
  "mm_erase i ms = filter (\<lambda>m. nd_id m \<noteq> i) ms"

abbreviation ae_map :: "alarm_world \<Rightarrow> alarm_node list" where
  "ae_map w \<equiv> ae_alarm_map (aw_engine w)"

definition ae_set_map :: "alarm_node list \<Rightarrow> alarm_world \<Rightarrow> alarm_world" where
  "ae_set_map ms w = w\<lparr>aw_engine := (aw_engine w)\<lparr>ae_alarm_map := ms\<rparr>\<rparr>"

definition ae_set_timer :: "int option \<Rightarrow> alarm_world \<Rightarrow> alarm_world" where
  "ae_set_timer t w = w\<lparr>aw_engine := (aw_engine w)\<lparr>ae_timer := t\<rparr>\<rparr>"

definition ae_erase_alarm :: "nat \<Rightarrow> alarm_world \<Rightarrow> alarm_world" where
  "ae_erase_alarm a w = w\<lparr>aw_engine := (aw_engine w)\<lparr>ae_all_alarms := ae_all_alarms (aw_engine w) - {a}\<rparr>\<rparr>"

text \<open>A new node for the alarm: the node gets the next identity.\<close>

definition ae_insert_node :: "int \<Rightarrow> nat \<Rightarrow> alarm_world \<Rightarrow> nat \<times> alarm_world" where
  "ae_insert_node timeout_us a w =
     (let i = ae_next_id (aw_engine w)
      in (i, w\<lparr>aw_engine := (aw_engine w)
                \<lparr>ae_alarm_map := mm_insert \<lparr>nd_time = timeout_us, nd_id = i, nd_cb = a\<rparr> (ae_map w),
                 ae_next_id := Suc i\<rparr>\<rparr>))"

definition aw_update :: "nat \<Rightarrow> (alarm \<Rightarrow> alarm) \<Rightarrow> alarm_world \<Rightarrow> alarm_world" where
  "aw_update a f w = w\<lparr>aw_alarms := (aw_alarms w)(a := f (aw_alarms w a))\<rparr>"

definition ae_UpdateTimer :: "alarm_world \<Rightarrow> alarm_world result" where
  "ae_UpdateTimer w =
     (let w1 = ae_set_timer None w
      in case ae_map w1 of
           [] \<Rightarrow> Inr w1
         | n # _ \<Rightarrow> if nd_time n < aw_now w1 then Inl AssertFailed
                   else Inr (ae_set_timer (Some (aw_now w1 + (nd_time n - aw_now w1))) w1))"

subsection \<open>\<open>BaseAlarm\<close>\<close>

definition BaseAlarm_new :: alarm where
  "BaseAlarm_new = \<lparr>al_deadline = 0, al_engine = False, al_registered = False, al_token = 0\<rparr>"

definition ba_OnRegistration :: "nat \<Rightarrow> nat \<Rightarrow> alarm_world \<Rightarrow> alarm_world result" where
  "ba_OnRegistration a token w =
     (if al_registered (aw_alarms w a) then Inl AssertFailed
      else Inr (aw_update a (\<lambda>al. al\<lparr>al_token := token, al_engine := True, al_registered := True\<rparr>) w))"

definition ba_OnUnregistration :: "nat \<Rightarrow> alarm_world \<Rightarrow> alarm_world" where
  "ba_OnUnregistration a = aw_update a (\<lambda>al. al\<lparr>al_registered := False\<rparr>)"

definition ba_OnShutdown :: "nat \<Rightarrow> alarm_world \<Rightarrow> alarm_world" where
  "ba_OnShutdown a = aw_update a (\<lambda>al. al\<lparr>al_registered := False, al_engine := False\<rparr>)"

definition ba_OnAlarm :: "nat \<Rightarrow> alarm_world \<Rightarrow> int \<times> alarm_world" where
  "ba_OnAlarm a w = (0, aw_update a (\<lambda>al. al\<lparr>al_registered := False\<rparr>) w)"

definition ae_RegisterAlarm :: "int \<Rightarrow> nat \<Rightarrow> alarm_world \<Rightarrow> alarm_world result" where
  "ae_RegisterAlarm timeout ac w =
     (let now_us = aw_now w;
          timeout_us = (if timeout < now_us then now_us else timeout);
          update = (case ae_map w of [] \<Rightarrow> True | n # _ \<Rightarrow> timeout_us < nd_time n)
      in case (if ac \<notin> ae_all_alarms (aw_engine w)
               then
                 let (alarm_iter, w1) = ae_insert_node timeout_us ac w;
                     w2 = w1\<lparr>aw_engine := (aw_engine w1)\<lparr>ae_all_alarms := insert ac (ae_all_alarms (aw_engine w1))\<rparr>\<rparr>
                 in ba_OnRegistration ac alarm_iter w2
               else Inr w) of
           Inl e \<Rightarrow> Inl e
         | Inr w3 \<Rightarrow> if ae_timer (aw_engine w3) = None \<or> update then ae_UpdateTimer w3 else Inr w3)"

definition ae_UnregisterAlarm :: "nat \<Rightarrow> alarm_world \<Rightarrow> alarm_world result" where
  "ae_UnregisterAlarm iterator_token w =
     (case mm_find iterator_token (ae_map w) of
        None \<Rightarrow> Inl InvalidIterator
      | Some n \<Rightarrow>
          Inr (ba_OnUnregistration (nd_cb n) (ae_erase_alarm (nd_cb n)
                 (ae_set_map (mm_erase iterator_token (ae_map w)) w))))"

definition ae_ReregisterAlarm :: "nat \<Rightarrow> int \<Rightarrow> alarm_world \<Rightarrow> (nat \<times> alarm_world) result" where
  "ae_ReregisterAlarm iterator_token timeout_us w =
     (case mm_find iterator_token (ae_map w) of
        None \<Rightarrow> Inl InvalidIterator
      | Some n \<Rightarrow>
          let w1 = ae_set_map (mm_erase iterator_token (ae_map w)) w
          in case ae_map w1 of
               [] \<Rightarrow> Inl AssertFailed
             | m # _ \<Rightarrow>
                 let (ret, w2) = ae_insert_node timeout_us (nd_cb n) w1
                 in case (if ae_timer (aw_engine w2) = None \<or> timeout_us < nd_time m
                          then ae_UpdateTimer w2 else Inr w2) of
                      Inl e \<Rightarrow> Inl e
                    | Inr w3 \<Rightarrow> if ae_timer (aw_engine w3) = None then Inl AssertFailed else Inr (ret, w3))"

definition ba_UnregisterIfRegistered :: "nat \<Rightarrow> alarm_world \<Rightarrow> alarm_world result" where
  "ba_UnregisterIfRegistered a w =
     (if \<not> al_registered (aw_alarms w a) then Inr w
      else if \<not> al_engine (aw_alarms w a) then Inl NullPointer
      else ae_UnregisterAlarm (al_token (aw_alarms w a)) w)"

definition ba_ReregisterAlarm :: "nat \<Rightarrow> int \<Rightarrow> alarm_world \<Rightarrow> alarm_world result" where
  "ba_ReregisterAlarm a timeout_us w =
     (if \<not> al_registered (aw_alarms w a) then Inl AssertFailed
      else if \<not> al_engine (aw_alarms w a) then Inl NullPointer
      else case ae_ReregisterAlarm (al_token (aw_alarms w a)) timeout_us w of
             Inl e \<Rightarrow> Inl e
           | Inr (token, w') \<Rightarrow> Inr (aw_update a (\<lambda>al. al\<lparr>al_token := token\<rparr>) w'))"

fun ae_shutdown_loop :: "alarm_node list \<Rightarrow> alarm_world \<Rightarrow> alarm_world" where
  "ae_shutdown_loop [] w = w"
| "ae_shutdown_loop (n # ns) w =
     ae_shutdown_loop ns (ba_OnShutdown (nd_cb n) (ae_erase_alarm (nd_cb n)
       (ae_set_map (mm_erase (nd_id n) (ae_map w)) w)))"

definition ae_Shutdown :: "alarm_world \<Rightarrow> alarm_world" where
  "ae_Shutdown w = ae_shutdown_loop (ae_map w) w"

subsection \<open>\<open>QuicAlarm\<close> and \<open>Ns3Alarm\<close>\<close>

definition al_IsSet :: "nat \<Rightarrow> alarm_world \<Rightarrow> bool" where
  "al_IsSet a w = Time_IsInitialized (al_deadline (aw_alarms w a))"

definition al_SetImpl :: "nat \<Rightarrow> alarm_world \<Rightarrow> alarm_world result" where
  "al_SetImpl a w =
     (if \<not> Time_IsInitialized (al_deadline (aw_alarms w a)) then Inl AssertFailed
      else ae_RegisterAlarm (al_deadline (aw_alarms w a) - 0) a w)"

definition al_CancelImpl :: "nat \<Rightarrow> alarm_world \<Rightarrow> alarm_world result" where
  "al_CancelImpl a w =
     (if Time_IsInitialized (al_deadline (aw_alarms w a)) then Inl AssertFailed
      else ba_UnregisterIfRegistered a w)"

definition al_UpdateImpl :: "nat \<Rightarrow> alarm_world \<Rightarrow> alarm_world result" where
  "al_UpdateImpl a w =
     (if \<not> Time_IsInitialized (al_deadline (aw_alarms w a)) then Inl AssertFailed
      else
        let timeout_us = al_deadline (aw_alarms w a) - 0
        in if al_registered (aw_alarms w a) then ba_ReregisterAlarm a timeout_us w
           else ae_RegisterAlarm timeout_us a w)"

definition al_Set :: "nat \<Rightarrow> quic_time \<Rightarrow> alarm_world \<Rightarrow> alarm_world result" where
  "al_Set a new_deadline w =
     (if al_IsSet a w then Inl AssertFailed
      else if \<not> Time_IsInitialized new_deadline then Inl AssertFailed
      else al_SetImpl a (aw_update a (\<lambda>al. al\<lparr>al_deadline := new_deadline\<rparr>) w))"

definition al_Cancel :: "nat \<Rightarrow> alarm_world \<Rightarrow> alarm_world result" where
  "al_Cancel a w =
     (if \<not> al_IsSet a w then Inr w
      else al_CancelImpl a (aw_update a (\<lambda>al. al\<lparr>al_deadline := 0\<rparr>) w))"

definition al_Update :: "nat \<Rightarrow> quic_time \<Rightarrow> delta \<Rightarrow> alarm_world \<Rightarrow> alarm_world result" where
  "al_Update a new_deadline granularity w =
     (if \<not> Time_IsInitialized new_deadline then al_Cancel a w
      else if \<bar>new_deadline - al_deadline (aw_alarms w a)\<bar> < granularity then Inr w
      else
        let was_set = al_IsSet a w;
            w1 = aw_update a (\<lambda>al. al\<lparr>al_deadline := new_deadline\<rparr>) w
        in if was_set then al_UpdateImpl a w1 else al_SetImpl a w1)"

datatype alarm_cmd = CmdSet nat quic_time | CmdCancel nat | CmdUpdate nat quic_time delta

fun alarm_cmd_step :: "alarm_cmd \<Rightarrow> alarm_world \<Rightarrow> alarm_world result" where
  "alarm_cmd_step (CmdSet a d) w = al_Set a d w"
| "alarm_cmd_step (CmdCancel a) w = al_Cancel a w"
| "alarm_cmd_step (CmdUpdate a d g) w = al_Update a d g w"

text \<open>\<open>Fire\<close> clears the deadline and calls the delegate, which makes the calls \<open>resp a\<close>.\<close>

definition al_clear :: "nat \<Rightarrow> alarm_world \<Rightarrow> alarm_world" where
  "al_clear a w =
     (aw_update a (\<lambda>al. al\<lparr>al_deadline := 0\<rparr>) w)
       \<lparr>aw_log := aw_log w @ [Fired (aw_now w) a (al_deadline (aw_alarms w a))]\<rparr>"

definition al_Fire :: "(nat \<Rightarrow> alarm_cmd list) \<Rightarrow> nat \<Rightarrow> alarm_world \<Rightarrow> alarm_world result" where
  "al_Fire resp a w =
     (if \<not> al_IsSet a w then Inr w else run_calls alarm_cmd_step (resp a) (al_clear a w))"

definition al_OnAlarm :: "(nat \<Rightarrow> alarm_cmd list) \<Rightarrow> nat \<Rightarrow> alarm_world \<Rightarrow> (int \<times> alarm_world) result" where
  "al_OnAlarm resp a w =
     (case al_Fire resp a (snd (ba_OnAlarm a w)) of Inl e \<Rightarrow> Inl e | Inr w' \<Rightarrow> Inr (0, w'))"

subsection \<open>The timeout of the engine\<close>

text \<open>The first loop of \<open>OnTimeout\<close> takes the due nodes off the map.\<close>

definition ae_take_due :: "alarm_world \<Rightarrow> nat list \<times> alarm_world" where
  "ae_take_due w =
     (let due = takeWhile (\<lambda>n. \<not> nd_time n > aw_now w) (ae_map w)
      in (map nd_cb due,
          fold (\<lambda>n w. ae_erase_alarm (nd_cb n) (ae_set_map (mm_erase (nd_id n) (ae_map w)) w)) due w))"

text \<open>The inner loop calls \<open>OnAlarm\<close> again as long as it returns a time that is not in the future.\<close>

function ae_call_alarm :: "(nat \<Rightarrow> alarm_cmd list) \<Rightarrow> int \<Rightarrow> nat \<Rightarrow> alarm_world \<Rightarrow> (int \<times> alarm_world) result" where
  "ae_call_alarm resp now_us cb w =
     (case al_OnAlarm resp cb w of
        Inl e \<Rightarrow> Inl e
      | Inr (next_timeout_us, w') \<Rightarrow>
          if next_timeout_us > 0 \<and> next_timeout_us \<le> now_us then ae_call_alarm resp now_us cb w'
          else Inr (next_timeout_us, w'))"
  by pat_completeness auto

termination ae_call_alarm
  by (relation "{}") (auto simp: al_OnAlarm_def split: sum.splits)

fun ae_fire_all :: "(nat \<Rightarrow> alarm_cmd list) \<Rightarrow> int \<Rightarrow> nat list \<Rightarrow> alarm_world \<Rightarrow> alarm_world result" where
  "ae_fire_all resp now_us [] w = Inr w"
| "ae_fire_all resp now_us (cb # cbs) w =
     (case ae_call_alarm resp now_us cb w of
        Inl e \<Rightarrow> Inl e
      | Inr (next_timeout_us, w1) \<Rightarrow>
          case (if next_timeout_us > 0 then ae_RegisterAlarm next_timeout_us cb w1 else Inr w1) of
            Inl e \<Rightarrow> Inl e
          | Inr w2 \<Rightarrow> ae_fire_all resp now_us cbs w2)"

definition ae_OnTimeout :: "(nat \<Rightarrow> alarm_cmd list) \<Rightarrow> alarm_world \<Rightarrow> alarm_world result" where
  "ae_OnTimeout resp w =
     (let now_us = aw_now w;
          (cbs, w1) = ae_take_due w;
          has_event = (cbs \<noteq> [])
      in case ae_fire_all resp now_us cbs w1 of
           Inl e \<Rightarrow> Inl e
         | Inr w2 \<Rightarrow>
             ae_UpdateTimer (if has_event \<and> ae_visitor (aw_engine w2)
                             then w2\<lparr>aw_log := aw_log w2 @ [PostProcessing (aw_now w2)]\<rparr> else w2))"

subsection \<open>Runs\<close>

text \<open>The simulator runs the event of the engine when its time has come, time passes, and the
  connections call their alarms. While its event runs, the timer counts as not running.\<close>

datatype alarm_call = AlCmd alarm_cmd | AlTick int | AlTimeout "nat \<Rightarrow> alarm_cmd list"

fun alarm_step :: "alarm_call \<Rightarrow> alarm_world \<Rightarrow> alarm_world result" where
  "alarm_step (AlCmd c) w = alarm_cmd_step c w"
| "alarm_step (AlTick t) w = Inr (w\<lparr>aw_now := t\<rparr>)"
| "alarm_step (AlTimeout resp) w = ae_OnTimeout resp (ae_set_timer None w)"

definition alarm_world_new :: "int \<Rightarrow> alarm_world" where
  "alarm_world_new now =
     \<lparr>aw_now = now, aw_engine = Ns3QuicAlarmEngine_new, aw_alarms = (\<lambda>a. BaseAlarm_new), aw_log = []\<rparr>"

subsection \<open>The map of the engine\<close>

lemma set_mm_insert [simp]: "set (mm_insert n ms) = insert n (set ms)"
  by (induction ms) auto

lemma mm_insert_not_Nil [simp]: "mm_insert n ms \<noteq> []"
  by (cases ms) auto

lemma sorted_mm_insert: "sorted (map nd_time ms) \<Longrightarrow> sorted (map nd_time (mm_insert n ms))"
  by (induction ms) auto

lemma distinct_mm_insert: "distinct (map f (mm_insert n ms)) \<longleftrightarrow> f n \<notin> f ` set ms \<and> distinct (map f ms)"
  by (induction ms) auto

lemma set_mm_erase [simp]: "set (mm_erase i ms) = {m \<in> set ms. nd_id m \<noteq> i}"
  by (auto simp: mm_erase_def)

lemma mm_find_node:
  "distinct (map nd_id ms) \<Longrightarrow> n \<in> set ms \<Longrightarrow> mm_find (nd_id n) ms = Some n"
  unfolding mm_find_def by (induction ms) (auto simp: image_def)

lemma mm_erase_sorted: "sorted (map nd_time ms) \<Longrightarrow> sorted (map nd_time (mm_erase i ms))"
  unfolding mm_erase_def by (rule sorted_filter)

lemma mm_erase_distinct: "distinct (map f ms) \<Longrightarrow> distinct (map f (mm_erase i ms))"
  unfolding mm_erase_def by (rule distinct_map_filter)

lemma mm_erase_cbs:
  assumes "distinct (map nd_cb ms)" "distinct (map nd_id ms)" "n \<in> set ms"
  shows "nd_cb ` set (mm_erase (nd_id n) ms) = nd_cb ` set ms - {nd_cb n}"
proof -
  have "nd_id m = nd_id n \<longleftrightarrow> nd_cb m = nd_cb n" if "m \<in> set ms" for m
    using that assms by (auto simp: distinct_map inj_on_def)
  then show ?thesis by auto
qed

subsection \<open>The invariant\<close>

text \<open>A node belongs to an alarm that holds its token. Its time is the deadline of the alarm, or the
  present if the deadline had passed when the alarm was registered. \<open>P\<close> are the
  alarms that \<open>OnTimeout\<close> has taken off the map and not yet called.\<close>

definition node_ok :: "int \<Rightarrow> nat \<Rightarrow> (nat \<Rightarrow> alarm) \<Rightarrow> alarm_node \<Rightarrow> bool" where
  "node_ok now nx al n \<longleftrightarrow> nd_id n < nx \<and> now \<le> nd_time n \<and> al_engine (al (nd_cb n)) \<and>
     al_token (al (nd_cb n)) = nd_id n \<and> al_deadline (al (nd_cb n)) \<le> nd_time n \<and>
     (nd_time n = al_deadline (al (nd_cb n)) \<or> nd_time n = now)"

definition alarms_ok :: "nat set \<Rightarrow> int \<Rightarrow> alarm_node list \<Rightarrow> nat set \<Rightarrow> nat \<Rightarrow> (nat \<Rightarrow> alarm) \<Rightarrow> bool" where
  "alarms_ok P now ms all nx al \<longleftrightarrow>
     sorted (map nd_time ms) \<and> distinct (map nd_id ms) \<and> distinct (map nd_cb ms) \<and> nd_cb ` set ms = all \<and>
     all \<inter> P = {} \<and> (\<forall>n \<in> set ms. node_ok now nx al n) \<and> (\<forall>a \<in> P. al_deadline (al a) \<le> now) \<and>
     (\<forall>a. (al_registered (al a) \<longleftrightarrow> a \<in> all \<union> P) \<and> (al_deadline (al a) \<noteq> 0 \<longleftrightarrow> a \<in> all \<union> P))"

definition timer_ok :: "int \<Rightarrow> alarm_node list \<Rightarrow> int option \<Rightarrow> bool" where
  "timer_ok now ms timer \<longleftrightarrow> (\<forall>t. timer = Some t \<longrightarrow> now \<le> t \<and> (\<forall>n \<in> set ms. t \<le> nd_time n))"

definition log_ok :: "alarm_event list \<Rightarrow> bool" where
  "log_ok l \<longleftrightarrow> (\<forall>t a d. Fired t a d \<in> set l \<longrightarrow> d \<le> t)"

definition aw_inv :: "nat set \<Rightarrow> alarm_world \<Rightarrow> bool" where
  "aw_inv P w \<longleftrightarrow>
     alarms_ok P (aw_now w) (ae_map w) (ae_all_alarms (aw_engine w)) (ae_next_id (aw_engine w)) (aw_alarms w) \<and>
     timer_ok (aw_now w) (ae_map w) (ae_timer (aw_engine w)) \<and> log_ok (aw_log w)"

definition aw_ready :: "alarm_world \<Rightarrow> bool" where
  "aw_ready w \<longleftrightarrow> aw_inv {} w \<and> (ae_map w \<noteq> [] \<longrightarrow> ae_timer (aw_engine w) \<noteq> None)"

lemma alarms_okD:
  assumes "alarms_ok P now ms all nx al"
  shows "sorted (map nd_time ms)" "distinct (map nd_id ms)" "distinct (map nd_cb ms)" "nd_cb ` set ms = all"
    and "n \<in> set ms \<Longrightarrow> node_ok now nx al n"
    and "al_registered (al a) \<longleftrightarrow> a \<in> all \<union> P" "al_deadline (al a) \<noteq> 0 \<longleftrightarrow> a \<in> all \<union> P"
    and "n \<in> set ms \<Longrightarrow> nd_cb n \<in> all"
  using assms unfolding alarms_ok_def by blast+

lemma alarms_ok_insert:
  assumes "alarms_ok P now ms all nx al" "a \<notin> all \<union> P" "now \<le> t"
    "al_deadline x \<noteq> 0" "al_deadline x \<le> t" "t = al_deadline x \<or> t = now"
    "al_engine x" "al_registered x" "al_token x = nx"
  shows "alarms_ok P now (mm_insert \<lparr>nd_time = t, nd_id = nx, nd_cb = a\<rparr> ms) (insert a all) (Suc nx) (al(a := x))"
proof -
  have "nx \<notin> nd_id ` set ms" "a \<notin> nd_cb ` set ms" using assms(1,2) by (auto simp: alarms_ok_def node_ok_def)
  then show ?thesis using assms
    by (auto simp: alarms_ok_def node_ok_def distinct_mm_insert sorted_mm_insert)
qed

lemma alarms_ok_erase:
  assumes "alarms_ok P now ms all nx al" "n \<in> set ms" "al_deadline x = 0" "\<not> al_registered x"
  shows "alarms_ok P now (mm_erase (nd_id n) ms) (all - {nd_cb n}) nx (al(nd_cb n := x))"
proof -
  have i: "sorted (map nd_time ms)" "distinct (map nd_id ms)" "distinct (map nd_cb ms)" "nd_cb ` set ms = all"
    using alarms_okD(1-4) [OF assms(1)] by blast+
  have e: "nd_cb ` set (mm_erase (nd_id n) ms) = all - {nd_cb n}" using mm_erase_cbs [OF i(3,2) assms(2)] i(4) by simp
  have "node_ok now nx (al(nd_cb n := x)) m" if "m \<in> set (mm_erase (nd_id n) ms)" for m
  proof -
    have "nd_cb m \<in> all - {nd_cb n}" using that e by blast
    then show ?thesis using assms(1) that by (auto simp: alarms_ok_def node_ok_def)
  qed
  then show ?thesis using assms i e mm_erase_sorted [OF i(1), of "nd_id n"] mm_erase_distinct [of _ ms "nd_id n"]
    unfolding alarms_ok_def by (simp del: set_mm_erase) blast
qed

text \<open>An alarm that is taken off the map in order to be called.\<close>

lemma alarms_ok_take:
  assumes "alarms_ok P now ms all nx al" "n \<in> set ms" "nd_time n \<le> now"
  shows "alarms_ok (insert (nd_cb n) P) now (mm_erase (nd_id n) ms) (all - {nd_cb n}) nx al"
proof -
  have i: "sorted (map nd_time ms)" "distinct (map nd_id ms)" "distinct (map nd_cb ms)" "nd_cb ` set ms = all"
    using alarms_okD(1-4) [OF assms(1)] by blast+
  have e: "nd_cb ` set (mm_erase (nd_id n) ms) = all - {nd_cb n}" using mm_erase_cbs [OF i(3,2) assms(2)] i(4) by simp
  have "nd_cb n \<in> all" "al_deadline (al (nd_cb n)) \<le> now" using assms i(4) by (auto simp: alarms_ok_def node_ok_def)
  moreover have "\<forall>m \<in> set (mm_erase (nd_id n) ms). node_ok now nx al m" using assms(1) by (simp add: alarms_ok_def)
  ultimately show ?thesis
    using assms(1) i e mm_erase_sorted [OF i(1), of "nd_id n"] mm_erase_distinct [of _ ms "nd_id n"]
    unfolding alarms_ok_def by (simp del: set_mm_erase) blast
qed

lemma alarms_ok_called:
  assumes "alarms_ok (insert a P) now ms all nx al" "a \<notin> P" "al_deadline x = 0" "\<not> al_registered x"
  shows "alarms_ok P now ms all nx (al(a := x))"
proof -
  have "a \<notin> nd_cb ` set ms" using assms(1) by (auto simp: alarms_ok_def)
  then have "\<forall>n \<in> set ms. node_ok now nx (al(a := x)) n" using assms(1) by (auto simp: alarms_ok_def node_ok_def)
  then show ?thesis using assms unfolding alarms_ok_def by auto
qed

subsection \<open>The operations keep the invariant\<close>

lemmas ae_state_defs = ae_set_map_def ae_set_timer_def ae_erase_alarm_def ae_insert_node_def aw_update_def

lemma ae_UpdateTimer_ok:
  assumes "aw_inv P w"
  shows "\<exists>t. ae_UpdateTimer w = Inr (ae_set_timer t w) \<and> aw_inv P (ae_set_timer t w) \<and> (ae_map w \<noteq> [] \<longrightarrow> t \<noteq> None)"
proof (cases "ae_map w")
  case Nil
  then show ?thesis using assms
    by (intro exI [of _ None]) (simp add: ae_UpdateTimer_def ae_set_timer_def aw_inv_def timer_ok_def)
next
  case (Cons n ns)
  have "aw_now w \<le> nd_time n" "\<forall>m \<in> set (ae_map w). nd_time n \<le> nd_time m"
    using assms Cons by (auto simp: aw_inv_def alarms_ok_def node_ok_def)
  then show ?thesis using assms Cons
    by (intro exI [of _ "Some (nd_time n)"]) (simp add: ae_UpdateTimer_def ae_set_timer_def aw_inv_def timer_ok_def)
qed

lemma ae_UpdateTimer_cong:
  assumes "ae_map w' = ae_map w" "aw_now w' = aw_now w" "ae_UpdateTimer w = Inr (ae_set_timer t w)"
  shows "ae_UpdateTimer w' = Inr (ae_set_timer t w')"
proof -
  have "t = (case ae_map w of [] \<Rightarrow> None | n # _ \<Rightarrow> Some (nd_time n))"
  proof -
    have "t = ae_timer (aw_engine (projr (ae_UpdateTimer w)))" by (simp add: assms(3) ae_set_timer_def)
    then show ?thesis using assms(3)
      by (cases "ae_map w") (simp_all add: ae_UpdateTimer_def ae_set_timer_def Let_def split: if_splits)
  qed
  then show ?thesis using assms
    by (auto simp: ae_UpdateTimer_def ae_set_timer_def Let_def split: list.splits if_splits)
qed

text \<open>\<open>RegisterAlarm\<close> of an alarm whose deadline has just been set.\<close>

lemma ae_RegisterAlarm_ok:
  assumes "aw_inv P w" "a \<notin> P" "al_deadline (aw_alarms w a) = 0" "d \<noteq> 0"
  shows "\<exists>w'. ae_RegisterAlarm d a (aw_update a (\<lambda>al. al\<lparr>al_deadline := d\<rparr>) w) = Inr w' \<and> aw_inv P w' \<and>
    ae_timer (aw_engine w') \<noteq> None \<and> aw_now w' = aw_now w \<and> aw_log w' = aw_log w \<and>
    (\<forall>b. b \<noteq> a \<longrightarrow> aw_alarms w' b = aw_alarms w b)"
proof -
  define t where "t = (if d < aw_now w then aw_now w else d)"
  define n where "n = \<lparr>nd_time = t, nd_id = ae_next_id (aw_engine w), nd_cb = a\<rparr>"
  define al where "al = (aw_alarms w a)\<lparr>al_deadline := d, al_token := ae_next_id (aw_engine w), al_engine := True, al_registered := True\<rparr>"
  define w3 where "w3 = w\<lparr>aw_engine := (aw_engine w)\<lparr>ae_alarm_map := mm_insert n (ae_map w),
      ae_next_id := Suc (ae_next_id (aw_engine w)), ae_all_alarms := insert a (ae_all_alarms (aw_engine w))\<rparr>,
      aw_alarms := (aw_alarms w)(a := al)\<rparr>"
  have ok: "alarms_ok P (aw_now w) (ae_map w) (ae_all_alarms (aw_engine w)) (ae_next_id (aw_engine w)) (aw_alarms w)"
    "timer_ok (aw_now w) (ae_map w) (ae_timer (aw_engine w))" "log_ok (aw_log w)"
    using assms(1) by (auto simp: aw_inv_def)
  have a: "a \<notin> ae_all_alarms (aw_engine w) \<union> P" "\<not> al_registered (aw_alarms w a)"
    using alarms_okD(6,7) [OF ok(1), of a] assms(2,3) by blast+
  have ins: "alarms_ok P (aw_now w3) (ae_map w3) (ae_all_alarms (aw_engine w3)) (ae_next_id (aw_engine w3)) (aw_alarms w3)"
    using alarms_ok_insert [OF ok(1) a(1), of t al] assms(4) by (simp add: w3_def n_def al_def t_def)
  define update where "update = (case ae_map w of [] \<Rightarrow> True | n # _ \<Rightarrow> t < nd_time n)"
  have e: "ae_RegisterAlarm d a (aw_update a (\<lambda>al. al\<lparr>al_deadline := d\<rparr>) w) =
    (if ae_timer (aw_engine w3) = None \<or> update then ae_UpdateTimer w3 else Inr w3)"
    using a by (cases "ae_map w") (simp_all add: ae_RegisterAlarm_def ae_insert_node_def ba_OnRegistration_def aw_update_def Let_def
        w3_def n_def al_def t_def update_def)
  show ?thesis
  proof (cases "ae_timer (aw_engine w3) = None \<or> update")
    case True
    have "aw_inv P (ae_set_timer None w3)"
      using ins ok(3) by (simp add: aw_inv_def ae_set_timer_def timer_ok_def w3_def)
    moreover have "ae_UpdateTimer w3 = ae_UpdateTimer (ae_set_timer None w3)"
      by (simp add: ae_UpdateTimer_def ae_set_timer_def)
    ultimately obtain t' where "ae_UpdateTimer w3 = Inr (ae_set_timer t' (ae_set_timer None w3))"
      "aw_inv P (ae_set_timer t' (ae_set_timer None w3))" "t' \<noteq> None"
      using ae_UpdateTimer_ok [of P "ae_set_timer None w3"] by (auto simp: ae_set_timer_def w3_def)
    then show ?thesis using True by (simp add: e) (simp add: ae_set_timer_def w3_def)
  next
    case False
    then obtain x where x: "ae_timer (aw_engine w) = Some x" by (auto simp: w3_def)
    moreover obtain m ms where m: "ae_map w = m # ms" "nd_time m \<le> t"
      using False by (auto simp: update_def not_less split: list.splits)
    then have "x \<le> t" using ok(2) x by (auto simp: timer_ok_def)
    then have "timer_ok (aw_now w3) (ae_map w3) (ae_timer (aw_engine w3))"
      using ok(2) x by (simp add: timer_ok_def w3_def n_def)
    then have "aw_inv P w3" using ins ok(3) by (simp add: aw_inv_def w3_def)
    moreover have "ae_timer (aw_engine w3) = Some x" "aw_now w3 = aw_now w" "aw_log w3 = aw_log w"
      "\<forall>b. b \<noteq> a \<longrightarrow> aw_alarms w3 b = aw_alarms w b"
      using x by (simp_all add: w3_def)
    ultimately show ?thesis using False by (simp add: e)
  qed
qed

lemma ae_node_of:
  assumes "aw_inv P w" "a \<notin> P" "al_deadline (aw_alarms w a) \<noteq> 0"
  obtains n where "n \<in> set (ae_map w)" "nd_cb n = a" "al_token (aw_alarms w a) = nd_id n"
    "mm_find (nd_id n) (ae_map w) = Some n" "al_registered (aw_alarms w a)" "al_engine (aw_alarms w a)"
proof -
  have ok: "alarms_ok P (aw_now w) (ae_map w) (ae_all_alarms (aw_engine w)) (ae_next_id (aw_engine w)) (aw_alarms w)"
    using assms(1) by (simp add: aw_inv_def)
  have a: "a \<in> nd_cb ` set (ae_map w)" "al_registered (aw_alarms w a)"
    using assms(2,3) alarms_okD(6,7) [OF ok, of a] by (simp_all add: alarms_okD(4) [OF ok])
  from a(1) obtain n where n: "n \<in> set (ae_map w)" "nd_cb n = a" by (elim imageE) simp
  with a(2) show ?thesis
    using that [OF n] mm_find_node [OF alarms_okD(2) [OF ok] n(1)] alarms_okD(5) [OF ok n(1)] n(2) by (simp add: node_ok_def)
qed

lemma al_Cancel_ok:
  assumes "aw_inv P w" "a \<notin> P"
  shows "\<exists>w'. al_Cancel a w = Inr w' \<and> aw_inv P w' \<and> aw_now w' = aw_now w \<and> aw_log w' = aw_log w \<and>
    ae_timer (aw_engine w') = ae_timer (aw_engine w) \<and> set (ae_map w') \<subseteq> set (ae_map w) \<and>
    (\<forall>b. b \<noteq> a \<longrightarrow> aw_alarms w' b = aw_alarms w b)"
proof (cases "al_deadline (aw_alarms w a) = 0")
  case True
  then show ?thesis using assms by (simp add: al_Cancel_def al_IsSet_def Time_IsInitialized_def)
next
  case False
  obtain n where n: "n \<in> set (ae_map w)" "nd_cb n = a" "al_token (aw_alarms w a) = nd_id n"
    "mm_find (nd_id n) (ae_map w) = Some n" "al_registered (aw_alarms w a)" "al_engine (aw_alarms w a)"
    using ae_node_of [OF assms False] .
  define w' where "w' = w\<lparr>aw_engine := (aw_engine w)\<lparr>ae_alarm_map := mm_erase (nd_id n) (ae_map w),
     ae_all_alarms := ae_all_alarms (aw_engine w) - {a}\<rparr>,
     aw_alarms := (aw_alarms w)(a := (aw_alarms w a)\<lparr>al_deadline := 0, al_registered := False\<rparr>)\<rparr>"
  have "al_Cancel a w = Inr w'"
    using False n by (simp add: al_Cancel_def al_IsSet_def al_CancelImpl_def ba_UnregisterIfRegistered_def
        ae_UnregisterAlarm_def ba_OnUnregistration_def ae_state_defs Time_IsInitialized_def w'_def)
  moreover have "aw_inv P w'"
  proof -
    have "alarms_ok P (aw_now w) (ae_map w) (ae_all_alarms (aw_engine w)) (ae_next_id (aw_engine w)) (aw_alarms w)"
      using assms(1) by (simp add: aw_inv_def)
    from alarms_ok_erase [OF this n(1), of "(aw_alarms w a)\<lparr>al_deadline := 0, al_registered := False\<rparr>"]
    show ?thesis using assms(1) n(2) by (simp add: aw_inv_def w'_def timer_ok_def)
  qed
  moreover have "aw_now w' = aw_now w" "aw_log w' = aw_log w" "ae_timer (aw_engine w') = ae_timer (aw_engine w)"
    "set (ae_map w') \<subseteq> set (ae_map w)" "\<forall>b. b \<noteq> a \<longrightarrow> aw_alarms w' b = aw_alarms w b"
    by (auto simp: w'_def)
  ultimately show ?thesis by blast
qed


lemma al_Set_ok:
  assumes "aw_inv P w" "a \<notin> P" "\<not> al_IsSet a w" "d \<noteq> 0"
  shows "\<exists>w'. al_Set a d w = Inr w' \<and> aw_inv P w' \<and> ae_timer (aw_engine w') \<noteq> None \<and>
    aw_now w' = aw_now w \<and> aw_log w' = aw_log w \<and> (\<forall>b. b \<noteq> a \<longrightarrow> aw_alarms w' b = aw_alarms w b)"
proof -
  have "al_deadline (aw_alarms w a) = 0" using assms(3) by (simp add: al_IsSet_def Time_IsInitialized_def)
  moreover have "al_Set a d w = ae_RegisterAlarm d a (aw_update a (\<lambda>al. al\<lparr>al_deadline := d\<rparr>) w)"
    using assms(3,4) by (simp add: al_Set_def al_SetImpl_def Time_IsInitialized_def aw_update_def)
  ultimately show ?thesis using ae_RegisterAlarm_ok [OF assms(1,2) _ assms(4)] by simp
qed

text \<open>\<open>Update\<close> of a registered alarm needs a deadline that has not passed and, because of an assertion, a second alarm.\<close>

lemma al_Reregister_ok:
  assumes "aw_inv P w" "a \<notin> P" "al_IsSet a w" "d \<noteq> 0" "aw_now w \<le> d" "\<exists>m \<in> set (ae_map w). nd_cb m \<noteq> a"
  shows "\<exists>w'. al_UpdateImpl a (aw_update a (\<lambda>al. al\<lparr>al_deadline := d\<rparr>) w) = Inr w' \<and> aw_inv P w' \<and>
    ae_timer (aw_engine w') \<noteq> None \<and> aw_now w' = aw_now w \<and> aw_log w' = aw_log w \<and>
    (\<forall>b. b \<noteq> a \<longrightarrow> aw_alarms w' b = aw_alarms w b)"
proof -
  have ok: "alarms_ok P (aw_now w) (ae_map w) (ae_all_alarms (aw_engine w)) (ae_next_id (aw_engine w)) (aw_alarms w)"
    "timer_ok (aw_now w) (ae_map w) (ae_timer (aw_engine w))" "log_ok (aw_log w)"
    using assms(1) by (auto simp: aw_inv_def)
  have set: "al_deadline (aw_alarms w a) \<noteq> 0" using assms(3) by (simp add: al_IsSet_def Time_IsInitialized_def)
  obtain n where n: "n \<in> set (ae_map w)" "nd_cb n = a" "al_token (aw_alarms w a) = nd_id n"
    "mm_find (nd_id n) (ae_map w) = Some n" "al_registered (aw_alarms w a)" "al_engine (aw_alarms w a)"
    using ae_node_of [OF assms(1,2) set] .
  define ms where "ms = mm_erase (nd_id n) (ae_map w)"
  define i where "i = ae_next_id (aw_engine w)"
  obtain m0 where m0: "m0 \<in> set (ae_map w)" "nd_cb m0 \<noteq> a" using assms(6) by (rule bexE)
  have "nd_id m0 \<noteq> nd_id n"
  proof
    assume "nd_id m0 = nd_id n"
    then have "mm_find (nd_id n) (ae_map w) = Some m0" using mm_find_node [OF alarms_okD(2) [OF ok(1)] m0(1)] by simp
    then have "m0 = n" using n(4) by simp
    then show False using m0(2) n(2) by simp
  qed
  then have "m0 \<in> set ms" using m0(1) by (simp add: ms_def)
  then obtain m ms' where m: "ms = m # ms'" by (cases ms) simp_all
  define w1 where "w1 = w\<lparr>aw_alarms := (aw_alarms w)(a := (aw_alarms w a)\<lparr>al_deadline := d\<rparr>),
      aw_engine := (aw_engine w)\<lparr>ae_alarm_map := mm_insert \<lparr>nd_time = d, nd_id = i, nd_cb = a\<rparr> ms, ae_next_id := Suc i\<rparr>\<rparr>"
  define w2 where "w2 = aw_update a (\<lambda>al. al\<lparr>al_token := i\<rparr>) w1"
  have "alarms_ok P (aw_now w) ms (ae_all_alarms (aw_engine w) - {a}) i
      ((aw_alarms w)(a := BaseAlarm_new))"
    using alarms_ok_erase [OF ok(1) n(1), of BaseAlarm_new] n(2) by (simp add: BaseAlarm_new_def ms_def i_def)
  then have ins: "alarms_ok P (aw_now w2) (ae_map w2) (ae_all_alarms (aw_engine w2)) (ae_next_id (aw_engine w2)) (aw_alarms w2)"
  proof -
    have "a \<in> ae_all_alarms (aw_engine w)" using alarms_okD(8) [OF ok(1) n(1)] n(2) by simp
    then have "insert a (ae_all_alarms (aw_engine w) - {a}) = ae_all_alarms (aw_engine w)" by blast
    then show ?thesis
      using alarms_ok_insert [OF \<open>alarms_ok P (aw_now w) ms _ i _\<close>, of a d "(aw_alarms w a)\<lparr>al_deadline := d, al_token := i\<rparr>"]
        assms(2,4,5) n(5,6) by (simp add: w2_def w1_def aw_update_def)
  qed
  define upd where "upd \<longleftrightarrow> ae_timer (aw_engine w) = None \<or> d < nd_time m"
  have w1t: "ae_timer (aw_engine w1) = ae_timer (aw_engine w)" by (simp add: w1_def)
  have hd: "ms \<noteq> []" "hd ms = m" by (simp_all add: m)
  have e: "al_UpdateImpl a (aw_update a (\<lambda>al. al\<lparr>al_deadline := d\<rparr>) w) = Inr (aw_update a (\<lambda>al. al\<lparr>al_token := i\<rparr>) w3)"
    if "(if upd then ae_UpdateTimer w1 else Inr w1) = Inr w3" "ae_timer (aw_engine w3) \<noteq> None" for w3
  proof -
    have "ae_ReregisterAlarm (nd_id n) d (aw_update a (\<lambda>al. al\<lparr>al_deadline := d\<rparr>) w) = Inr (i, w3)"
      using that n(2,4) hd w1t
      by (simp add: ae_ReregisterAlarm_def ae_state_defs ms_def [symmetric] i_def [symmetric] w1_def [symmetric] upd_def
          Let_def list.case_eq_if)
    then show ?thesis using n(3,5,6) assms(4)
      by (simp add: al_UpdateImpl_def ba_ReregisterAlarm_def Time_IsInitialized_def aw_update_def)
  qed
  have w2: "aw_now w2 = aw_now w" "ae_map w2 = mm_insert \<lparr>nd_time = d, nd_id = i, nd_cb = a\<rparr> ms"
    "ae_timer (aw_engine w2) = ae_timer (aw_engine w)" "aw_log w2 = aw_log w"
    "\<forall>b. b \<noteq> a \<longrightarrow> aw_alarms w2 b = aw_alarms w b"
    by (simp_all add: w1_def w2_def aw_update_def)
  show ?thesis
  proof (cases upd)
    case True
    have "aw_inv P (ae_set_timer None w2)" using ins ok(3) by (simp add: aw_inv_def ae_set_timer_def timer_ok_def w2)
    then obtain t where t: "ae_UpdateTimer (ae_set_timer None w2) = Inr (ae_set_timer t (ae_set_timer None w2))"
      "aw_inv P (ae_set_timer t (ae_set_timer None w2))" "t \<noteq> None"
      using ae_UpdateTimer_ok [of P "ae_set_timer None w2"] by (auto simp: ae_set_timer_def w2)
    have "ae_UpdateTimer w1 = Inr (ae_set_timer t w1)"
      by (rule ae_UpdateTimer_cong [OF _ _ t(1)]) (simp_all add: w2_def aw_update_def ae_set_timer_def)
    then have "al_UpdateImpl a (aw_update a (\<lambda>al. al\<lparr>al_deadline := d\<rparr>) w) =
        Inr (aw_update a (\<lambda>al. al\<lparr>al_token := i\<rparr>) (ae_set_timer t w1))"
      using True t(3) by (intro e) (simp_all add: ae_set_timer_def)
    moreover have "aw_update a (\<lambda>al. al\<lparr>al_token := i\<rparr>) (ae_set_timer t w1) = ae_set_timer t (ae_set_timer None w2)"
      by (simp add: ae_set_timer_def w2_def aw_update_def)
    ultimately show ?thesis using t(2,3) by (simp add: ae_set_timer_def w2)
  next
    case False
    then obtain x where x: "ae_timer (aw_engine w) = Some x" "nd_time m \<le> d" by (auto simp: upd_def)
    moreover have "m \<in> set ms" by (simp add: m)
    then have "m \<in> set (ae_map w)" by (simp add: ms_def)
    ultimately have "x \<le> d" using ok(2) by (auto simp: timer_ok_def)
    then have "aw_inv P w2" using ins ok(2,3) x by (simp add: aw_inv_def timer_ok_def w2 ms_def)
    then show ?thesis using False x e [of w1] w2 by (simp add: w2_def [symmetric]) (simp add: w1_def)
  qed
qed

subsection \<open>Sequences of calls\<close>

text \<open>What a caller owes: an alarm that is about to be called in the same timeout is left
  alone, an alarm is set only if it is not, and a registered alarm is moved only to a time
  that has not passed, and only if it is not the only one.\<close>

fun cmd_ok :: "nat set \<Rightarrow> alarm_cmd \<Rightarrow> alarm_world \<Rightarrow> bool" where
  "cmd_ok P (CmdSet a d) w \<longleftrightarrow> a \<notin> P \<and> \<not> al_IsSet a w \<and> d \<noteq> 0"
| "cmd_ok P (CmdCancel a) w \<longleftrightarrow> a \<notin> P"
| "cmd_ok P (CmdUpdate a d g) w \<longleftrightarrow> a \<notin> P \<and>
     (d \<noteq> 0 \<and> al_IsSet a w \<and> \<not> \<bar>d - al_deadline (aw_alarms w a)\<bar> < g \<longrightarrow>
        aw_now w \<le> d \<and> (\<exists>m \<in> set (ae_map w). nd_cb m \<noteq> a))"

definition armed :: "alarm_world \<Rightarrow> bool" where
  "armed w \<longleftrightarrow> (ae_map w \<noteq> [] \<longrightarrow> ae_timer (aw_engine w) \<noteq> None)"

lemma cmd_step_ok:
  assumes "aw_inv P w" "cmd_ok P c w"
  shows "\<exists>w'. alarm_cmd_step c w = Inr w' \<and> aw_inv P w' \<and> aw_now w' = aw_now w \<and> aw_log w' = aw_log w \<and>
    (\<forall>b \<in> P. aw_alarms w' b = aw_alarms w b) \<and> (armed w \<longrightarrow> armed w')"
proof (cases c)
  case (CmdSet a d)
  then obtain w' where "al_Set a d w = Inr w'" "aw_inv P w'" "ae_timer (aw_engine w') \<noteq> None"
    "aw_now w' = aw_now w" "aw_log w' = aw_log w" "\<forall>b. b \<noteq> a \<longrightarrow> aw_alarms w' b = aw_alarms w b"
    using al_Set_ok [OF assms(1), of a d] assms(2) by auto
  then show ?thesis using CmdSet assms(2) by (auto simp: armed_def)
next
  case (CmdCancel a)
  then obtain w' where "al_Cancel a w = Inr w'" "aw_inv P w'" "aw_now w' = aw_now w" "aw_log w' = aw_log w"
    "ae_timer (aw_engine w') = ae_timer (aw_engine w)" "set (ae_map w') \<subseteq> set (ae_map w)"
    "\<forall>b. b \<noteq> a \<longrightarrow> aw_alarms w' b = aw_alarms w b"
    using al_Cancel_ok [OF assms(1), of a] assms(2) by auto
  then show ?thesis using CmdCancel assms(2) by (auto simp: armed_def)
next
  case (CmdUpdate a d g)
  then have a: "a \<notin> P" using assms(2) by simp
  consider "d = 0" | "d \<noteq> 0" "\<bar>d - al_deadline (aw_alarms w a)\<bar> < g"
    | "d \<noteq> 0" "\<not> \<bar>d - al_deadline (aw_alarms w a)\<bar> < g" "\<not> al_IsSet a w"
    | "d \<noteq> 0" "\<not> \<bar>d - al_deadline (aw_alarms w a)\<bar> < g" "al_IsSet a w" by blast
  then show ?thesis
  proof cases
    case 1
    then have "alarm_cmd_step c w = al_Cancel a w" using CmdUpdate by (simp add: al_Update_def Time_IsInitialized_def)
    moreover obtain w' where "al_Cancel a w = Inr w'" "aw_inv P w'" "aw_now w' = aw_now w" "aw_log w' = aw_log w"
      "ae_timer (aw_engine w') = ae_timer (aw_engine w)" "set (ae_map w') \<subseteq> set (ae_map w)"
      "\<forall>b. b \<noteq> a \<longrightarrow> aw_alarms w' b = aw_alarms w b"
      using al_Cancel_ok [OF assms(1) a] by auto
    ultimately show ?thesis using a by (auto simp: armed_def)
  next
    case 2
    then show ?thesis using CmdUpdate assms(1) by (simp add: al_Update_def Time_IsInitialized_def)
  next
    case 3
    then have "alarm_cmd_step c w = al_Set a d w"
      using CmdUpdate by (simp add: al_Update_def al_Set_def Time_IsInitialized_def)
    moreover obtain w' where "al_Set a d w = Inr w'" "aw_inv P w'" "ae_timer (aw_engine w') \<noteq> None"
      "aw_now w' = aw_now w" "aw_log w' = aw_log w" "\<forall>b. b \<noteq> a \<longrightarrow> aw_alarms w' b = aw_alarms w b"
      using al_Set_ok [OF assms(1) a 3(3,1)] by auto
    ultimately show ?thesis using a by (auto simp: armed_def)
  next
    case 4
    then have "alarm_cmd_step c w = al_UpdateImpl a (aw_update a (\<lambda>al. al\<lparr>al_deadline := d\<rparr>) w)"
      using CmdUpdate by (simp add: al_Update_def Time_IsInitialized_def)
    moreover have "aw_now w \<le> d" "\<exists>m \<in> set (ae_map w). nd_cb m \<noteq> a" using 4 CmdUpdate assms(2) by auto
    from al_Reregister_ok [OF assms(1) a 4(3,1) this]
    obtain w' where "al_UpdateImpl a (aw_update a (\<lambda>al. al\<lparr>al_deadline := d\<rparr>) w) = Inr w'" "aw_inv P w'"
      "ae_timer (aw_engine w') \<noteq> None" "aw_now w' = aw_now w" "aw_log w' = aw_log w"
      "\<forall>b. b \<noteq> a \<longrightarrow> aw_alarms w' b = aw_alarms w b" by auto
    ultimately show ?thesis using a by (auto simp: armed_def)
  qed
qed

text \<open>The calls of a delegate, as an instance of the interface of call sequences: they keep the
  time, the log and the alarms still to be called.\<close>

definition cmds_inv :: "nat set \<Rightarrow> int \<Rightarrow> alarm_event list \<Rightarrow> (nat \<Rightarrow> alarm) \<Rightarrow> alarm_world \<Rightarrow> bool" where
  "cmds_inv P now l al w \<longleftrightarrow> aw_inv P w \<and> aw_now w = now \<and> aw_log w = l \<and> (\<forall>b \<in> P. aw_alarms w b = al b)"

interpretation alarm_cmds: call_system alarm_cmd_step "cmd_ok P" "cmds_inv P now l al" "\<lambda>e. False"
  for P now l al
proof
  show "case alarm_cmd_step c w of Inl e \<Rightarrow> False | Inr w' \<Rightarrow> cmds_inv P now l al w'"
    if "cmds_inv P now l al w" "cmd_ok P c w" for w c
    using cmd_step_ok [of P w c] that by (auto simp: cmds_inv_def)
qed

subsection \<open>The timeout\<close>

fun fire_ok :: "(nat \<Rightarrow> alarm_cmd list) \<Rightarrow> nat list \<Rightarrow> alarm_world \<Rightarrow> bool" where
  "fire_ok resp [] w \<longleftrightarrow> True"
| "fire_ok resp (a # as) w \<longleftrightarrow>
     (let w1 = al_clear a (snd (ba_OnAlarm a w))
      in run_legal alarm_cmd_step (cmd_ok (set as)) (resp a) w1 \<and>
         (case run_calls alarm_cmd_step (resp a) w1 of Inl e \<Rightarrow> True | Inr w2 \<Rightarrow> fire_ok resp as w2))"

lemma ae_call_alarm_once:
  "ae_call_alarm resp now cb w =
     (case al_Fire resp cb (snd (ba_OnAlarm cb w)) of Inl e \<Rightarrow> Inl e | Inr w' \<Rightarrow> Inr (0, w'))"
  by (simp add: al_OnAlarm_def split: sum.splits)

lemma al_clear_ok:
  assumes "aw_inv (insert a P) w" "a \<notin> P"
  shows "aw_inv P (al_clear a (snd (ba_OnAlarm a w)))"
proof -
  have ok: "alarms_ok (insert a P) (aw_now w) (ae_map w) (ae_all_alarms (aw_engine w)) (ae_next_id (aw_engine w)) (aw_alarms w)"
    using assms(1) by (simp add: aw_inv_def)
  have "al_deadline (aw_alarms w a) \<le> aw_now w" using ok by (simp add: alarms_ok_def)
  then have "log_ok (aw_log w @ [Fired (aw_now w) a (al_deadline (aw_alarms w a))])"
    using assms(1) by (auto simp: aw_inv_def log_ok_def)
  then show ?thesis
    using alarms_ok_called [OF ok assms(2), of "(aw_alarms w a)\<lparr>al_registered := False, al_deadline := 0\<rparr>"] assms(1)
    by (simp add: aw_inv_def al_clear_def ba_OnAlarm_def aw_update_def)
qed

lemma ae_fire_all_ok:
  assumes "aw_inv (set as) w" "distinct as" "fire_ok resp as w"
  shows "\<exists>w'. ae_fire_all resp now as w = Inr w' \<and> aw_inv {} w' \<and> aw_now w' = aw_now w \<and>
    aw_log w' = aw_log w @ map (\<lambda>a. Fired (aw_now w) a (al_deadline (aw_alarms w a))) as"
  using assms
proof (induction as arbitrary: w)
  case (Cons a as)
  let ?w1 = "al_clear a (snd (ba_OnAlarm a w))"
  let ?l = "aw_log w @ [Fired (aw_now w) a (al_deadline (aw_alarms w a))]"
  have i1: "aw_inv (set as) ?w1" using Cons.prems al_clear_ok [of a "set as" w] by simp
  have "al_deadline (aw_alarms w a) \<noteq> 0" using Cons.prems(1) by (simp add: aw_inv_def alarms_ok_def)
  then have s: "al_IsSet a (snd (ba_OnAlarm a w))"
    by (simp add: al_IsSet_def Time_IsInitialized_def ba_OnAlarm_def aw_update_def)
  have "cmds_inv (set as) (aw_now w) ?l (aw_alarms w) ?w1"
    using i1 Cons.prems(2) by (auto simp: cmds_inv_def al_clear_def ba_OnAlarm_def aw_update_def)
  then obtain w2 where w2: "run_calls alarm_cmd_step (resp a) ?w1 = Inr w2" "cmds_inv (set as) (aw_now w) ?l (aw_alarms w) w2"
    using alarm_cmds.run_outcome [of "set as" "aw_now w" ?l "aw_alarms w" ?w1 "resp a"] Cons.prems(3)
    by (auto simp: Let_def split: sum.splits)
  moreover have "fire_ok resp as w2" using Cons.prems(3) w2(1) by (simp add: Let_def)
  ultimately obtain w' where w': "ae_fire_all resp now as w2 = Inr w'" "aw_inv {} w'" "aw_now w' = aw_now w2"
    "aw_log w' = aw_log w2 @ map (\<lambda>a. Fired (aw_now w2) a (al_deadline (aw_alarms w2 a))) as"
    using Cons.IH [of w2] Cons.prems(2) by (auto simp: cmds_inv_def)
  moreover have "ae_fire_all resp now (a # as) w = ae_fire_all resp now as w2"
    using s w2(1) by (simp add: ae_call_alarm_once al_Fire_def del: ae_call_alarm.simps)
  ultimately show ?case using w2(2) by (simp add: cmds_inv_def)
qed simp

lemma take_due_ok:
  assumes "aw_inv P w" "set due \<subseteq> set (ae_map w)" "distinct (map nd_id due)" "\<forall>n \<in> set due. nd_time n \<le> aw_now w"
  shows "aw_inv (P \<union> nd_cb ` set due)
      (fold (\<lambda>n w. ae_erase_alarm (nd_cb n) (ae_set_map (mm_erase (nd_id n) (ae_map w)) w)) due w) \<and>
    aw_now (fold (\<lambda>n w. ae_erase_alarm (nd_cb n) (ae_set_map (mm_erase (nd_id n) (ae_map w)) w)) due w) = aw_now w \<and>
    aw_log (fold (\<lambda>n w. ae_erase_alarm (nd_cb n) (ae_set_map (mm_erase (nd_id n) (ae_map w)) w)) due w) = aw_log w \<and>
    aw_alarms (fold (\<lambda>n w. ae_erase_alarm (nd_cb n) (ae_set_map (mm_erase (nd_id n) (ae_map w)) w)) due w) = aw_alarms w"
  using assms
proof (induction due arbitrary: P w)
  case (Cons n due)
  let ?w = "ae_erase_alarm (nd_cb n) (ae_set_map (mm_erase (nd_id n) (ae_map w)) w)"
  have ok: "alarms_ok P (aw_now w) (ae_map w) (ae_all_alarms (aw_engine w)) (ae_next_id (aw_engine w)) (aw_alarms w)"
    using Cons.prems(1) by (simp add: aw_inv_def)
  have "n \<in> set (ae_map w)" "nd_time n \<le> aw_now w" using Cons.prems(2,4) by simp_all
  from alarms_ok_take [OF ok this] have "aw_inv (insert (nd_cb n) P) ?w"
    using Cons.prems(1) by (simp add: aw_inv_def ae_erase_alarm_def ae_set_map_def timer_ok_def)
  moreover have "set due \<subseteq> set (ae_map ?w)"
  proof
    fix m
    assume m: "m \<in> set due"
    then have "nd_id m \<in> nd_id ` set due" by (rule imageI)
    then have "nd_id m \<noteq> nd_id n" using Cons.prems(3) by auto
    then show "m \<in> set (ae_map ?w)" using m Cons.prems(2) by (auto simp: ae_erase_alarm_def ae_set_map_def)
  qed
  ultimately show ?case using Cons.IH [of "insert (nd_cb n) P" ?w] Cons.prems(3,4)
    by (simp add: ae_erase_alarm_def ae_set_map_def)
qed simp

definition due_nodes :: "alarm_world \<Rightarrow> alarm_node list" where
  "due_nodes w = filter (\<lambda>n. nd_time n \<le> aw_now w) (ae_map w)"

lemma takeWhile_sorted:
  "sorted (map f xs) \<Longrightarrow> takeWhile (\<lambda>x. \<not> f x > t) xs = filter (\<lambda>x. f x \<le> t) xs"
  for f :: "'a \<Rightarrow> int"
  by (induction xs) (auto simp: not_less intro!: filter_False [symmetric])

lemma ae_OnTimeout_ok:
  assumes "aw_inv {} w" "fire_ok resp (fst (ae_take_due w)) (snd (ae_take_due w))"
  shows "\<exists>w' p. ae_OnTimeout resp w = Inr w' \<and> aw_inv {} w' \<and> armed w' \<and> aw_now w' = aw_now w \<and>
    aw_log w' = aw_log w @ map (\<lambda>n. Fired (aw_now w) (nd_cb n) (al_deadline (aw_alarms w (nd_cb n)))) (due_nodes w) @ p \<and>
    (p = [] \<or> p = [PostProcessing (aw_now w)])"
proof -
  have ok: "alarms_ok {} (aw_now w) (ae_map w) (ae_all_alarms (aw_engine w)) (ae_next_id (aw_engine w)) (aw_alarms w)"
    using assms(1) by (simp add: aw_inv_def)
  have due: "takeWhile (\<lambda>n. \<not> nd_time n > aw_now w) (ae_map w) = due_nodes w"
    unfolding due_nodes_def by (rule takeWhile_sorted [OF alarms_okD(1) [OF ok]])
  define w1 where "w1 = snd (ae_take_due w)"
  have f: "fst (ae_take_due w) = map nd_cb (due_nodes w)" by (simp add: ae_take_due_def due Let_def)
  have "set (due_nodes w) \<subseteq> set (ae_map w)" "distinct (map nd_id (due_nodes w))" "\<forall>n \<in> set (due_nodes w). nd_time n \<le> aw_now w"
    using distinct_map_filter [OF alarms_okD(2) [OF ok]] by (auto simp: due_nodes_def)
  from take_due_ok [OF assms(1) this]
  have w1: "aw_inv (set (map nd_cb (due_nodes w))) w1" "aw_now w1 = aw_now w" "aw_log w1 = aw_log w" "aw_alarms w1 = aw_alarms w"
    by (simp_all add: w1_def ae_take_due_def due Let_def)
  have "distinct (map nd_cb (due_nodes w))" unfolding due_nodes_def by (rule distinct_map_filter [OF alarms_okD(3) [OF ok]])
  from ae_fire_all_ok [OF w1(1) this] assms(2)
  obtain w2 where w2: "ae_fire_all resp (aw_now w) (map nd_cb (due_nodes w)) w1 = Inr w2" "aw_inv {} w2" "aw_now w2 = aw_now w"
    "aw_log w2 = aw_log w @ map (\<lambda>a. Fired (aw_now w) a (al_deadline (aw_alarms w a))) (map nd_cb (due_nodes w))"
    by (auto simp: f w1_def [symmetric] w1(2-))
  define w3 where "w3 = (if due_nodes w \<noteq> [] \<and> ae_visitor (aw_engine w2)
      then w2\<lparr>aw_log := aw_log w2 @ [PostProcessing (aw_now w2)]\<rparr> else w2)"
  have "aw_inv {} w3" using w2(2) by (auto simp: w3_def aw_inv_def log_ok_def)
  then obtain t where t: "ae_UpdateTimer w3 = Inr (ae_set_timer t w3)" "aw_inv {} (ae_set_timer t w3)" "ae_map w3 \<noteq> [] \<longrightarrow> t \<noteq> None"
    using ae_UpdateTimer_ok by blast
  have "ae_OnTimeout resp w = ae_UpdateTimer w3"
    by (simp add: ae_OnTimeout_def case_prod_beta f w1_def [symmetric] w2(1) w3_def Let_def)
  moreover have "armed (ae_set_timer t w3)" using t(3) by (simp add: armed_def ae_set_timer_def)
  moreover have "aw_now (ae_set_timer t w3) = aw_now w" using w2(3) by (simp add: ae_set_timer_def w3_def)
  moreover have "aw_log (ae_set_timer t w3) = aw_log w @ map (\<lambda>n. Fired (aw_now w) (nd_cb n) (al_deadline (aw_alarms w (nd_cb n))))
      (due_nodes w) @ (if due_nodes w \<noteq> [] \<and> ae_visitor (aw_engine w2) then [PostProcessing (aw_now w)] else [])"
    using w2(3,4) by (simp add: ae_set_timer_def w3_def comp_def)
  ultimately show ?thesis using t(1,2) by (auto split: if_splits)
qed

subsection \<open>Legal runs\<close>

fun alarm_ok :: "alarm_call \<Rightarrow> alarm_world \<Rightarrow> bool" where
  "alarm_ok (AlCmd c) w \<longleftrightarrow> cmd_ok {} c w"
| "alarm_ok (AlTick t) w \<longleftrightarrow> aw_now w \<le> t \<and> (case ae_timer (aw_engine w) of None \<Rightarrow> True | Some x \<Rightarrow> t \<le> x)"
| "alarm_ok (AlTimeout resp) w \<longleftrightarrow> ae_timer (aw_engine w) = Some (aw_now w) \<and>
     fire_ok resp (fst (ae_take_due (ae_set_timer None w))) (snd (ae_take_due (ae_set_timer None w)))"

lemma tick_ok:
  assumes "aw_inv {} w" "armed w" "alarm_ok (AlTick t) w"
  shows "aw_inv {} (w\<lparr>aw_now := t\<rparr>) \<and> armed (w\<lparr>aw_now := t\<rparr>)"
proof -
  have ok: "alarms_ok {} (aw_now w) (ae_map w) (ae_all_alarms (aw_engine w)) (ae_next_id (aw_engine w)) (aw_alarms w)"
    "timer_ok (aw_now w) (ae_map w) (ae_timer (aw_engine w))"
    using assms(1) by (auto simp: aw_inv_def)
  have t: "aw_now w \<le> t" "\<forall>n \<in> set (ae_map w). t \<le> nd_time n"
    using assms(2,3) ok(2) by (cases "ae_timer (aw_engine w)"; fastforce simp: armed_def timer_ok_def)+
  have "node_ok t (ae_next_id (aw_engine w)) (aw_alarms w) n" if "n \<in> set (ae_map w)" for n
    using alarms_okD(5) [OF ok(1) that] t that by (auto simp: node_ok_def)
  then have "alarms_ok {} t (ae_map w) (ae_all_alarms (aw_engine w)) (ae_next_id (aw_engine w)) (aw_alarms w)"
    using ok(1) by (simp add: alarms_ok_def)
  then show ?thesis using assms ok(2) by (cases "ae_timer (aw_engine w)") (auto simp: aw_inv_def armed_def timer_ok_def)
qed

lemma alarm_step_ok:
  assumes "aw_inv {} w" "armed w" "alarm_ok c w"
  shows "\<exists>w'. alarm_step c w = Inr w' \<and> aw_inv {} w' \<and> armed w'"
proof (cases c)
  case (AlCmd d)
  then show ?thesis using cmd_step_ok [OF assms(1), of d] assms(2,3) by auto
next
  case (AlTick t)
  then show ?thesis using tick_ok [OF assms(1,2)] assms(3) by simp
next
  case (AlTimeout resp)
  have "aw_inv {} (ae_set_timer None w)" using assms(1) by (simp add: aw_inv_def ae_set_timer_def timer_ok_def)
  then show ?thesis using ae_OnTimeout_ok [of "ae_set_timer None w" resp] AlTimeout assms(3) by auto
qed

interpretation alarms: call_system alarm_step alarm_ok "\<lambda>w. aw_inv {} w \<and> armed w" "\<lambda>e. False"
proof
  show "case alarm_step c w of Inl e \<Rightarrow> False | Inr w' \<Rightarrow> aw_inv {} w' \<and> armed w'"
    if "aw_inv {} w \<and> armed w" "alarm_ok c w" for w c
    using alarm_step_ok [of w c] that by auto
qed

lemma alarm_world_new_ok: "aw_inv {} (alarm_world_new t) \<and> armed (alarm_world_new t)"
  by (simp add: alarm_world_new_def aw_inv_def alarms_ok_def timer_ok_def log_ok_def armed_def
      Ns3QuicAlarmEngine_new_def BaseAlarm_new_def)

text \<open>An alarm that is set has a node, and the timer runs out no later than it is due.\<close>

lemma set_alarm_due:
  assumes "aw_inv {} w" "armed w" "al_IsSet a w"
  shows "\<exists>x. ae_timer (aw_engine w) = Some x \<and> x \<le> max (aw_now w) (al_deadline (aw_alarms w a))"
proof -
  have "al_deadline (aw_alarms w a) \<noteq> 0" using assms(3) by (simp add: al_IsSet_def Time_IsInitialized_def)
  then obtain n where n: "n \<in> set (ae_map w)" "nd_cb n = a" using ae_node_of [OF assms(1)] by blast
  then obtain x where x: "ae_timer (aw_engine w) = Some x" using assms(2) by (auto simp: armed_def)
  have "x \<le> nd_time n" using assms(1) n(1) x by (auto simp: aw_inv_def timer_ok_def)
  moreover have "node_ok (aw_now w) (ae_next_id (aw_engine w)) (aw_alarms w) n"
    using assms(1) n(1) by (auto simp: aw_inv_def intro: alarms_okD(5))
  ultimately show ?thesis using n(2) x by (auto simp: node_ok_def)
qed

lemma set_due_nodes:
  assumes "aw_inv {} w"
  shows "nd_cb ` set (due_nodes w) = {a. al_IsSet a w \<and> al_deadline (aw_alarms w a) \<le> aw_now w}"
    "distinct (map nd_cb (due_nodes w))"
proof -
  have ok: "alarms_ok {} (aw_now w) (ae_map w) (ae_all_alarms (aw_engine w)) (ae_next_id (aw_engine w)) (aw_alarms w)"
    using assms by (simp add: aw_inv_def)
  have n: "nd_time n \<le> aw_now w \<longleftrightarrow> al_deadline (aw_alarms w (nd_cb n)) \<le> aw_now w" if "n \<in> set (ae_map w)" for n
    using alarms_okD(5) [OF ok that] by (auto simp: node_ok_def)
  have s: "al_IsSet a w \<longleftrightarrow> a \<in> nd_cb ` set (ae_map w)" for a
    using alarms_okD(7) [OF ok, of a] by (auto simp: al_IsSet_def Time_IsInitialized_def alarms_okD(4) [OF ok])
  show "nd_cb ` set (due_nodes w) = {a. al_IsSet a w \<and> al_deadline (aw_alarms w a) \<le> aw_now w}"
    unfolding s by (auto simp: due_nodes_def n)
  show "distinct (map nd_cb (due_nodes w))"
    unfolding due_nodes_def by (rule distinct_map_filter [OF alarms_okD(3) [OF ok]])
qed

lemma alarms_run:
  assumes "run_legal alarm_step alarm_ok es (alarm_world_new t0)"
  shows "\<exists>w. run_calls alarm_step es (alarm_world_new t0) = Inr w \<and> aw_inv {} w \<and> armed w"
  using alarms.run_outcome [OF alarm_world_new_ok assms] by (auto split: sum.splits)

subsection \<open>Properties\<close>

text \<open>C6: through every legal run of calls on the alarms of an engine no assertion fails and no
  iterator of an erased node is used, no alarm fires before its deadline, and none is
  late: while an alarm is set, the engine has an event scheduled no later than its deadline, or at once if
  the deadline has passed.\<close>

theorem alarms_on_time:
  assumes "run_legal alarm_step alarm_ok es (alarm_world_new t0)"
  shows "\<exists>w. run_calls alarm_step es (alarm_world_new t0) = Inr w \<and>
    (\<forall>t a d. Fired t a d \<in> set (aw_log w) \<longrightarrow> d \<le> t) \<and>
    (\<forall>a. al_IsSet a w \<longrightarrow>
       (\<exists>x. ae_timer (aw_engine w) = Some x \<and> x \<le> max (aw_now w) (al_deadline (aw_alarms w a))))"
  using alarms_run [OF assms] set_alarm_due by (fastforce simp: aw_inv_def log_ok_def)

theorem alarms_on_time_witness:
  "\<exists>w. run_calls alarm_step [AlCmd (CmdSet 0 300), AlCmd (CmdSet 1 200), AlTick 200, AlTimeout (\<lambda>a. [CmdSet 1 500])]
      (alarm_world_new 100) = Inr w \<and>
    (\<forall>t a d. Fired t a d \<in> set (aw_log w) \<longrightarrow> d \<le> t) \<and>
    (\<forall>a. al_IsSet a w \<longrightarrow>
       (\<exists>x. ae_timer (aw_engine w) = Some x \<and> x \<le> max (aw_now w) (al_deadline (aw_alarms w a))))"
  by (rule alarms_on_time) code_simp

text \<open>C15: a timeout of the engine fires exactly the alarms that are set and whose deadline has come, each once.\<close>

theorem timeout_fires_due:
  assumes "run_legal alarm_step alarm_ok (es @ [AlTimeout resp]) (alarm_world_new t0)"
    "run_calls alarm_step es (alarm_world_new t0) = Inr w"
  shows "\<exists>w' as p. alarm_step (AlTimeout resp) w = Inr w' \<and> distinct as \<and>
    set as = {a. al_IsSet a w \<and> al_deadline (aw_alarms w a) \<le> aw_now w} \<and>
    aw_log w' = aw_log w @ map (\<lambda>a. Fired (aw_now w) a (al_deadline (aw_alarms w a))) as @ p \<and>
    (p = [] \<or> p = [PostProcessing (aw_now w)])"
proof -
  have l: "run_legal alarm_step alarm_ok es (alarm_world_new t0)" "alarm_ok (AlTimeout resp) w"
    using run_legal_append [THEN iffD1, OF assms(1)] assms(2) by auto
  then have "aw_inv {} w" using alarms_run [OF l(1)] assms(2) by auto
  then have i: "aw_inv {} (ae_set_timer None w)" by (simp add: aw_inv_def ae_set_timer_def timer_ok_def)
  have f: "aw_now (ae_set_timer None w) = aw_now w" "aw_log (ae_set_timer None w) = aw_log w"
    "aw_alarms (ae_set_timer None w) = aw_alarms w" "al_IsSet a (ae_set_timer None w) = al_IsSet a w" for a
    by (simp_all add: ae_set_timer_def al_IsSet_def)
  show ?thesis
    using ae_OnTimeout_ok [OF i, of resp] set_due_nodes [OF i] l(2)
    by (intro exI [of _ "projr (ae_OnTimeout resp (ae_set_timer None w))"] exI [of _ "map nd_cb (due_nodes (ae_set_timer None w))"])
       (auto simp: f comp_def)
qed

theorem timeout_fires_due_witness:
  "\<exists>w w' as p. run_calls alarm_step [AlCmd (CmdSet 0 300), AlCmd (CmdSet 1 200), AlTick 200] (alarm_world_new 100) = Inr w \<and>
    alarm_step (AlTimeout (\<lambda>a. [])) w = Inr w' \<and> distinct as \<and>
    set as = {a. al_IsSet a w \<and> al_deadline (aw_alarms w a) \<le> aw_now w} \<and>
    aw_log w' = aw_log w @ map (\<lambda>a. Fired (aw_now w) a (al_deadline (aw_alarms w a))) as @ p \<and>
    (p = [] \<or> p = [PostProcessing (aw_now w)])"
proof -
  have l: "run_legal alarm_step alarm_ok ([AlCmd (CmdSet 0 300), AlCmd (CmdSet 1 200), AlTick 200] @ [AlTimeout (\<lambda>a. [])])
      (alarm_world_new 100)" by code_simp
  then have "run_legal alarm_step alarm_ok [AlCmd (CmdSet 0 300), AlCmd (CmdSet 1 200), AlTick 200] (alarm_world_new 100)"
    by (simp only: run_legal_append)
  then obtain w where "run_calls alarm_step [AlCmd (CmdSet 0 300), AlCmd (CmdSet 1 200), AlTick 200] (alarm_world_new 100) = Inr w"
    using alarms_run by blast
  then show ?thesis using timeout_fires_due [OF l] by blast
qed


text \<open>C40: moving the only alarm of an engine fails the assertion that another one is left.\<close>

theorem update_only_alarm_fails:
  assumes "run_legal alarm_step alarm_ok es (alarm_world_new t0)" "run_calls alarm_step es (alarm_world_new t0) = Inr w"
    "al_IsSet a w" "\<forall>b. al_IsSet b w \<longrightarrow> b = a" "d \<noteq> 0" "g \<le> \<bar>d - al_deadline (aw_alarms w a)\<bar>"
  shows "al_Update a d g w = Inl AssertFailed"
proof -
  have i: "aw_inv {} w" using alarms_run [OF assms(1)] assms(2) by auto
  then have ok: "alarms_ok {} (aw_now w) (ae_map w) (ae_all_alarms (aw_engine w)) (ae_next_id (aw_engine w)) (aw_alarms w)"
    by (simp add: aw_inv_def)
  obtain n where n: "n \<in> set (ae_map w)" "nd_cb n = a" "al_token (aw_alarms w a) = nd_id n"
    "mm_find (nd_id n) (ae_map w) = Some n" "al_registered (aw_alarms w a)" "al_engine (aw_alarms w a)"
    using ae_node_of [OF i, of a] assms(3) by (auto simp: al_IsSet_def Time_IsInitialized_def)
  have "ae_all_alarms (aw_engine w) \<subseteq> {a}"
    using alarms_okD(7) [OF ok] assms(4) by (auto simp: al_IsSet_def Time_IsInitialized_def)
  then have "nd_cb ` set (mm_erase (nd_id n) (ae_map w)) \<subseteq> {}"
    using mm_erase_cbs [OF alarms_okD(3,2) [OF ok] n(1)] n(2) by (auto simp: alarms_okD(4) [OF ok] simp del: set_mm_erase)
  then have "mm_erase (nd_id n) (ae_map w) = []" by (simp del: set_mm_erase)
  then show ?thesis using n assms(3,5,6)
    by (simp add: al_Update_def al_UpdateImpl_def ba_ReregisterAlarm_def ae_ReregisterAlarm_def ae_state_defs
        Time_IsInitialized_def Let_def)
qed

theorem update_only_alarm_fails_witness:
  "al_Update 0 400 1 (projr (alarm_step (AlCmd (CmdSet 0 300)) (alarm_world_new 100))) = Inl AssertFailed"
proof (rule update_only_alarm_fails)
  show "run_legal alarm_step alarm_ok [AlCmd (CmdSet 0 300)] (alarm_world_new 100)" by code_simp
  show "run_calls alarm_step [AlCmd (CmdSet 0 300)] (alarm_world_new 100) =
    Inr (projr (alarm_step (AlCmd (CmdSet 0 300)) (alarm_world_new 100)))"
    using alarms_run [OF \<open>run_legal _ _ _ _\<close>] by (auto split: sum.splits)
qed (simp_all add: al_Set_def al_SetImpl_def ae_RegisterAlarm_def al_IsSet_def Time_IsInitialized_def alarm_world_new_def
      Ns3QuicAlarmEngine_new_def ae_state_defs ba_OnRegistration_def BaseAlarm_new_def ae_UpdateTimer_def Let_def)

end
