(* ===== verification/Data_Codec.thy ===== *)
theory Data_Codec
  imports Call_Runs
begin

text \<open>
  The byte codec of the QUIC stack: \<open>QuicheDataWriter\<close> and \<open>QuicheDataReader\<close> (\<open>quiche_data_writer.cc\<close>,
  \<open>quiche_data_reader.cc\<close>) and their QUIC subclasses (\<open>quic_data_writer.cc\<close>, \<open>quic_data_reader.cc\<close>) with the
  62-bit variable length integers of the wire format and the 16-bit floating point format of
  ack delays. A \<open>size_t\<close> counts bytes of a buffer in memory and is a natural number. A writer
  writes into a buffer it does not own, so the buffer is part of its state. A read
  gives the value read, or nothing where the code returns false. Random bytes and the decimal
  parser of the absl library are arguments.
\<close>

unbundle bit_operations_syntax

datatype endianness = NETWORK_BYTE_ORDER | HOST_BYTE_ORDER

type_synonym bytes = "u8 list"

record data_writer =
  dw_buffer :: bytes
  dw_capacity :: nat
  dw_length :: nat
  dw_endianness :: endianness

record data_reader =
  dr_data :: bytes
  dr_len :: nat
  dr_pos :: nat
  dr_endianness :: endianness

subsection \<open>Integers in memory\<close>

text \<open>The host is little endian: the bytes of an integer of \<open>n\<close> bytes in memory order, and the integer they hold.\<close>

fun le_bytes :: "nat \<Rightarrow> nat \<Rightarrow> bytes" where
  "le_bytes 0 v = []"
| "le_bytes (Suc n) v = of_nat v # le_bytes n (v div 256)"

fun le_value :: "bytes \<Rightarrow> nat" where
  "le_value [] = 0"
| "le_value (b # bs) = unat b + 256 * le_value bs"

text \<open>\<open>PortableByteSwap\<close> at the three widths.\<close>

definition HostToNet16 :: "u16 \<Rightarrow> u16" where "HostToNet16 x = of_nat (le_value (rev (le_bytes 2 (unat x))))"
definition HostToNet32 :: "u32 \<Rightarrow> u32" where "HostToNet32 x = of_nat (le_value (rev (le_bytes 4 (unat x))))"
definition HostToNet64 :: "u64 \<Rightarrow> u64" where "HostToNet64 x = of_nat (le_value (rev (le_bytes 8 (unat x))))"
definition NetToHost16 :: "u16 \<Rightarrow> u16" where "NetToHost16 x = HostToNet16 x"
definition NetToHost32 :: "u32 \<Rightarrow> u32" where "NetToHost32 x = HostToNet32 x"
definition NetToHost64 :: "u64 \<Rightarrow> u64" where "NetToHost64 x = HostToNet64 x"

subsection \<open>\<open>QuicheDataWriter\<close>\<close>

definition DataWriter_new :: "nat \<Rightarrow> bytes \<Rightarrow> endianness \<Rightarrow> data_writer" where
  "DataWriter_new sz buffer e = \<lparr>dw_buffer = buffer, dw_capacity = sz, dw_length = 0, dw_endianness = e\<rparr>"

definition dw_remaining :: "data_writer \<Rightarrow> nat" where
  "dw_remaining w = dw_capacity w - dw_length w"

text \<open>The offset to write at, or nothing for a null pointer.\<close>

definition BeginWrite :: "nat \<Rightarrow> data_writer \<Rightarrow> nat option" where
  "BeginWrite len w =
     (if dw_length w > dw_capacity w then None
      else if dw_capacity w - dw_length w < len then None
      else Some (dw_length w))"

definition mem_copy :: "nat \<Rightarrow> bytes \<Rightarrow> bytes \<Rightarrow> bytes" where
  "mem_copy dest bs mem = take dest mem @ bs @ drop (dest + length bs) mem"

definition WriteBytes :: "bytes \<Rightarrow> data_writer \<Rightarrow> bool \<times> data_writer" where
  "WriteBytes data w =
     (case BeginWrite (length data) w of
        None \<Rightarrow> (False, w)
      | Some dest \<Rightarrow> (True, w\<lparr>dw_buffer := mem_copy dest data (dw_buffer w), dw_length := dw_length w + length data\<rparr>))"

definition WriteRepeatedByte :: "u8 \<Rightarrow> nat \<Rightarrow> data_writer \<Rightarrow> bool \<times> data_writer" where
  "WriteRepeatedByte byte count w =
     (case BeginWrite count w of
        None \<Rightarrow> (False, w)
      | Some dest \<Rightarrow> (True, w\<lparr>dw_buffer := mem_copy dest (replicate count byte) (dw_buffer w),
                            dw_length := dw_length w + count\<rparr>))"

definition WritePadding :: "data_writer \<Rightarrow> data_writer" where
  "WritePadding w =
     (if dw_length w > dw_capacity w then w
      else w\<lparr>dw_buffer := mem_copy (dw_length w) (replicate (dw_capacity w - dw_length w) 0) (dw_buffer w),
             dw_length := dw_capacity w\<rparr>)"

definition WritePaddingBytes :: "nat \<Rightarrow> data_writer \<Rightarrow> bool \<times> data_writer" where
  "WritePaddingBytes count w = WriteRepeatedByte 0 count w"

definition dw_Seek :: "nat \<Rightarrow> data_writer \<Rightarrow> bool \<times> data_writer" where
  "dw_Seek len w =
     (case BeginWrite len w of None \<Rightarrow> (False, w) | Some dest \<Rightarrow> (True, w\<lparr>dw_length := dw_length w + len\<rparr>))"

definition WriteUInt8 :: "u8 \<Rightarrow> data_writer \<Rightarrow> bool \<times> data_writer" where
  "WriteUInt8 v w = WriteBytes (le_bytes 1 (unat v)) w"

definition WriteUInt16 :: "u16 \<Rightarrow> data_writer \<Rightarrow> bool \<times> data_writer" where
  "WriteUInt16 v w =
     (let v' = (if dw_endianness w = NETWORK_BYTE_ORDER then HostToNet16 v else v)
      in WriteBytes (le_bytes 2 (unat v')) w)"

definition WriteUInt32 :: "u32 \<Rightarrow> data_writer \<Rightarrow> bool \<times> data_writer" where
  "WriteUInt32 v w =
     (let v' = (if dw_endianness w = NETWORK_BYTE_ORDER then HostToNet32 v else v)
      in WriteBytes (le_bytes 4 (unat v')) w)"

definition WriteUInt64 :: "u64 \<Rightarrow> data_writer \<Rightarrow> bool \<times> data_writer" where
  "WriteUInt64 v w =
     (let v' = (if dw_endianness w = NETWORK_BYTE_ORDER then HostToNet64 v else v)
      in WriteBytes (le_bytes 8 (unat v')) w)"

definition WriteBytesToUInt64 :: "nat \<Rightarrow> u64 \<Rightarrow> data_writer \<Rightarrow> bool \<times> data_writer" where
  "WriteBytesToUInt64 num_bytes v w =
     (if num_bytes > 8 then (False, w)
      else if dw_endianness w = HOST_BYTE_ORDER then WriteBytes (take num_bytes (le_bytes 8 (unat v))) w
      else WriteBytes (drop (8 - num_bytes) (le_bytes 8 (unat (HostToNet64 v)))) w)"

definition WriteTag :: "u32 \<Rightarrow> data_writer \<Rightarrow> bool \<times> data_writer" where
  "WriteTag tag w = WriteBytes (le_bytes 4 (unat tag)) w"

definition WriteStringPiece :: "bytes \<Rightarrow> data_writer \<Rightarrow> bool \<times> data_writer" where
  "WriteStringPiece val w = WriteBytes val w"

text \<open>\<open>a && b\<close> of two writes.\<close>

definition and_then :: "bool \<times> data_writer \<Rightarrow> (data_writer \<Rightarrow> bool \<times> data_writer) \<Rightarrow> bool \<times> data_writer" where
  "and_then r f = (if fst r then f (snd r) else r)"

definition WriteStringPiece16 :: "bytes \<Rightarrow> data_writer \<Rightarrow> bool \<times> data_writer" where
  "WriteStringPiece16 val w =
     (if length val > 65535 then (False, w)
      else and_then (WriteUInt16 (of_nat (length val)) w) (WriteBytes val))"

subsection \<open>\<open>QuicDataWriter\<close>\<close>

definition kUFloat16MaxExponent :: nat where "kUFloat16MaxExponent = 30"
definition kUFloat16MantissaBits :: nat where "kUFloat16MantissaBits = 11"
definition kUFloat16MantissaEffectiveBits :: nat where "kUFloat16MantissaEffectiveBits = 12"
definition kUFloat16MaxValue :: u64 where
  "kUFloat16MaxValue = push_bit kUFloat16MaxExponent (push_bit kUFloat16MantissaEffectiveBits 1 - 1)"

definition kVarInt62ErrorMask :: u64 where "kVarInt62ErrorMask = 0xc000000000000000"
definition kVarInt62Mask8Bytes :: u64 where "kVarInt62Mask8Bytes = 0x3fffffffc0000000"
definition kVarInt62Mask4Bytes :: u64 where "kVarInt62Mask4Bytes = 0x000000003fffc000"
definition kVarInt62Mask2Bytes :: u64 where "kVarInt62Mask2Bytes = 0x0000000000003fc0"

text \<open>One round of the binary search of \<open>WriteUFloat16\<close>, and the loop over the offsets 16, 8, 4, 2, 1.\<close>

definition ufloat16_shift :: "nat \<Rightarrow> nat \<times> u64 \<Rightarrow> nat \<times> u64" where
  "ufloat16_shift offset st =
     (if snd st \<ge> push_bit (kUFloat16MantissaBits + offset) 1
      then (fst st + offset, drop_bit offset (snd st)) else st)"

function ufloat16_loop :: "nat \<Rightarrow> nat \<times> u64 \<Rightarrow> nat \<times> u64" where
  "ufloat16_loop offset st =
     (if offset > 0 then ufloat16_loop (offset div 2) (ufloat16_shift offset st) else st)"
  by pat_completeness auto

termination ufloat16_loop
  by (relation "measure fst") auto

definition ufloat16_encode :: "u64 \<Rightarrow> u16" where
  "ufloat16_encode value =
     (if value < push_bit kUFloat16MantissaEffectiveBits 1 then ucast value
      else if value \<ge> kUFloat16MaxValue then 0xffff
      else let (exponent, v) = ufloat16_loop 16 (0, value)
           in ucast (v + of_nat (exponent * 2 ^ kUFloat16MantissaBits)))"

definition WriteUFloat16 :: "u64 \<Rightarrow> data_writer \<Rightarrow> bool \<times> data_writer" where
  "WriteUFloat16 value w =
     (let result = ufloat16_encode value;
          result' = (if dw_endianness w = NETWORK_BYTE_ORDER then HostToNet16 result else result)
      in WriteBytes (le_bytes 2 (unat result')) w)"

text \<open>A connection id is its bytes; its length fits one byte.\<close>

definition WriteConnectionId :: "bytes \<Rightarrow> data_writer \<Rightarrow> bool \<times> data_writer" where
  "WriteConnectionId connection_id w = (if connection_id = [] then (True, w) else WriteBytes connection_id w)"

definition WriteLengthPrefixedConnectionId :: "bytes \<Rightarrow> data_writer \<Rightarrow> bool \<times> data_writer" where
  "WriteLengthPrefixedConnectionId connection_id w =
     and_then (WriteUInt8 (of_nat (length connection_id)) w) (WriteConnectionId connection_id)"

definition WriteRandomBytes :: "bytes \<Rightarrow> data_writer \<Rightarrow> bool \<times> data_writer" where
  "WriteRandomBytes random w =
     (case BeginWrite (length random) w of
        None \<Rightarrow> (False, w)
      | Some dest \<Rightarrow> (True, w\<lparr>dw_buffer := mem_copy dest random (dw_buffer w), dw_length := dw_length w + length random\<rparr>))"

text \<open>The bytes that \<open>WriteVarInt62\<close> stores, by the length of the encoding.\<close>

definition varint8_bytes :: "u64 \<Rightarrow> bytes" where
  "varint8_bytes v =
     [ucast ((drop_bit 56 v AND 0x3f) + 0xc0), ucast (drop_bit 48 v AND 0xff), ucast (drop_bit 40 v AND 0xff),
      ucast (drop_bit 32 v AND 0xff), ucast (drop_bit 24 v AND 0xff), ucast (drop_bit 16 v AND 0xff),
      ucast (drop_bit 8 v AND 0xff), ucast (v AND 0xff)]"

definition varint4_bytes :: "u64 \<Rightarrow> bytes" where
  "varint4_bytes v =
     [ucast ((drop_bit 24 v AND 0x3f) + 0x80), ucast (drop_bit 16 v AND 0xff), ucast (drop_bit 8 v AND 0xff),
      ucast (v AND 0xff)]"

definition varint2_bytes :: "u64 \<Rightarrow> bytes" where
  "varint2_bytes v = [ucast ((drop_bit 8 v AND 0x3f) + 0x40), ucast (v AND 0xff)]"

definition varint1_bytes :: "u64 \<Rightarrow> bytes" where
  "varint1_bytes v = [ucast (v AND 0x3f)]"

definition store_bytes :: "bytes \<Rightarrow> data_writer \<Rightarrow> bool \<times> data_writer" where
  "store_bytes bs w =
     (if dw_remaining w \<ge> length bs
      then (True, w\<lparr>dw_buffer := mem_copy (dw_length w) bs (dw_buffer w), dw_length := dw_length w + length bs\<rparr>)
      else (False, w))"

definition WriteVarInt62 :: "u64 \<Rightarrow> data_writer \<Rightarrow> bool \<times> data_writer" where
  "WriteVarInt62 value w =
     (if value AND kVarInt62ErrorMask = 0
      then
        if value AND kVarInt62Mask8Bytes \<noteq> 0 then store_bytes (varint8_bytes value) w
        else if value AND kVarInt62Mask4Bytes \<noteq> 0 then store_bytes (varint4_bytes value) w
        else if value AND kVarInt62Mask2Bytes \<noteq> 0 then store_bytes (varint2_bytes value) w
        else store_bytes (varint1_bytes value) w
      else (False, w))"

definition GetVarInt62Len :: "u64 \<Rightarrow> nat" where
  "GetVarInt62Len value =
     (if value AND kVarInt62ErrorMask \<noteq> 0 then 0
      else if value AND kVarInt62Mask8Bytes \<noteq> 0 then 8
      else if value AND kVarInt62Mask4Bytes \<noteq> 0 then 4
      else if value AND kVarInt62Mask2Bytes \<noteq> 0 then 2
      else 1)"

definition WriteVarInt62_len :: "u64 \<Rightarrow> nat \<Rightarrow> data_writer \<Rightarrow> bool \<times> data_writer" where
  "WriteVarInt62_len value write_length w =
     (if dw_remaining w < write_length then (False, w)
      else
        let min_length = GetVarInt62Len value
        in if write_length < min_length then (False, w)
           else if write_length = min_length then WriteVarInt62 value w
           else if write_length = 2 then and_then (WriteUInt8 0x40 w) (WriteUInt8 (ucast value))
           else if write_length = 4
           then and_then (and_then (WriteUInt8 0x80 w) (WriteUInt8 0)) (WriteUInt16 (ucast value))
           else if write_length = 8
           then and_then (and_then (and_then (WriteUInt8 0xc0 w) (WriteUInt8 0)) (WriteUInt16 0)) (WriteUInt32 (ucast value))
           else (False, w))"

definition WriteStringPieceVarInt62 :: "bytes \<Rightarrow> data_writer \<Rightarrow> bool \<times> data_writer" where
  "WriteStringPieceVarInt62 string_piece w =
     and_then (WriteVarInt62 (of_nat (length string_piece)) w)
       (\<lambda>w. if string_piece \<noteq> [] then WriteBytes string_piece w else (True, w))"

subsection \<open>\<open>QuicheDataReader\<close>\<close>

definition DataReader_new :: "bytes \<Rightarrow> endianness \<Rightarrow> data_reader" where
  "DataReader_new data e = \<lparr>dr_data = data, dr_len = length data, dr_pos = 0, dr_endianness = e\<rparr>"

definition CanRead :: "nat \<Rightarrow> data_reader \<Rightarrow> bool" where
  "CanRead n r \<longleftrightarrow> n \<le> dr_len r - dr_pos r"

definition OnFailure :: "data_reader \<Rightarrow> data_reader" where
  "OnFailure r = r\<lparr>dr_pos := dr_len r\<rparr>"

definition AdvancePos :: "nat \<Rightarrow> data_reader \<Rightarrow> data_reader" where
  "AdvancePos amount r = r\<lparr>dr_pos := dr_pos r + amount\<rparr>"

definition BytesRemaining :: "data_reader \<Rightarrow> nat" where
  "BytesRemaining r = dr_len r - dr_pos r"

definition IsDoneReading :: "data_reader \<Rightarrow> bool" where
  "IsDoneReading r \<longleftrightarrow> dr_len r = dr_pos r"

definition ReadBytes :: "nat \<Rightarrow> data_reader \<Rightarrow> bytes option \<times> data_reader" where
  "ReadBytes sz r =
     (if \<not> CanRead sz r then (None, OnFailure r)
      else (Some (take sz (drop (dr_pos r) (dr_data r))), r\<lparr>dr_pos := dr_pos r + sz\<rparr>))"

definition ReadStringPiece :: "nat \<Rightarrow> data_reader \<Rightarrow> bytes option \<times> data_reader" where
  "ReadStringPiece sz r =
     (if \<not> CanRead sz r then (None, OnFailure r)
      else (Some (take sz (drop (dr_pos r) (dr_data r))), r\<lparr>dr_pos := dr_pos r + sz\<rparr>))"

definition dr_Seek :: "nat \<Rightarrow> data_reader \<Rightarrow> bool \<times> data_reader" where
  "dr_Seek sz r = (if \<not> CanRead sz r then (False, OnFailure r) else (True, r\<lparr>dr_pos := dr_pos r + sz\<rparr>))"

definition TruncateRemaining :: "nat \<Rightarrow> data_reader \<Rightarrow> bool \<times> data_reader" where
  "TruncateRemaining truncation_length r =
     (if truncation_length > BytesRemaining r then (False, r)
      else (True, r\<lparr>dr_len := dr_pos r + truncation_length\<rparr>))"

definition PeekByte :: "data_reader \<Rightarrow> u8 result" where
  "PeekByte r = (if dr_pos r \<ge> dr_len r then Inl CheckFailed else Inr (dr_data r ! dr_pos r))"

definition PeekRemainingPayload :: "data_reader \<Rightarrow> bytes" where
  "PeekRemainingPayload r = take (dr_len r - dr_pos r) (drop (dr_pos r) (dr_data r))"

definition ReadRemainingPayload :: "data_reader \<Rightarrow> bytes \<times> data_reader" where
  "ReadRemainingPayload r = (PeekRemainingPayload r, r\<lparr>dr_pos := dr_len r\<rparr>)"

definition FullPayload :: "data_reader \<Rightarrow> bytes" where
  "FullPayload r = take (dr_len r) (dr_data r)"

definition PreviouslyReadPayload :: "data_reader \<Rightarrow> bytes" where
  "PreviouslyReadPayload r = take (dr_pos r) (dr_data r)"

text \<open>A read whose result is passed through a function.\<close>

definition read_map :: "('a \<Rightarrow> 'b) \<Rightarrow> 'a option \<times> data_reader \<Rightarrow> 'b option \<times> data_reader" where
  "read_map f x = (map_option f (fst x), snd x)"

definition ReadUInt8 :: "data_reader \<Rightarrow> u8 option \<times> data_reader" where
  "ReadUInt8 r = read_map (\<lambda>bs. of_nat (le_value bs)) (ReadBytes 1 r)"

definition ReadUInt16 :: "data_reader \<Rightarrow> u16 option \<times> data_reader" where
  "ReadUInt16 r =
     read_map (\<lambda>bs. let v = of_nat (le_value bs)
                   in if dr_endianness r = NETWORK_BYTE_ORDER then NetToHost16 v else v) (ReadBytes 2 r)"

definition ReadUInt32 :: "data_reader \<Rightarrow> u32 option \<times> data_reader" where
  "ReadUInt32 r =
     read_map (\<lambda>bs. let v = of_nat (le_value bs)
                   in if dr_endianness r = NETWORK_BYTE_ORDER then NetToHost32 v else v) (ReadBytes 4 r)"

definition ReadUInt64 :: "data_reader \<Rightarrow> u64 option \<times> data_reader" where
  "ReadUInt64 r =
     read_map (\<lambda>bs. let v = of_nat (le_value bs)
                   in if dr_endianness r = NETWORK_BYTE_ORDER then NetToHost64 v else v) (ReadBytes 8 r)"

definition ReadBytesToUInt64 :: "nat \<Rightarrow> data_reader \<Rightarrow> u64 option \<times> data_reader" where
  "ReadBytesToUInt64 num_bytes r =
     (if num_bytes > 8 then (None, r)
      else if dr_endianness r = HOST_BYTE_ORDER
      then read_map (\<lambda>bs. of_nat (le_value (bs @ replicate (8 - num_bytes) 0))) (ReadBytes num_bytes r)
      else read_map (\<lambda>bs. NetToHost64 (of_nat (le_value (replicate (8 - num_bytes) 0 @ bs)))) (ReadBytes num_bytes r))"

definition ReadTag :: "data_reader \<Rightarrow> u32 option \<times> data_reader" where
  "ReadTag r = read_map (\<lambda>bs. of_nat (le_value bs)) (ReadBytes 4 r)"

definition ReadStringPiece16 :: "data_reader \<Rightarrow> bytes option \<times> data_reader" where
  "ReadStringPiece16 r =
     (case ReadUInt16 r of (None, r') \<Rightarrow> (None, r') | (Some result_len, r') \<Rightarrow> ReadStringPiece (unat result_len) r')"

definition ReadStringPiece8 :: "data_reader \<Rightarrow> bytes option \<times> data_reader" where
  "ReadStringPiece8 r =
     (case ReadUInt8 r of (None, r') \<Rightarrow> (None, r') | (Some result_len, r') \<Rightarrow> ReadStringPiece (unat result_len) r')"

text \<open>\<open>SimpleAtoi\<close> of the absl library is the argument \<open>atoi\<close>.\<close>

definition ReadDecimal64 :: "(bytes \<Rightarrow> u64 option) \<Rightarrow> nat \<Rightarrow> data_reader \<Rightarrow> u64 option \<times> data_reader" where
  "ReadDecimal64 atoi num_digits r =
     (case ReadStringPiece num_digits r of (None, r') \<Rightarrow> (None, r') | (Some digits, r') \<Rightarrow> (atoi digits, r'))"

subsection \<open>\<open>QuicDataReader\<close>\<close>

definition ufloat16_decode :: "u16 \<Rightarrow> u64" where
  "ufloat16_decode v =
     (if ucast v < (push_bit kUFloat16MantissaEffectiveBits 1 :: u64) then ucast v
      else
        let exponent = drop_bit kUFloat16MantissaBits v - 1;
            result = ucast v - push_bit kUFloat16MantissaBits (ucast exponent)
        in push_bit (unat exponent) result)"

definition ReadUFloat16 :: "data_reader \<Rightarrow> u64 option \<times> data_reader" where
  "ReadUFloat16 r = read_map ufloat16_decode (ReadUInt16 r)"

definition ReadConnectionId :: "u8 \<Rightarrow> data_reader \<Rightarrow> bytes option \<times> data_reader" where
  "ReadConnectionId len r =
     (if len = 0 then (Some [], r)
      else if BytesRemaining r < unat len then (None, r)
      else ReadBytes (unat len) r)"

definition ReadLengthPrefixedConnectionId :: "data_reader \<Rightarrow> bytes option \<times> data_reader" where
  "ReadLengthPrefixedConnectionId r =
     (case ReadUInt8 r of (None, r') \<Rightarrow> (None, r') | (Some len, r') \<Rightarrow> ReadConnectionId len r')"

definition PeekVarInt62Length :: "data_reader \<Rightarrow> nat" where
  "PeekVarInt62Length r =
     (if BytesRemaining r = 0 then 0
      else 2 ^ unat (drop_bit 6 (dr_data r ! dr_pos r AND 0xc0)))"

text \<open>The byte at offset \<open>i\<close> from the current position, as an integer.\<close>

definition next_byte :: "data_reader \<Rightarrow> nat \<Rightarrow> u64" where
  "next_byte r i = ucast (dr_data r ! (dr_pos r + i))"

definition ReadVarInt62 :: "data_reader \<Rightarrow> u64 option \<times> data_reader" where
  "ReadVarInt62 r =
     (let remaining = BytesRemaining r; b = next_byte r
      in if remaining \<noteq> 0
         then
           if b 0 AND 0xc0 = 0xc0
           then (if remaining \<ge> 8
                 then (Some (push_bit 56 (b 0 AND 0x3f) + push_bit 48 (b 1) + push_bit 40 (b 2) + push_bit 32 (b 3) +
                             push_bit 24 (b 4) + push_bit 16 (b 5) + push_bit 8 (b 6) + b 7), AdvancePos 8 r)
                 else (None, r))
           else if b 0 AND 0xc0 = 0x80
           then (if remaining \<ge> 4
                 then (Some (push_bit 24 (b 0 AND 0x3f) + push_bit 16 (b 1) + push_bit 8 (b 2) + b 3), AdvancePos 4 r)
                 else (None, r))
           else if b 0 AND 0xc0 = 0x40
           then (if remaining \<ge> 2
                 then (Some (push_bit 8 (b 0 AND 0x3f) + b 1), AdvancePos 2 r)
                 else (None, r))
           else (Some (b 0 AND 0x3f), AdvancePos 1 r)
         else (None, r))"

definition ReadStringPieceVarInt62 :: "data_reader \<Rightarrow> bytes option \<times> data_reader" where
  "ReadStringPieceVarInt62 r =
     (case ReadVarInt62 r of (None, r') \<Rightarrow> (None, r') | (Some result_length, r') \<Rightarrow> ReadStringPiece (unat result_length) r')"


subsection \<open>Integers in memory\<close>

lemma length_le_bytes [simp]: "length (le_bytes n v) = n"
  by (induction n arbitrary: v) auto

lemma unat_of_nat_u8 [simp]: "unat (of_nat v :: u8) = v mod 256"
  by (simp add: unsigned_of_nat take_bit_eq_mod)

lemma le_value_bytes: "le_value (le_bytes n v) = v mod 256 ^ n"
proof (induction n arbitrary: v)
  case (Suc n)
  have "v mod (256 * 256 ^ n) = 256 * (v div 256 mod 256 ^ n) + v mod 256" by (rule mod_mult2_eq)
  then show ?case using Suc by simp
qed simp

lemma le_bytes_value: "le_bytes (length bs) (le_value bs) = bs"
proof (induction bs)
  case (Cons b bs)
  have "(unat b + 256 * le_value bs) div 256 = le_value bs" using unat_bound [of b] by simp
  moreover have "unat (of_nat (unat b + 256 * le_value bs) :: u8) = unat b"
    unfolding unat_of_nat_u8 using unat_bound [of b] by simp
  then have "(of_nat (unat b + 256 * le_value bs) :: u8) = b" by (rule word_unat_eq_iff [THEN iffD2])
  ultimately show ?case using Cons by simp
qed simp

lemma le_value_less: "le_value bs < 256 ^ length bs"
proof (induction bs)
  case (Cons b bs)
  have "unat b \<le> 255" using unat_bound [of b] by simp
  then show ?case using Cons by simp
qed simp

lemma swap16: "le_bytes 2 (unat (HostToNet16 x)) = rev (le_bytes 2 (unat x))"
  and swap32: "le_bytes 4 (unat (HostToNet32 y)) = rev (le_bytes 4 (unat y))"
  and swap64: "le_bytes 8 (unat (HostToNet64 z)) = rev (le_bytes 8 (unat z))"
proof -
  have *: "le_bytes n (le_value (rev (le_bytes n v))) = rev (le_bytes n v)" for n v
    using le_bytes_value [of "rev (le_bytes n v)"] by simp
  have "le_value (rev (le_bytes n v)) < 256 ^ n" for n v using le_value_less [of "rev (le_bytes n v)"] by simp
  from this [of 2] this [of 4] this [of 8]
  have "unat (HostToNet16 x) = le_value (rev (le_bytes 2 (unat x)))"
    "unat (HostToNet32 y) = le_value (rev (le_bytes 4 (unat y)))"
    "unat (HostToNet64 z) = le_value (rev (le_bytes 8 (unat z)))"
    by (simp_all add: HostToNet16_def HostToNet32_def HostToNet64_def unsigned_of_nat take_bit_nat_eq_self)
  then show "le_bytes 2 (unat (HostToNet16 x)) = rev (le_bytes 2 (unat x))"
    "le_bytes 4 (unat (HostToNet32 y)) = rev (le_bytes 4 (unat y))"
    "le_bytes 8 (unat (HostToNet64 z)) = rev (le_bytes 8 (unat z))"
    by (simp_all only: *)
qed

lemma unswap16: "NetToHost16 (of_nat (le_value (rev (le_bytes 2 (unat x))))) = x"
  and unswap32: "NetToHost32 (of_nat (le_value (rev (le_bytes 4 (unat y))))) = y"
  and unswap64: "NetToHost64 (of_nat (le_value (rev (le_bytes 8 (unat z))))) = z"
proof -
  have l: "le_value (le_bytes 2 (unat x)) = unat x" "le_value (le_bytes 4 (unat y)) = unat y"
    "le_value (le_bytes 8 (unat z)) = unat z"
    using unat_bound [of x] unat_bound [of y] unat_bound [of z] by (simp_all add: le_value_bytes)
  show "NetToHost16 (of_nat (le_value (rev (le_bytes 2 (unat x))))) = x"
    unfolding NetToHost16_def HostToNet16_def [of x, symmetric]
    by (subst HostToNet16_def) (simp add: swap16 l(1) del: le_bytes.simps)
  show "NetToHost32 (of_nat (le_value (rev (le_bytes 4 (unat y))))) = y"
    unfolding NetToHost32_def HostToNet32_def [of y, symmetric]
    by (subst HostToNet32_def) (simp add: swap32 l(2) del: le_bytes.simps)
  show "NetToHost64 (of_nat (le_value (rev (le_bytes 8 (unat z))))) = z"
    unfolding NetToHost64_def HostToNet64_def [of z, symmetric]
    by (subst HostToNet64_def) (simp add: swap64 l(3) del: le_bytes.simps)
qed

subsection \<open>Writers and readers as byte sequences\<close>

definition dw_ok :: "data_writer \<Rightarrow> bool" where
  "dw_ok w \<longleftrightarrow> dw_length w \<le> dw_capacity w \<and> length (dw_buffer w) = dw_capacity w"

definition dw_bytes :: "data_writer \<Rightarrow> bytes" where
  "dw_bytes w = take (dw_length w) (dw_buffer w)"

definition appended :: "bytes \<Rightarrow> data_writer \<Rightarrow> data_writer \<Rightarrow> bool" where
  "appended bs w w' \<longleftrightarrow> dw_ok w' \<and> dw_bytes w' = dw_bytes w @ bs \<and> dw_capacity w' = dw_capacity w \<and>
     dw_endianness w' = dw_endianness w \<and> dw_length w' = dw_length w + length bs"

definition dr_ok :: "data_reader \<Rightarrow> bool" where
  "dr_ok r \<longleftrightarrow> dr_pos r \<le> dr_len r \<and> dr_len r \<le> length (dr_data r)"

definition dr_rest :: "data_reader \<Rightarrow> bytes" where
  "dr_rest r = take (dr_len r - dr_pos r) (drop (dr_pos r) (dr_data r))"

lemma appended_trans: "appended as w w1 \<Longrightarrow> appended bs w1 w2 \<Longrightarrow> appended (as @ bs) w w2"
  by (simp add: appended_def)

lemma appended_remaining: "appended bs w w' \<Longrightarrow> dw_remaining w' = dw_remaining w - length bs"
  by (simp add: appended_def dw_remaining_def)

lemma length_dr_rest: "dr_ok r \<Longrightarrow> length (dr_rest r) = BytesRemaining r"
  by (auto simp: dr_ok_def dr_rest_def BytesRemaining_def min_def)

lemma put_appended:
  assumes "dw_ok w" "length bs \<le> dw_remaining w"
  shows "appended bs w (w\<lparr>dw_buffer := mem_copy (dw_length w) bs (dw_buffer w), dw_length := dw_length w + length bs\<rparr>)"
  using assms by (auto simp: appended_def dw_ok_def dw_bytes_def mem_copy_def dw_remaining_def)

lemma WriteBytes_spec:
  assumes "dw_ok w"
  shows "if length bs \<le> dw_remaining w then \<exists>w'. WriteBytes bs w = (True, w') \<and> appended bs w w'
    else WriteBytes bs w = (False, w)"
  using assms put_appended [OF assms, of bs]
  by (auto simp: WriteBytes_def BeginWrite_def dw_ok_def dw_remaining_def)

lemma store_bytes_eq: "dw_ok w \<Longrightarrow> store_bytes bs w = WriteBytes bs w"
  by (auto simp: store_bytes_def WriteBytes_def BeginWrite_def dw_ok_def dw_remaining_def)

lemma ReadBytes_spec:
  assumes "dr_ok r"
  shows "if n \<le> length (dr_rest r)
    then \<exists>r'. ReadBytes n r = (Some (take n (dr_rest r)), r') \<and> dr_ok r' \<and> dr_rest r' = drop n (dr_rest r) \<and>
      dr_endianness r' = dr_endianness r
    else ReadBytes n r = (None, OnFailure r)"
  using assms length_dr_rest [OF assms]
  by (auto simp: ReadBytes_def CanRead_def dr_ok_def dr_rest_def BytesRemaining_def min_def drop_take add.commute)


subsection \<open>Variable length integers\<close>

lemma unat_and_ff: "unat ((v::u64) AND 0xff) = unat v mod 256"
proof -
  have "v AND 0xff = take_bit 8 v" by (simp add: take_bit_eq_mask mask_eq_exp_minus_1)
  then show ?thesis by (simp only: unsigned_take_bit_eq) (simp add: take_bit_eq_mod)
qed

lemma unat_and_3f: "unat ((v::u64) AND 0x3f) = unat v mod 64"
proof -
  have "v AND 0x3f = take_bit 6 v" by (simp add: take_bit_eq_mask mask_eq_exp_minus_1)
  then show ?thesis by (simp only: unsigned_take_bit_eq) (simp add: take_bit_eq_mod)
qed

lemma ucast_eq_of_nat: "(ucast (v :: 'a::len word) :: 'b::len word) = of_nat (unat v)"
  by simp

lemma unat_drop: "unat (drop_bit k (v :: 'a::len word)) = unat v div 2 ^ k"
  unfolding unat_drop_bit_eq by (rule drop_bit_eq_div)

lemma unat_ucast_u8: "unat (ucast (x::u64) :: u8) = unat x mod 256"
  by (simp only: unsigned_ucast_eq) (simp add: take_bit_eq_mod)

lemma and_run_of_ones: "(v::u64) AND push_bit lo (mask k) = push_bit lo (take_bit k (drop_bit lo v))"
  by (rule bit_word_eqI) (auto simp: bit_simps)

lemma and_run_zero:
  assumes "lo + k \<le> 64"
  shows "(v::u64) AND push_bit lo (mask k) = 0 \<longleftrightarrow> unat v div 2 ^ lo mod 2 ^ k = 0"
proof -
  define x where "x = take_bit k (drop_bit lo v)"
  have x: "unat x = unat v div 2 ^ lo mod 2 ^ k"
    by (simp only: x_def unsigned_take_bit_eq unat_drop) (simp add: take_bit_eq_mod)
  have "unat x < 2 ^ k" by (simp add: x)
  then have "unat x * 2 ^ lo < 2 ^ k * 2 ^ lo" by simp
  also have "\<dots> \<le> 2 ^ 64" using power_increasing [of "k + lo" 64 "2 :: nat"] assms by (simp only: power_add)
  finally have "unat (push_bit lo x) = unat x * 2 ^ lo"
    by (simp only: unsigned_push_bit_eq) (simp add: take_bit_eq_mod push_bit_eq_mult)
  then have "push_bit lo x = 0 \<longleftrightarrow> unat x = 0" by (simp flip: unat_eq_0)
  then show ?thesis by (simp only: and_run_of_ones x_def [symmetric] x)
qed

lemma of_nat_mod_u8: "(of_nat (n mod 256) :: u8) = of_nat n"
  by (rule word_unat_eq_iff [THEN iffD2]) simp

lemma low_byte_of_word: "(ucast ((v::u64) AND 0xff) :: u8) = of_nat (unat v)"
  by (simp only: ucast_eq_of_nat unat_and_ff of_nat_mod_u8)

lemma first_byte_of_word:
  assumes "unat v div 2 ^ k < 64" "unat p \<le> 192"
  shows "(ucast ((drop_bit k (v::u64) AND 0x3f) + p) :: u8) = of_nat (unat v div 2 ^ k) + ucast p"
proof -
  have x: "unat (drop_bit k v AND 0x3f) = unat v div 2 ^ k" using assms by (simp only: unat_and_3f unat_drop) simp
  then have "unat (ucast ((drop_bit k v AND 0x3f) + p) :: u8) = unat v div 2 ^ k + unat p"
    using assms by (simp add: unat_ucast_u8 unat_add_u64)
  moreover have "unat (of_nat (unat v div 2 ^ k) + ucast p :: u8) = unat v div 2 ^ k + unat p"
    using assms by (simp add: unat_word_ariths unat_ucast_u8)
  ultimately show ?thesis by (simp add: word_unat_eq_iff)
qed

lemma prefix_bytes: 
  assumes "n < 64"
  shows "((of_nat n + 0xc0 :: u8) AND 0x3f) = of_nat n" "((of_nat n + 0xc0 :: u8) AND 0xc0) = 0xc0"
    "((of_nat n + 0x80 :: u8) AND 0x3f) = of_nat n" "((of_nat n + 0x80 :: u8) AND 0xc0) = 0x80"
    "((of_nat n + 0x40 :: u8) AND 0x3f) = of_nat n" "((of_nat n + 0x40 :: u8) AND 0xc0) = 0x40"
    "((of_nat n :: u8) AND 0x3f) = of_nat n" "((of_nat n :: u8) AND 0xc0) = 0"
proof -
  have "\<forall>n \<in> set [0..<64]. ((of_nat n + 0xc0 :: u8) AND 0x3f) = of_nat n \<and> ((of_nat n + 0xc0 :: u8) AND 0xc0) = 0xc0 \<and>
    ((of_nat n + 0x80 :: u8) AND 0x3f) = of_nat n \<and> ((of_nat n + 0x80 :: u8) AND 0xc0) = 0x80 \<and>
    ((of_nat n + 0x40 :: u8) AND 0x3f) = of_nat n \<and> ((of_nat n + 0x40 :: u8) AND 0xc0) = 0x40 \<and>
    ((of_nat n :: u8) AND 0x3f) = of_nat n \<and> ((of_nat n :: u8) AND 0xc0) = 0"
    by code_simp
  moreover have "n \<in> set [0..<64]" using assms by simp
  ultimately show "((of_nat n + 0xc0 :: u8) AND 0x3f) = of_nat n" "((of_nat n + 0xc0 :: u8) AND 0xc0) = 0xc0"
    "((of_nat n + 0x80 :: u8) AND 0x3f) = of_nat n" "((of_nat n + 0x80 :: u8) AND 0xc0) = 0x80"
    "((of_nat n + 0x40 :: u8) AND 0x3f) = of_nat n" "((of_nat n + 0x40 :: u8) AND 0xc0) = 0x40"
    "((of_nat n :: u8) AND 0x3f) = of_nat n" "((of_nat n :: u8) AND 0xc0) = 0"
    by blast+
qed


text \<open>The four ranges of values, as the masks tell them apart.\<close>

lemma varint_masks:
  "(v AND kVarInt62ErrorMask = 0) \<longleftrightarrow> unat v < 2 ^ 62"
  "unat v < 2 ^ 62 \<Longrightarrow> (v AND kVarInt62Mask8Bytes = 0) \<longleftrightarrow> unat v < 2 ^ 30"
  "unat v < 2 ^ 30 \<Longrightarrow> (v AND kVarInt62Mask4Bytes = 0) \<longleftrightarrow> unat v < 2 ^ 14"
  "unat v < 2 ^ 14 \<Longrightarrow> (v AND kVarInt62Mask2Bytes = 0) \<longleftrightarrow> unat v < 2 ^ 6"
proof -
  have m: "kVarInt62ErrorMask = push_bit 62 (mask 2)" "kVarInt62Mask8Bytes = push_bit 30 (mask 32)"
    "kVarInt62Mask4Bytes = push_bit 14 (mask 16)" "kVarInt62Mask2Bytes = push_bit 6 (mask 8)"
    by (simp_all add: kVarInt62ErrorMask_def kVarInt62Mask8Bytes_def kVarInt62Mask4Bytes_def kVarInt62Mask2Bytes_def
        mask_eq_exp_minus_1 push_bit_eq_mult)
  show "(v AND kVarInt62ErrorMask = 0) \<longleftrightarrow> unat v < 2 ^ 62"
    using unat_bound [of v] by (simp add: m and_run_zero div_eq_0_iff)
  show "unat v < 2 ^ 62 \<Longrightarrow> (v AND kVarInt62Mask8Bytes = 0) \<longleftrightarrow> unat v < 2 ^ 30"
    "unat v < 2 ^ 30 \<Longrightarrow> (v AND kVarInt62Mask4Bytes = 0) \<longleftrightarrow> unat v < 2 ^ 14"
    "unat v < 2 ^ 14 \<Longrightarrow> (v AND kVarInt62Mask2Bytes = 0) \<longleftrightarrow> unat v < 2 ^ 6"
    by (simp_all add: m and_run_zero div_eq_0_iff div_less_iff_less_mult)
qed

definition varint_bytes :: "u64 \<Rightarrow> bytes" where
  "varint_bytes v =
     (if unat v < 2 ^ 6 then varint1_bytes v else if unat v < 2 ^ 14 then varint2_bytes v
      else if unat v < 2 ^ 30 then varint4_bytes v else varint8_bytes v)"

lemma WriteVarInt62_eq:
  assumes "dw_ok w" "unat v < 2 ^ 62"
  shows "WriteVarInt62 v w = WriteBytes (varint_bytes v) w"
  using assms varint_masks [of v] by (auto simp: WriteVarInt62_def varint_bytes_def store_bytes_eq)

lemma GetVarInt62Len_eq: "unat v < 2 ^ 62 \<Longrightarrow> GetVarInt62Len v = length (varint_bytes v)"
  using varint_masks [of v]
  by (auto simp: GetVarInt62Len_def varint_bytes_def varint1_bytes_def varint2_bytes_def varint4_bytes_def varint8_bytes_def)

text \<open>The bytes are those of the integer in network order, with the length in the two highest bits.\<close>

lemma le_bytes_8: "le_bytes 8 v = map (\<lambda>k. of_nat (v div 2 ^ k)) [0, 8, 16, 24, 32, 40, 48, 56]"
proof -
  have "8 = Suc (Suc (Suc (Suc (Suc (Suc (Suc (Suc 0)))))))" by simp
  then have "le_bytes 8 v = le_bytes (Suc (Suc (Suc (Suc (Suc (Suc (Suc (Suc 0)))))))) v" by (rule arg_cong)
  then show ?thesis by (simp add: div_mult2_eq [symmetric])
qed

lemma le_bytes_4: "le_bytes 4 v = map (\<lambda>k. of_nat (v div 2 ^ k)) [0, 8, 16, 24]"
proof -
  have "4 = Suc (Suc (Suc (Suc 0)))" by simp
  then have "le_bytes 4 v = le_bytes (Suc (Suc (Suc (Suc 0)))) v" by (rule arg_cong)
  then show ?thesis by (simp add: div_mult2_eq [symmetric])
qed

lemma le_bytes_2: "le_bytes 2 v = [of_nat v, of_nat (v div 2 ^ 8)]"
proof -
  have "2 = Suc (Suc 0)" by simp
  then have "le_bytes 2 v = le_bytes (Suc (Suc 0)) v" by (rule arg_cong)
  then show ?thesis by simp
qed

lemma varint_shape:
  "unat v < 2 ^ 62 \<Longrightarrow> varint8_bytes v = (of_nat (unat v div 2 ^ 56) + 0xc0) # tl (rev (le_bytes 8 (unat v)))"
  "unat v < 2 ^ 30 \<Longrightarrow> varint4_bytes v = (of_nat (unat v div 2 ^ 24) + 0x80) # tl (rev (le_bytes 4 (unat v)))"
  "unat v < 2 ^ 14 \<Longrightarrow> varint2_bytes v = (of_nat (unat v div 2 ^ 8) + 0x40) # tl (rev (le_bytes 2 (unat v)))"
  "unat v < 2 ^ 6 \<Longrightarrow> varint1_bytes v = [of_nat (unat v)]"
proof -
  assume "unat v < 2 ^ 62"
  then have "unat v div 2 ^ 56 < 64" by (simp add: div_less_iff_less_mult)
  from first_byte_of_word [OF this, of "0xc0"]
  show "varint8_bytes v = (of_nat (unat v div 2 ^ 56) + 0xc0) # tl (rev (le_bytes 8 (unat v)))"
    unfolding varint8_bytes_def low_byte_of_word unat_drop by (simp add: le_bytes_8 del: le_bytes.simps)
next
  assume "unat v < 2 ^ 30"
  then have "unat v div 2 ^ 24 < 64" by (simp add: div_less_iff_less_mult)
  from first_byte_of_word [OF this, of "0x80"]
  show "varint4_bytes v = (of_nat (unat v div 2 ^ 24) + 0x80) # tl (rev (le_bytes 4 (unat v)))"
    unfolding varint4_bytes_def low_byte_of_word unat_drop by (simp add: le_bytes_4 del: le_bytes.simps)
next
  assume "unat v < 2 ^ 14"
  then have "unat v div 2 ^ 8 < 64" by (simp add: div_less_iff_less_mult)
  from first_byte_of_word [OF this, of "0x40"]
  show "varint2_bytes v = (of_nat (unat v div 2 ^ 8) + 0x40) # tl (rev (le_bytes 2 (unat v)))"
    unfolding varint2_bytes_def low_byte_of_word by (simp add: le_bytes_2 del: le_bytes.simps)
next
  assume "unat v < 2 ^ 6"
  then show "varint1_bytes v = [of_nat (unat v)]"
    using first_byte_of_word [of v 0 0] by (simp add: varint1_bytes_def)
qed

text \<open>What \<open>ReadVarInt62\<close> computes from the bytes.\<close>

lemma next_byte_rest: "dr_ok r \<Longrightarrow> i < length (dr_rest r) \<Longrightarrow> next_byte r i = ucast (dr_rest r ! i)"
  by (simp add: next_byte_def dr_rest_def dr_ok_def)

lemma ucast_and: "(ucast (b::u8) :: u64) AND 0x3f = ucast (b AND 0x3f)" "(ucast (b::u8) :: u64) AND 0xc0 = ucast (b AND 0xc0)"
  by (simp_all add: unsigned_and_eq)

lemma be_word8:
  "push_bit 56 (ucast b0) + push_bit 48 (ucast b1) + push_bit 40 (ucast b2) + push_bit 32 (ucast b3) +
   push_bit 24 (ucast b4) + push_bit 16 (ucast b5) + push_bit 8 (ucast b6) + ucast b7 =
   (of_nat (le_value [b7, b6, b5, b4, b3, b2, b1, b0]) :: u64)"
  by (simp add: push_bit_eq_mult algebra_simps)


lemma AdvancePos_rest:
  assumes "dr_ok r" "dr_rest r = bs @ s"
  shows "dr_ok (AdvancePos (length bs) r) \<and> dr_rest (AdvancePos (length bs) r) = s \<and>
    dr_endianness (AdvancePos (length bs) r) = dr_endianness r"
proof -
  have "length bs \<le> dr_len r - dr_pos r" using assms length_dr_rest [OF assms(1)] by (simp add: BytesRemaining_def)
  moreover have "dr_rest (AdvancePos (length bs) r) = drop (length bs) (dr_rest r)"
    by (simp add: dr_rest_def AdvancePos_def drop_take add.commute)
  ultimately show ?thesis using assms by (auto simp: dr_ok_def AdvancePos_def)
qed

lemma le_value_word: "le_value (le_bytes 8 (unat (v::u64))) = unat v"
  using unat_bound [of v] by (simp add: le_value_bytes)

lemma be_word4:
  "push_bit 24 (ucast b0) + push_bit 16 (ucast b1) + push_bit 8 (ucast b2) + ucast b3 = (of_nat (le_value [b3, b2, b1, b0]) :: u64)"
  by (simp add: push_bit_eq_mult algebra_simps)

lemma be_word2: "push_bit 8 (ucast b0) + ucast b1 = (of_nat (le_value [b1, b0]) :: u64)"
  by (simp add: push_bit_eq_mult algebra_simps)

lemma ReadVarInt62_8:
  assumes "dr_ok r" "dr_rest r = [of_nat n + 0xc0, b1, b2, b3, b4, b5, b6, b7] @ s" "n < 64"
  shows "ReadVarInt62 r = (Some (of_nat (le_value [b7, b6, b5, b4, b3, b2, b1, of_nat n])), AdvancePos 8 r)"
proof -
  have l: "BytesRemaining r \<ge> 8" using length_dr_rest [OF assms(1)] assms(2) by simp
  have b: "next_byte r 0 = ucast (of_nat n + 0xc0 :: u8)" "next_byte r (Suc 0) = ucast b1" "next_byte r 2 = ucast b2"
    "next_byte r 3 = ucast b3" "next_byte r 4 = ucast b4" "next_byte r 5 = ucast b5" "next_byte r 6 = ucast b6"
    "next_byte r 7 = ucast b7"
    using next_byte_rest [OF assms(1)] assms(2) by simp_all
  show ?thesis using l
    by (simp add: ReadVarInt62_def Let_def b ucast_and prefix_bytes [OF assms(3)] be_word8 del: le_value.simps of_nat_add)
qed

lemma ReadVarInt62_4:
  assumes "dr_ok r" "dr_rest r = [of_nat n + 0x80, b1, b2, b3] @ s" "n < 64"
  shows "ReadVarInt62 r = (Some (of_nat (le_value [b3, b2, b1, of_nat n])), AdvancePos 4 r)"
proof -
  have l: "BytesRemaining r \<ge> 4" using length_dr_rest [OF assms(1)] assms(2) by simp
  have b: "next_byte r 0 = ucast (of_nat n + 0x80 :: u8)" "next_byte r (Suc 0) = ucast b1" "next_byte r 2 = ucast b2"
    "next_byte r 3 = ucast b3"
    using next_byte_rest [OF assms(1)] assms(2) by simp_all
  show ?thesis using l
    by (simp add: ReadVarInt62_def Let_def b ucast_and prefix_bytes [OF assms(3)] be_word4 del: le_value.simps of_nat_add)
qed

lemma ReadVarInt62_2:
  assumes "dr_ok r" "dr_rest r = [of_nat n + 0x40, b1] @ s" "n < 64"
  shows "ReadVarInt62 r = (Some (of_nat (le_value [b1, of_nat n])), AdvancePos 2 r)"
proof -
  have l: "BytesRemaining r \<ge> 2" using length_dr_rest [OF assms(1)] assms(2) by simp
  have b: "next_byte r 0 = ucast (of_nat n + 0x40 :: u8)" "next_byte r (Suc 0) = ucast b1"
    using next_byte_rest [OF assms(1)] assms(2) by simp_all
  show ?thesis using l
    by (simp add: ReadVarInt62_def Let_def b ucast_and prefix_bytes [OF assms(3)] be_word2 del: le_value.simps of_nat_add)
qed

lemma ReadVarInt62_1:
  assumes "dr_ok r" "dr_rest r = of_nat n # s" "n < 64"
  shows "ReadVarInt62 r = (Some (of_nat n), AdvancePos 1 r)"
proof -
  have l: "BytesRemaining r \<noteq> 0" using length_dr_rest [OF assms(1)] assms(2) by auto
  have b: "next_byte r 0 = ucast (of_nat n :: u8)" using next_byte_rest [OF assms(1)] assms(2) by simp
  have "(ucast (of_nat n :: u8) :: u64) = of_nat n" using assms(3) by (simp only: ucast_eq_of_nat unat_of_nat_u8) simp
  moreover have "next_byte r 0 AND 0x3f = ucast (of_nat n :: u8)" "next_byte r 0 AND 0xc0 = ucast (0 :: u8)"
    unfolding b ucast_and prefix_bytes [OF assms(3)] by (rule refl)+
  ultimately show ?thesis using l by (simp add: ReadVarInt62_def Let_def)
qed

text \<open>Reading a variable length integer, also one written with more bytes than it needs.\<close>

lemma read_be:
  assumes "dr_ok r" "dr_rest r = bs @ s" "n < 2 ^ 62"
    "bs = (of_nat (n div 2 ^ 56) + 0xc0) # tl (rev (le_bytes 8 n)) \<or>
     n < 2 ^ 30 \<and> bs = (of_nat (n div 2 ^ 24) + 0x80) # tl (rev (le_bytes 4 n)) \<or>
     n < 2 ^ 14 \<and> bs = (of_nat (n div 2 ^ 8) + 0x40) # tl (rev (le_bytes 2 n)) \<or> n < 2 ^ 6 \<and> bs = [of_nat n]"
  shows "ReadVarInt62 r = (Some (of_nat n), AdvancePos (length bs) r)"
  using assms(4)
proof (elim disjE conjE)
  assume bs: "bs = (of_nat (n div 2 ^ 56) + 0xc0) # tl (rev (le_bytes 8 n))"
  have lt: "n div 2 ^ 56 < 64" using assms(3) by (simp add: div_less_iff_less_mult)
  have le: "le_bytes 8 n = [of_nat n, of_nat (n div 2 ^ 8), of_nat (n div 2 ^ 16), of_nat (n div 2 ^ 24), of_nat (n div 2 ^ 32), of_nat (n div 2 ^ 40), of_nat (n div 2 ^ 48), of_nat (n div 2 ^ 56)]"
    by (simp add: le_bytes_8)
  have rest: "dr_rest r = [of_nat (n div 2 ^ 56) + 0xc0, of_nat (n div 2 ^ 48), of_nat (n div 2 ^ 40), of_nat (n div 2 ^ 32), of_nat (n div 2 ^ 24), of_nat (n div 2 ^ 16), of_nat (n div 2 ^ 8), of_nat n] @ s"
    using assms(2) by (simp add: bs le)
  have "ReadVarInt62 r = (Some (of_nat (le_value (le_bytes 8 n))), AdvancePos 8 r)"
    unfolding le by (rule ReadVarInt62_8 [OF assms(1) rest lt])
  then show ?thesis using assms(3) by (simp add: bs le_value_bytes)
next
  assume n: "n < 2 ^ 30" and bs: "bs = (of_nat (n div 2 ^ 24) + 0x80) # tl (rev (le_bytes 4 n))"
  have lt: "n div 2 ^ 24 < 64" using n by (simp add: div_less_iff_less_mult)
  have le: "le_bytes 4 n = [of_nat n, of_nat (n div 2 ^ 8), of_nat (n div 2 ^ 16), of_nat (n div 2 ^ 24)]"
    by (simp add: le_bytes_4)
  have rest: "dr_rest r = [of_nat (n div 2 ^ 24) + 0x80, of_nat (n div 2 ^ 16), of_nat (n div 2 ^ 8), of_nat n] @ s"
    using assms(2) by (simp add: bs le)
  have "ReadVarInt62 r = (Some (of_nat (le_value (le_bytes 4 n))), AdvancePos 4 r)"
    unfolding le by (rule ReadVarInt62_4 [OF assms(1) rest lt])
  then show ?thesis using n by (simp add: bs le_value_bytes)
next
  assume n: "n < 2 ^ 14" and bs: "bs = (of_nat (n div 2 ^ 8) + 0x40) # tl (rev (le_bytes 2 n))"
  have lt: "n div 2 ^ 8 < 64" using n by (simp add: div_less_iff_less_mult)
  have le: "le_bytes 2 n = [of_nat n, of_nat (n div 2 ^ 8)]"
    by (simp add: le_bytes_2)
  have rest: "dr_rest r = [of_nat (n div 2 ^ 8) + 0x40, of_nat n] @ s"
    using assms(2) by (simp add: bs le)
  have "ReadVarInt62 r = (Some (of_nat (le_value (le_bytes 2 n))), AdvancePos 2 r)"
    unfolding le by (rule ReadVarInt62_2 [OF assms(1) rest lt])
  moreover have "length bs = 2" by (simp add: bs)
  ultimately show ?thesis using n by (simp add: le_value_bytes)
next
  assume n: "n < 2 ^ 6" and bs: "bs = [of_nat n]"
  then show ?thesis using ReadVarInt62_1 [OF assms(1), of n s] assms(2) by simp
qed

end
