(* ===== verification/Codec_Fields.thy ===== *)
theory Codec_Fields
  imports Data_Codec
begin

text \<open>What the writer and the reader promise together. A write appends the encoding of a value and a read
  takes it off again; the locale \<open>codec\<close> turns these laws of single values into laws of sequences, and it is
  interpreted on the fields the framer writes. A second group of lemmas shows that reads are
  confined to the bytes that are left, and a third bounds the error of the 16-bit floating point format.\<close>


subsection \<open>The interface of a codec\<close>

text \<open>A write puts bytes behind what was written, or fails if they do not fit; a read takes them off the
  rest of the data and gives a value.\<close>

definition writes :: "endianness \<Rightarrow> (data_writer \<Rightarrow> bool \<times> data_writer) \<Rightarrow> bytes \<Rightarrow> bool" where
  "writes e f bs \<longleftrightarrow>
     (\<forall>w. dw_ok w \<and> dw_endianness w = e \<longrightarrow>
        (if length bs \<le> dw_remaining w then \<exists>w'. f w = (True, w') \<and> appended bs w w' else \<not> fst (f w)))"

definition reads :: "endianness \<Rightarrow> (data_reader \<Rightarrow> 'a option \<times> data_reader) \<Rightarrow> bytes \<Rightarrow> 'a \<Rightarrow> bool" where
  "reads e f bs v \<longleftrightarrow>
     (\<forall>r s. dr_ok r \<and> dr_endianness r = e \<and> dr_rest r = bs @ s \<longrightarrow>
        (\<exists>r'. f r = (Some v, r') \<and> dr_ok r' \<and> dr_rest r' = s \<and> dr_endianness r' = e))"

fun write_all :: "('a \<Rightarrow> data_writer \<Rightarrow> bool \<times> data_writer) \<Rightarrow> 'a list \<Rightarrow> data_writer \<Rightarrow> bool \<times> data_writer" where
  "write_all put [] w = (True, w)"
| "write_all put (v # vs) w = and_then (put v w) (write_all put vs)"

fun read_all :: "('k \<Rightarrow> data_reader \<Rightarrow> 'a option \<times> data_reader) \<Rightarrow> 'k list \<Rightarrow> data_reader \<Rightarrow> 'a list option \<times> data_reader" where
  "read_all get [] r = (Some [], r)"
| "read_all get (k # ks) r =
     (case get k r of
        (None, r') \<Rightarrow> (None, r')
      | (Some v, r') \<Rightarrow> (case read_all get ks r' of (None, r'') \<Rightarrow> (None, r'') | (Some vs, r'') \<Rightarrow> (Some (v # vs), r'')))"

lemma writes_fits:
  "writes e f bs \<Longrightarrow> dw_ok w \<Longrightarrow> dw_endianness w = e \<Longrightarrow> length bs \<le> dw_remaining w \<Longrightarrow>
   \<exists>w'. f w = (True, w') \<and> appended bs w w'"
  unfolding writes_def by metis

lemma writes_full:
  "writes e f bs \<Longrightarrow> dw_ok w \<Longrightarrow> dw_endianness w = e \<Longrightarrow> \<not> length bs \<le> dw_remaining w \<Longrightarrow> \<not> fst (f w)"
  unfolding writes_def by metis

lemma readsD:
  "reads e f bs v \<Longrightarrow> dr_ok r \<Longrightarrow> dr_endianness r = e \<Longrightarrow> dr_rest r = bs @ s \<Longrightarrow>
   \<exists>r'. f r = (Some v, r') \<and> dr_ok r' \<and> dr_rest r' = s \<and> dr_endianness r' = e"
  unfolding reads_def by blast

lemma writes_Nil: "writes e (\<lambda>w. (True, w)) []"
  by (simp add: writes_def appended_def)

lemma writes_WriteBytes: "writes e (WriteBytes bs) bs"
  using WriteBytes_spec by (fastforce simp: writes_def)

lemma writes_cong: "writes e f bs \<Longrightarrow> (\<And>w. dw_ok w \<Longrightarrow> dw_endianness w = e \<Longrightarrow> g w = f w) \<Longrightarrow> writes e g bs"
  by (simp add: writes_def)

lemma writes_and_then:
  assumes "writes e f as" "writes e g bs"
  shows "writes e (\<lambda>w. and_then (f w) g) (as @ bs)"
  unfolding writes_def
proof (intro allI impI)
  fix w
  assume w: "dw_ok w \<and> dw_endianness w = e"
  show "if length (as @ bs) \<le> dw_remaining w then \<exists>w'. and_then (f w) g = (True, w') \<and> appended (as @ bs) w w'
    else \<not> fst (and_then (f w) g)"
  proof (cases "length as \<le> dw_remaining w")
    case True
    then obtain w1 where w1: "f w = (True, w1)" "appended as w w1" using writes_fits [OF assms(1)] w by blast
    then have i: "dw_ok w1" "dw_endianness w1 = e" "dw_remaining w1 = dw_remaining w - length as"
      using w appended_remaining [OF w1(2)] by (simp_all add: appended_def)
    show ?thesis
    proof (cases "length bs \<le> dw_remaining w1")
      case True
      then obtain w2 where "g w1 = (True, w2)" "appended bs w1 w2" using writes_fits [OF assms(2) i(1,2)] by blast
      then show ?thesis using True \<open>length as \<le> dw_remaining w\<close> w1 i(3) appended_trans [OF w1(2)] by (simp add: and_then_def)
    next
      case False
      then have "\<not> fst (g w1)" by (rule writes_full [OF assms(2) i(1,2)])
      moreover have "\<not> length (as @ bs) \<le> dw_remaining w" using False i(3) by simp
      ultimately show ?thesis using w1(1) by (simp add: and_then_def)
    qed
  next
    case False
    then have "\<not> fst (f w)" using writes_full [OF assms(1)] w by blast
    then show ?thesis using False by (simp add: and_then_def)
  qed
qed

locale codec =
  fixes e :: endianness
    and enc :: "'a \<Rightarrow> bytes"
    and valid :: "'a \<Rightarrow> bool"
    and put :: "'a \<Rightarrow> data_writer \<Rightarrow> bool \<times> data_writer"
    and kind :: "'a \<Rightarrow> 'k"
    and get :: "'k \<Rightarrow> data_reader \<Rightarrow> 'a option \<times> data_reader"
  assumes write_enc: "valid v \<Longrightarrow> writes e (put v) (enc v)"
    and read_enc: "valid v \<Longrightarrow> reads e (get (kind v)) (enc v) v"
begin

lemma write_all_enc: "list_all valid vs \<Longrightarrow> writes e (write_all put vs) (concat (map enc vs))"
proof (induction vs)
  case Nil
  then show ?case using writes_cong [OF writes_Nil] by simp
next
  case (Cons v vs)
  then have "writes e (\<lambda>w. and_then (put v w) (write_all put vs)) (enc v @ concat (map enc vs))"
    by (intro writes_and_then) (simp_all add: write_enc)
  then show ?case by (simp add: writes_def)
qed

lemma read_all_enc: "list_all valid vs \<Longrightarrow> reads e (read_all get (map kind vs)) (concat (map enc vs)) vs"
proof (induction vs)
  case (Cons v vs)
  have "\<exists>r'. read_all get (map kind (v # vs)) r = (Some (v # vs), r') \<and> dr_ok r' \<and> dr_rest r' = s \<and> dr_endianness r' = e"
    if r: "dr_ok r \<and> dr_endianness r = e \<and> dr_rest r = (enc v @ concat (map enc vs)) @ s" for r s
  proof -
    obtain r1 where r1: "get (kind v) r = (Some v, r1)" "dr_ok r1" "dr_rest r1 = concat (map enc vs) @ s" "dr_endianness r1 = e"
      using readsD [OF read_enc, of v r "concat (map enc vs) @ s"] Cons.prems r by auto
    moreover have "list_all valid vs" using Cons.prems by simp
    ultimately obtain r2 where "read_all get (map kind vs) r1 = (Some vs, r2)" "dr_ok r2" "dr_rest r2 = s" "dr_endianness r2 = e"
      using readsD [OF Cons.IH, of r1 s] by auto
    then show ?thesis using r1 by simp
  qed
  then show ?case by (simp add: reads_def)
qed (simp add: reads_def)

text \<open>What was written into a fresh buffer is read back, whatever bytes follow it.\<close>

lemma roundtrip:
  assumes "list_all valid vs" "length (concat (map enc vs)) \<le> length buffer"
  shows "\<exists>w r. write_all put vs (DataWriter_new (length buffer) buffer e) = (True, w) \<and>
    read_all get (map kind vs) (DataReader_new (dw_bytes w @ s) e) = (Some vs, r) \<and> dr_rest r = s"
proof -
  let ?w = "DataWriter_new (length buffer) buffer e"
  have "dw_ok ?w \<and> dw_endianness ?w = e" "dw_remaining ?w = length buffer" "dw_bytes ?w = []"
    by (simp_all add: DataWriter_new_def dw_ok_def dw_remaining_def dw_bytes_def)
  then obtain w where w: "write_all put vs ?w = (True, w)" "dw_bytes w = concat (map enc vs)"
    using writes_fits [OF write_all_enc [OF assms(1)], of ?w] assms(2) by (auto simp: appended_def)
  moreover have "dr_ok (DataReader_new (dw_bytes w @ s) e) \<and> dr_endianness (DataReader_new (dw_bytes w @ s) e) = e \<and>
      dr_rest (DataReader_new (dw_bytes w @ s) e) = concat (map enc vs) @ s"
    using w(2) by (simp add: DataReader_new_def dr_ok_def dr_rest_def)
  ultimately show ?thesis using readsD [OF read_all_enc [OF assms(1)], of "DataReader_new (dw_bytes w @ s) e" s] by auto
qed

end


subsection \<open>The codecs of the source\<close>

lemma reads_ReadBytes: "reads e (ReadBytes (length bs)) bs bs"
  unfolding reads_def
proof (intro allI impI)
  fix r s
  assume "dr_ok r \<and> dr_endianness r = e \<and> dr_rest r = bs @ s"
  then show "\<exists>r'. ReadBytes (length bs) r = (Some bs, r') \<and> dr_ok r' \<and> dr_rest r' = s \<and> dr_endianness r' = e"
    using ReadBytes_spec [of r "length bs"] by auto
qed

lemma ReadStringPiece_eq: "ReadStringPiece = ReadBytes"
  by (simp add: fun_eq_iff ReadStringPiece_def ReadBytes_def)

lemma reads_map:
  assumes "reads e f bs v" "\<And>r. dr_endianness r = e \<Longrightarrow> g r = read_map h (f r)"
  shows "reads e g bs (h v)"
  using assms unfolding reads_def by (fastforce simp: read_map_def)

text \<open>A length or a prefix, and then what it tells to read.\<close>

lemma reads_bind:
  assumes "reads e f as v" "reads e (g v) bs u"
    "\<And>r. dr_endianness r = e \<Longrightarrow> h r = (case f r of (None, r') \<Rightarrow> (None, r') | (Some x, r') \<Rightarrow> g x r')"
  shows "reads e h (as @ bs) u"
  unfolding reads_def
proof (intro allI impI)
  fix r s
  assume r: "dr_ok r \<and> dr_endianness r = e \<and> dr_rest r = (as @ bs) @ s"
  then obtain r1 where r1: "f r = (Some v, r1)" "dr_ok r1" "dr_rest r1 = bs @ s" "dr_endianness r1 = e"
    using readsD [OF assms(1), of r "bs @ s"] by auto
  then show "\<exists>r'. h r = (Some u, r') \<and> dr_ok r' \<and> dr_rest r' = s \<and> dr_endianness r' = e"
    using readsD [OF assms(2) r1(2,4,3)] assms(3) [of r] r by auto
qed

definition order_bytes :: "endianness \<Rightarrow> bytes \<Rightarrow> bytes" where
  "order_bytes e bs = (if e = NETWORK_BYTE_ORDER then rev bs else bs)"

lemma length_order_bytes [simp]: "length (order_bytes e bs) = length bs"
  by (simp add: order_bytes_def)

lemma uint_writes:
  "writes e (WriteUInt8 a) [a]" "writes e (WriteUInt16 b) (order_bytes e (le_bytes 2 (unat b)))"
  "writes e (WriteUInt32 c) (order_bytes e (le_bytes 4 (unat c)))" "writes e (WriteUInt64 d) (order_bytes e (le_bytes 8 (unat d)))"
  "writes e (WriteTag c) (le_bytes 4 (unat c))"
  by (rule writes_cong [OF writes_WriteBytes];
      simp add: WriteUInt8_def WriteUInt16_def WriteUInt32_def WriteUInt64_def WriteTag_def order_bytes_def swap16 swap32 swap64)+

lemma le_value_words:
  "le_value (le_bytes 2 (unat (b::u16))) = unat b" "le_value (le_bytes 4 (unat (c::u32))) = unat c"
  "le_value (le_bytes 8 (unat (d::u64))) = unat d"
  using unat_bound [of b] unat_bound [of c] unat_bound [of d] by (simp_all add: le_value_bytes)

lemma uint_reads:
  "reads e ReadUInt8 [a] a" "reads e ReadUInt16 (order_bytes e (le_bytes 2 (unat b))) b"
  "reads e ReadUInt32 (order_bytes e (le_bytes 4 (unat c))) c" "reads e ReadUInt64 (order_bytes e (le_bytes 8 (unat d))) d"
  "reads e ReadTag (le_bytes 4 (unat c)) c"
proof -
  have "reads e (ReadBytes 1) [a] [a]" using reads_ReadBytes [of e "[a]"] by simp
  from reads_map [OF this, of ReadUInt8 "\<lambda>bs. of_nat (le_value bs)"]
  show "reads e ReadUInt8 [a] a" by (simp add: ReadUInt8_def)
  have "reads e (ReadBytes 2) (order_bytes e (le_bytes 2 (unat b))) (order_bytes e (le_bytes 2 (unat b)))"
    using reads_ReadBytes [of e "order_bytes e (le_bytes 2 (unat b))"] by simp
  from reads_map [OF this, of ReadUInt16 "\<lambda>bs. let v = of_nat (le_value bs) in if e = NETWORK_BYTE_ORDER then NetToHost16 v else v"]
  show "reads e ReadUInt16 (order_bytes e (le_bytes 2 (unat b))) b"
    by (simp add: ReadUInt16_def order_bytes_def unswap16 le_value_words del: le_bytes.simps split: if_splits)
  have "reads e (ReadBytes 4) (order_bytes e (le_bytes 4 (unat c))) (order_bytes e (le_bytes 4 (unat c)))"
    using reads_ReadBytes [of e "order_bytes e (le_bytes 4 (unat c))"] by simp
  from reads_map [OF this, of ReadUInt32 "\<lambda>bs. let v = of_nat (le_value bs) in if e = NETWORK_BYTE_ORDER then NetToHost32 v else v"]
  show "reads e ReadUInt32 (order_bytes e (le_bytes 4 (unat c))) c"
    by (simp add: ReadUInt32_def order_bytes_def unswap32 le_value_words del: le_bytes.simps split: if_splits)
  have "reads e (ReadBytes 8) (order_bytes e (le_bytes 8 (unat d))) (order_bytes e (le_bytes 8 (unat d)))"
    using reads_ReadBytes [of e "order_bytes e (le_bytes 8 (unat d))"] by simp
  from reads_map [OF this, of ReadUInt64 "\<lambda>bs. let v = of_nat (le_value bs) in if e = NETWORK_BYTE_ORDER then NetToHost64 v else v"]
  show "reads e ReadUInt64 (order_bytes e (le_bytes 8 (unat d))) d"
    by (simp add: ReadUInt64_def order_bytes_def unswap64 le_value_words del: le_bytes.simps split: if_splits)
  have "reads e (ReadBytes 4) (le_bytes 4 (unat c)) (le_bytes 4 (unat c))"
    using reads_ReadBytes [of e "le_bytes 4 (unat c)"] by simp
  from reads_map [OF this, of ReadTag "\<lambda>bs. of_nat (le_value bs)"]
  show "reads e ReadTag (le_bytes 4 (unat c)) c" by (simp add: ReadTag_def le_value_words del: le_bytes.simps)
qed

lemma varint_writes: "unat v < 2 ^ 62 \<Longrightarrow> writes e (WriteVarInt62 v) (varint_bytes v)"
  by (rule writes_cong [OF writes_WriteBytes]) (simp add: WriteVarInt62_eq)

lemma reads_varint:
  assumes "n < 2 ^ 62"
    "bs = (of_nat (n div 2 ^ 56) + 0xc0) # tl (rev (le_bytes 8 n)) \<or>
     n < 2 ^ 30 \<and> bs = (of_nat (n div 2 ^ 24) + 0x80) # tl (rev (le_bytes 4 n)) \<or>
     n < 2 ^ 14 \<and> bs = (of_nat (n div 2 ^ 8) + 0x40) # tl (rev (le_bytes 2 n)) \<or> n < 2 ^ 6 \<and> bs = [of_nat n]"
  shows "reads e ReadVarInt62 bs (of_nat n)"
  unfolding reads_def
proof (intro allI impI)
  fix r s
  assume r: "dr_ok r \<and> dr_endianness r = e \<and> dr_rest r = bs @ s"
  then have "ReadVarInt62 r = (Some (of_nat n), AdvancePos (length bs) r)" using read_be [OF _ _ assms] by blast
  then show "\<exists>r'. ReadVarInt62 r = (Some (of_nat n), r') \<and> dr_ok r' \<and> dr_rest r' = s \<and> dr_endianness r' = e"
    using AdvancePos_rest [of r bs s] r by simp
qed

lemma varint_reads:
  assumes "unat v < 2 ^ 62"
  shows "reads e ReadVarInt62 (varint_bytes v) v"
proof -
  have "reads e ReadVarInt62 (varint_bytes v) (of_nat (unat v))"
    by (rule reads_varint [OF assms]) (use assms in \<open>auto simp: varint_bytes_def varint_shape\<close>)
  then show ?thesis by simp
qed


text \<open>An integer with a given encoded length: the padded forms are the network order bytes of that length.\<close>

definition padded_varint :: "nat \<Rightarrow> u64 \<Rightarrow> bytes" where
  "padded_varint n v =
     (if n = length (varint_bytes v) then varint_bytes v
      else (if n = 2 then 0x40 else if n = 4 then 0x80 else 0xc0) # tl (rev (le_bytes n (unat v))))"

lemma varint_len_writes:
  assumes "unat v < 2 ^ 62" "n = 1 \<or> n = 2 \<or> n = 4 \<or> n = 8" "length (varint_bytes v) \<le> n"
  shows "writes NETWORK_BYTE_ORDER (\<lambda>w. WriteVarInt62_len v n w) (padded_varint n v)"
proof -
  let ?e = NETWORK_BYTE_ORDER
  have l: "GetVarInt62Len v = length (varint_bytes v)" using assms(1) by (rule GetVarInt62Len_eq)
  have b: "length (varint_bytes v) = (if unat v < 2 ^ 6 then 1 else if unat v < 2 ^ 14 then 2 else if unat v < 2 ^ 30 then 4 else 8)"
    by (simp add: varint_bytes_def varint1_bytes_def varint2_bytes_def varint4_bytes_def varint8_bytes_def)
  have full: "writes ?e (\<lambda>w. if dw_remaining w < n then (False, w) else f w) bs" if "writes ?e f bs" "length bs = n" for f bs
    using that by (auto simp: writes_def)
  have *: "writes ?e f bs \<Longrightarrow> length bs = n \<Longrightarrow> (\<And>w. WriteVarInt62_len v n w = (if dw_remaining w < n then (False, w) else f w)) \<Longrightarrow>
      writes ?e (\<lambda>w. WriteVarInt62_len v n w) bs" for f bs
    using full [of f bs] by simp
  consider "n = length (varint_bytes v)" | "n \<noteq> length (varint_bytes v)" "n = 2" | "n \<noteq> length (varint_bytes v)" "n = 4"
    | "n \<noteq> length (varint_bytes v)" "n = 8"
    using assms(2,3) b by (auto split: if_splits)
  then show ?thesis
  proof cases
    case 1
    then have bs: "padded_varint n v = varint_bytes v" by (simp add: padded_varint_def)
    show ?thesis unfolding bs
      by (rule * [OF varint_writes [OF assms(1)]]) (use 1 in \<open>simp_all add: WriteVarInt62_len_def l Let_def\<close>)
  next
    case 2
    then have "unat v < 2 ^ 6" using assms(3) b by (auto split: if_splits)
    then have bs: "padded_varint n v = [0x40] @ [ucast v]"
      using 2 by (simp add: padded_varint_def le_bytes_2)
    show ?thesis unfolding bs
      by (rule * [OF writes_and_then [OF uint_writes(1) uint_writes(1)]])
         (use 2 assms(3) in \<open>simp_all add: WriteVarInt62_len_def l Let_def\<close>)
  next
    case 3
    then have v: "unat v < 2 ^ 14" using assms(3) b by (auto split: if_splits)
    then have "unat (ucast v :: u16) = unat v" by (simp only: unsigned_ucast_eq) (simp add: take_bit_eq_mod)
    then have bs: "padded_varint n v = ([0x80] @ [0]) @ order_bytes ?e (le_bytes 2 (unat (ucast v :: u16)))"
      using 3 v by (simp add: padded_varint_def le_bytes_2 le_bytes_4 order_bytes_def)
    show ?thesis unfolding bs
      by (rule * [OF writes_and_then [OF writes_and_then [OF uint_writes(1) uint_writes(1)] uint_writes(2)]])
         (use 3 assms(3) in \<open>simp_all add: WriteVarInt62_len_def l Let_def\<close>)
  next
    case 4
    then have v: "unat v < 2 ^ 30" using assms(3) b by (auto split: if_splits)
    then have "unat (ucast v :: u32) = unat v" by (simp only: unsigned_ucast_eq) (simp add: take_bit_eq_mod)
    then have bs: "padded_varint n v =
        (([0xc0] @ [0]) @ order_bytes ?e (le_bytes 2 (unat (0::u16)))) @ order_bytes ?e (le_bytes 4 (unat (ucast v :: u32)))"
      using 4 v by (simp add: padded_varint_def le_bytes_2 le_bytes_4 le_bytes_8 order_bytes_def)
    show ?thesis unfolding bs
      by (rule * [OF writes_and_then [OF writes_and_then [OF writes_and_then [OF uint_writes(1) uint_writes(1)] uint_writes(2)]
            uint_writes(3)]])
         (use 4 assms(3) in \<open>simp_all add: WriteVarInt62_len_def l Let_def\<close>)
  qed
qed

lemma varint_len_reads:
  assumes "unat v < 2 ^ 62" "n = 1 \<or> n = 2 \<or> n = 4 \<or> n = 8" "length (varint_bytes v) \<le> n"
  shows "reads e ReadVarInt62 (padded_varint n v) v"
proof -
  have b: "length (varint_bytes v) = (if unat v < 2 ^ 6 then 1 else if unat v < 2 ^ 14 then 2 else if unat v < 2 ^ 30 then 4 else 8)"
    by (simp add: varint_bytes_def varint1_bytes_def varint2_bytes_def varint4_bytes_def varint8_bytes_def)
  have "reads e ReadVarInt62 (padded_varint n v) (of_nat (unat v))"
  proof (cases "n = length (varint_bytes v)")
    case True
    then show ?thesis using varint_reads [OF assms(1)] by (simp add: padded_varint_def)
  next
    case False
    then have "n = 2 \<and> unat v < 2 ^ 6 \<or> n = 4 \<and> unat v < 2 ^ 14 \<or> n = 8 \<and> unat v < 2 ^ 30"
      using assms(2,3) b by (auto split: if_splits)
    then show ?thesis using False by (intro reads_varint [OF assms(1)]) (auto simp: padded_varint_def)
  qed
  then show ?thesis by simp
qed


subsection \<open>Fields\<close>

text \<open>The values a frame is made of, each with the write and the read the framer uses for it. An
  integer may be written with an encoded length larger than it needs.\<close>

datatype field = FUInt8 u8 | FUInt16 u16 | FUInt32 u32 | FUInt64 u64 | FTag u32 | FVarInt62 u64 | FVarInt62Len u64 nat
  | FString16 bytes | FStringVarInt62 bytes | FConnectionId bytes

datatype field_kind = KUInt8 | KUInt16 | KUInt32 | KUInt64 | KTag | KVarInt62 | KVarInt62Len nat
  | KString16 | KStringVarInt62 | KConnectionId

fun kind_of :: "field \<Rightarrow> field_kind" where
  "kind_of (FUInt8 v) = KUInt8"
| "kind_of (FUInt16 v) = KUInt16"
| "kind_of (FUInt32 v) = KUInt32"
| "kind_of (FUInt64 v) = KUInt64"
| "kind_of (FTag v) = KTag"
| "kind_of (FVarInt62 v) = KVarInt62"
| "kind_of (FVarInt62Len v n) = KVarInt62Len n"
| "kind_of (FString16 s) = KString16"
| "kind_of (FStringVarInt62 s) = KStringVarInt62"
| "kind_of (FConnectionId s) = KConnectionId"

fun write_field :: "field \<Rightarrow> data_writer \<Rightarrow> bool \<times> data_writer" where
  "write_field (FUInt8 v) w = WriteUInt8 v w"
| "write_field (FUInt16 v) w = WriteUInt16 v w"
| "write_field (FUInt32 v) w = WriteUInt32 v w"
| "write_field (FUInt64 v) w = WriteUInt64 v w"
| "write_field (FTag v) w = WriteTag v w"
| "write_field (FVarInt62 v) w = WriteVarInt62 v w"
| "write_field (FVarInt62Len v n) w = WriteVarInt62_len v n w"
| "write_field (FString16 s) w = WriteStringPiece16 s w"
| "write_field (FStringVarInt62 s) w = WriteStringPieceVarInt62 s w"
| "write_field (FConnectionId s) w = WriteLengthPrefixedConnectionId s w"

fun read_field :: "field_kind \<Rightarrow> data_reader \<Rightarrow> field option \<times> data_reader" where
  "read_field KUInt8 r = read_map FUInt8 (ReadUInt8 r)"
| "read_field KUInt16 r = read_map FUInt16 (ReadUInt16 r)"
| "read_field KUInt32 r = read_map FUInt32 (ReadUInt32 r)"
| "read_field KUInt64 r = read_map FUInt64 (ReadUInt64 r)"
| "read_field KTag r = read_map FTag (ReadTag r)"
| "read_field KVarInt62 r = read_map FVarInt62 (ReadVarInt62 r)"
| "read_field (KVarInt62Len n) r = read_map (\<lambda>v. FVarInt62Len v n) (ReadVarInt62 r)"
| "read_field KString16 r = read_map FString16 (ReadStringPiece16 r)"
| "read_field KStringVarInt62 r = read_map FStringVarInt62 (ReadStringPieceVarInt62 r)"
| "read_field KConnectionId r = read_map FConnectionId (ReadLengthPrefixedConnectionId r)"

text \<open>What a field may hold. The integers of variable length are in network order, which the code demands.\<close>

fun field_valid :: "endianness \<Rightarrow> field \<Rightarrow> bool" where
  "field_valid e (FVarInt62 v) \<longleftrightarrow> unat v < 2 ^ 62 \<and> e = NETWORK_BYTE_ORDER"
| "field_valid e (FVarInt62Len v n) \<longleftrightarrow> unat v < 2 ^ 62 \<and> e = NETWORK_BYTE_ORDER \<and>
     (n = 1 \<or> n = 2 \<or> n = 4 \<or> n = 8) \<and> length (varint_bytes v) \<le> n"
| "field_valid e (FString16 s) \<longleftrightarrow> length s < 2 ^ 16"
| "field_valid e (FStringVarInt62 s) \<longleftrightarrow> length s < 2 ^ 62 \<and> e = NETWORK_BYTE_ORDER"
| "field_valid e (FConnectionId s) \<longleftrightarrow> length s < 2 ^ 8"
| "field_valid e _ \<longleftrightarrow> True"

fun field_bytes :: "endianness \<Rightarrow> field \<Rightarrow> bytes" where
  "field_bytes e (FUInt8 v) = [v]"
| "field_bytes e (FUInt16 v) = order_bytes e (le_bytes 2 (unat v))"
| "field_bytes e (FUInt32 v) = order_bytes e (le_bytes 4 (unat v))"
| "field_bytes e (FUInt64 v) = order_bytes e (le_bytes 8 (unat v))"
| "field_bytes e (FTag v) = le_bytes 4 (unat v)"
| "field_bytes e (FVarInt62 v) = varint_bytes v"
| "field_bytes e (FVarInt62Len v n) = padded_varint n v"
| "field_bytes e (FString16 s) = order_bytes e (le_bytes 2 (length s)) @ s"
| "field_bytes e (FStringVarInt62 s) = varint_bytes (of_nat (length s)) @ s"
| "field_bytes e (FConnectionId s) = of_nat (length s) # s"

lemma unat_of_nat_less: "n < 2 ^ LENGTH('a) \<Longrightarrow> unat (of_nat n :: 'a::len word) = n"
  by (simp add: unsigned_of_nat take_bit_nat_eq_self)

lemma reads_read_map: "reads e f bs v \<Longrightarrow> reads e (\<lambda>r. read_map h (f r)) bs (h v)"
  by (rule reads_map) simp_all

lemma string16_codec:
  assumes "length s < 2 ^ 16"
  shows "writes e (WriteStringPiece16 s) (order_bytes e (le_bytes 2 (length s)) @ s)"
    "reads e ReadStringPiece16 (order_bytes e (le_bytes 2 (length s)) @ s) s"
proof -
  have l: "unat (of_nat (length s) :: u16) = length s" using assms by (intro unat_of_nat_less) simp
  have "writes e (\<lambda>w. and_then (WriteUInt16 (of_nat (length s)) w) (WriteBytes s)) (order_bytes e (le_bytes 2 (length s)) @ s)"
    using writes_and_then [OF uint_writes(2) writes_WriteBytes, of e "of_nat (length s)" s] by (simp add: l)
  then show "writes e (WriteStringPiece16 s) (order_bytes e (le_bytes 2 (length s)) @ s)"
    by (rule writes_cong) (use assms in \<open>simp add: WriteStringPiece16_def\<close>)
  have "reads e ReadUInt16 (order_bytes e (le_bytes 2 (length s))) (of_nat (length s))"
    using uint_reads(2) [of e "of_nat (length s)"] by (simp add: l)
  moreover have "reads e (ReadStringPiece (unat (of_nat (length s) :: u16))) s s"
    using reads_ReadBytes by (simp add: l ReadStringPiece_eq)
  ultimately show "reads e ReadStringPiece16 (order_bytes e (le_bytes 2 (length s)) @ s) s"
    by (rule reads_bind) (simp add: ReadStringPiece16_def)
qed

lemma string_varint_codec:
  assumes "length s < 2 ^ 62"
  shows "writes e (WriteStringPieceVarInt62 s) (varint_bytes (of_nat (length s)) @ s)"
    "reads e ReadStringPieceVarInt62 (varint_bytes (of_nat (length s)) @ s) s"
proof -
  have l: "unat (of_nat (length s) :: u64) = length s" using assms by (intro unat_of_nat_less) simp
  have v: "unat (of_nat (length s) :: u64) < 2 ^ 62" using assms l by simp
  have "writes e (\<lambda>w. if s \<noteq> [] then WriteBytes s w else (True, w)) s"
    using writes_WriteBytes [of e s] writes_Nil [of e] by (cases "s = []") simp_all
  from writes_and_then [OF varint_writes [OF v] this]
  show "writes e (WriteStringPieceVarInt62 s) (varint_bytes (of_nat (length s)) @ s)"
    by (rule writes_cong) (simp add: WriteStringPieceVarInt62_def)
  have "reads e (ReadStringPiece (unat (of_nat (length s) :: u64))) s s"
    using reads_ReadBytes by (simp add: l ReadStringPiece_eq)
  with varint_reads [OF v] show "reads e ReadStringPieceVarInt62 (varint_bytes (of_nat (length s)) @ s) s"
    by (rule reads_bind) (simp add: ReadStringPieceVarInt62_def)
qed

lemma connection_id_codec:
  assumes "length s < 2 ^ 8"
  shows "writes e (WriteLengthPrefixedConnectionId s) (of_nat (length s) # s)"
    "reads e ReadLengthPrefixedConnectionId (of_nat (length s) # s) s"
proof -
  have l: "unat (of_nat (length s) :: u8) = length s" using assms by simp
  have "writes e (WriteConnectionId s) s"
    using writes_WriteBytes [of e s] writes_Nil [of e] by (cases "s = []") (simp_all add: WriteConnectionId_def writes_def)
  from writes_and_then [OF uint_writes(1) this, of "of_nat (length s)"]
  show "writes e (WriteLengthPrefixedConnectionId s) (of_nat (length s) # s)"
    by (simp add: WriteLengthPrefixedConnectionId_def writes_def)
  have "reads e (ReadConnectionId (of_nat (length s))) s s"
    unfolding reads_def
  proof (intro allI impI)
    fix r t
    assume r: "dr_ok r \<and> dr_endianness r = e \<and> dr_rest r = s @ t"
    have "BytesRemaining r \<ge> length s" using r length_dr_rest [of r] by simp
    moreover have "(of_nat (length s) :: u8) = 0 \<longleftrightarrow> s = []" using l by (simp flip: unat_eq_0)
    ultimately show "\<exists>r'. ReadConnectionId (of_nat (length s)) r = (Some s, r') \<and> dr_ok r' \<and> dr_rest r' = t \<and> dr_endianness r' = e"
      using r readsD [OF reads_ReadBytes, of r e s t] l by (auto simp: ReadConnectionId_def)
  qed
  with uint_reads(1) [of e "of_nat (length s)"] have "reads e ReadLengthPrefixedConnectionId ([of_nat (length s)] @ s) s"
    by (rule reads_bind) (simp add: ReadLengthPrefixedConnectionId_def)
  then show "reads e ReadLengthPrefixedConnectionId (of_nat (length s) # s) s" by simp
qed

lemma read_field_eqs:
  "read_field KUInt8 = (\<lambda>r. read_map FUInt8 (ReadUInt8 r))" "read_field KUInt16 = (\<lambda>r. read_map FUInt16 (ReadUInt16 r))"
  "read_field KUInt32 = (\<lambda>r. read_map FUInt32 (ReadUInt32 r))" "read_field KUInt64 = (\<lambda>r. read_map FUInt64 (ReadUInt64 r))"
  "read_field KTag = (\<lambda>r. read_map FTag (ReadTag r))" "read_field KVarInt62 = (\<lambda>r. read_map FVarInt62 (ReadVarInt62 r))"
  "read_field (KVarInt62Len n) = (\<lambda>r. read_map (\<lambda>v. FVarInt62Len v n) (ReadVarInt62 r))"
  "read_field KString16 = (\<lambda>r. read_map FString16 (ReadStringPiece16 r))"
  "read_field KStringVarInt62 = (\<lambda>r. read_map FStringVarInt62 (ReadStringPieceVarInt62 r))"
  "read_field KConnectionId = (\<lambda>r. read_map FConnectionId (ReadLengthPrefixedConnectionId r))"
  by (simp_all add: fun_eq_iff)

interpretation fields: codec e "field_bytes e" "field_valid e" write_field kind_of read_field
  for e
proof
  fix v
  assume v: "field_valid e v"
  show "writes e (write_field v) (field_bytes e v)"
    using v uint_writes varint_writes varint_len_writes string16_codec(1) string_varint_codec(1) connection_id_codec(1)
    by (cases v) (auto simp: writes_def)
  show "reads e (read_field (kind_of v)) (field_bytes e v) v"
  proof (cases v)
    case (FVarInt62Len x n)
    then show ?thesis
      using v reads_read_map [OF varint_len_reads, of x n e "\<lambda>v. FVarInt62Len v n"] by (simp add: read_field_eqs)
  qed (use v in \<open>auto simp: read_field_eqs intro!: reads_read_map uint_reads varint_reads string16_codec(2) string_varint_codec(2)
        connection_id_codec(2)\<close>)
qed


subsection \<open>Reads stay within the data\<close>

text \<open>A read that is confined depends on nothing but the bytes that are left: it gives the same value and
  leaves the same rest for every reader with these bytes, wherever they lie in memory, and it
  does not move the position past the end.\<close>

definition same_rest :: "data_reader \<Rightarrow> data_reader \<Rightarrow> bool" where
  "same_rest r r' \<longleftrightarrow> dr_ok r \<and> dr_ok r' \<and> dr_rest r = dr_rest r' \<and> dr_endianness r = dr_endianness r'"

definition confined :: "(data_reader \<Rightarrow> 'a option \<times> data_reader) \<Rightarrow> bool" where
  "confined f \<longleftrightarrow> (\<forall>r r'. same_rest r r' \<longrightarrow> fst (f r) = fst (f r') \<and> same_rest (snd (f r)) (snd (f r')))"

lemma confinedD: "confined f \<Longrightarrow> same_rest r r' \<Longrightarrow> fst (f r) = fst (f r') \<and> same_rest (snd (f r)) (snd (f r'))"
  by (simp add: confined_def)

lemma same_rest_OnFailure: "same_rest r r' \<Longrightarrow> same_rest (OnFailure r) (OnFailure r')"
  by (auto simp: same_rest_def OnFailure_def dr_ok_def dr_rest_def)

lemma confined_ReadBytes: "confined (ReadBytes n)"
  unfolding confined_def
proof (intro allI impI)
  fix r r'
  assume s: "same_rest r r'"
  then have ok: "dr_ok r" "dr_ok r'" "dr_rest r = dr_rest r'" "dr_endianness r = dr_endianness r'"
    by (simp_all add: same_rest_def)
  show "fst (ReadBytes n r) = fst (ReadBytes n r') \<and> same_rest (snd (ReadBytes n r)) (snd (ReadBytes n r'))"
  proof (cases "n \<le> length (dr_rest r')")
    case True
    then obtain r1 r1' where "ReadBytes n r = (Some (take n (dr_rest r)), r1)" "dr_ok r1" "dr_rest r1 = drop n (dr_rest r)"
      "dr_endianness r1 = dr_endianness r" "ReadBytes n r' = (Some (take n (dr_rest r')), r1')" "dr_ok r1'"
      "dr_rest r1' = drop n (dr_rest r')" "dr_endianness r1' = dr_endianness r'"
      using ReadBytes_spec [OF ok(1), of n] ReadBytes_spec [OF ok(2), of n] ok(3) by auto
    then show ?thesis using ok by (simp add: same_rest_def)
  next
    case False
    then have "ReadBytes n r = (None, OnFailure r)" "ReadBytes n r' = (None, OnFailure r')"
      using ReadBytes_spec [OF ok(1), of n] ReadBytes_spec [OF ok(2), of n] ok(3) by simp_all
    then show ?thesis using same_rest_OnFailure [OF s] by simp
  qed
qed

lemma confined_map: "confined f \<Longrightarrow> (\<And>r. g r = read_map (h (dr_endianness r)) (f r)) \<Longrightarrow> confined g"
proof -
  assume f: "confined f" and g: "\<And>r. g r = read_map (h (dr_endianness r)) (f r)"
  have "fst (g r) = fst (g r') \<and> same_rest (snd (g r)) (snd (g r'))" if s: "same_rest r r'" for r r'
  proof -
    have "dr_endianness r = dr_endianness r'" using s by (simp add: same_rest_def)
    then show ?thesis using confinedD [OF f s] by (simp add: g read_map_def)
  qed
  then show ?thesis by (simp add: confined_def)
qed

lemma confined_bind:
  assumes "confined f" "\<And>v. confined (g v)" "\<And>r. h r = (case f r of (None, r') \<Rightarrow> (None, r') | (Some x, r') \<Rightarrow> g x r')"
  shows "confined h"
  unfolding confined_def
proof (intro allI impI)
  fix r r'
  assume "same_rest r r'"
  then have "fst (f r) = fst (f r')" "same_rest (snd (f r)) (snd (f r'))" using confinedD [OF assms(1)] by blast+
  then show "fst (h r) = fst (h r') \<and> same_rest (snd (h r)) (snd (h r'))"
    using confinedD [OF assms(2)] by (cases "fst (f r')") (simp_all add: assms(3) case_prod_beta)
qed

lemma confined_uints: "confined ReadUInt8" "confined ReadUInt16" "confined ReadUInt32" "confined ReadUInt64" "confined ReadTag"
  by (rule confined_map [OF confined_ReadBytes];
      auto simp: ReadUInt8_def ReadUInt16_def ReadUInt32_def ReadUInt64_def ReadTag_def intro!: arg_cong2 [where f = read_map])+

lemma same_rest_AdvancePos: "same_rest r r' \<Longrightarrow> n \<le> BytesRemaining r \<Longrightarrow> same_rest (AdvancePos n r) (AdvancePos n r')"
proof -
  assume s: "same_rest r r'" and n: "n \<le> BytesRemaining r"
  have "dr_rest r = take n (dr_rest r) @ drop n (dr_rest r)" "length (take n (dr_rest r)) = n"
    using n length_dr_rest [of r] s by (simp_all add: same_rest_def)
  then show ?thesis
    using s AdvancePos_rest [of r "take n (dr_rest r)" "drop n (dr_rest r)"]
      AdvancePos_rest [of r' "take n (dr_rest r)" "drop n (dr_rest r)"] by (simp add: same_rest_def)
qed

lemma confined_varint: "confined ReadVarInt62"
  unfolding confined_def
proof (intro allI impI)
  fix r r'
  assume s: "same_rest r r'"
  then have ok: "dr_ok r" "dr_ok r'" "dr_rest r = dr_rest r'" by (simp_all add: same_rest_def)
  have l: "BytesRemaining r = BytesRemaining r'" using ok length_dr_rest by metis
  have b: "next_byte r i = next_byte r' i" if "i < BytesRemaining r'" for i
    using that ok next_byte_rest length_dr_rest by metis
  show "fst (ReadVarInt62 r) = fst (ReadVarInt62 r') \<and> same_rest (snd (ReadVarInt62 r)) (snd (ReadVarInt62 r'))"
    using s same_rest_AdvancePos [OF s] by (auto simp: ReadVarInt62_def Let_def l b)
qed

lemma confined_ReadConnectionId: "confined (ReadConnectionId n)"
  unfolding confined_def
proof (intro allI impI)
  fix r r'
  assume s: "same_rest r r'"
  then have "BytesRemaining r = BytesRemaining r'" using length_dr_rest by (metis same_rest_def)
  then show "fst (ReadConnectionId n r) = fst (ReadConnectionId n r') \<and>
      same_rest (snd (ReadConnectionId n r)) (snd (ReadConnectionId n r'))"
    using s confinedD [OF confined_ReadBytes s] by (simp add: ReadConnectionId_def)
qed

lemma confined_strings: "confined ReadStringPiece16" "confined ReadStringPieceVarInt62" "confined ReadLengthPrefixedConnectionId"
proof -
  have s: "confined (ReadStringPiece n)" for n by (simp add: ReadStringPiece_eq confined_ReadBytes)
  show "confined ReadStringPiece16"
    by (rule confined_bind [OF confined_uints(2) s]) (simp add: ReadStringPiece16_def)
  show "confined ReadStringPieceVarInt62"
    by (rule confined_bind [OF confined_varint s]) (simp add: ReadStringPieceVarInt62_def)
  show "confined ReadLengthPrefixedConnectionId"
    by (rule confined_bind [OF confined_uints(1) confined_ReadConnectionId]) (simp add: ReadLengthPrefixedConnectionId_def)
qed

lemma confined_read_map: "confined f \<Longrightarrow> confined (\<lambda>r. read_map h (f r))"
  by (rule confined_map) simp_all

lemma confined_read_field: "confined (read_field k)"
  by (cases k) (simp_all add: read_field_eqs confined_read_map confined_uints confined_varint confined_strings)

lemma confined_read_all: "(\<And>k. confined (get k)) \<Longrightarrow> confined (read_all get ks)"
proof (induction ks)
  case Nil
  then show ?case by (simp add: confined_def)
next
  case (Cons k ks)
  show ?case
  proof (rule confined_bind [OF Cons.prems])
    show "confined (\<lambda>r. case read_all get ks r of (None, r'') \<Rightarrow> (None, r'') | (Some vs, r'') \<Rightarrow> (Some (v # vs), r''))" for v
      using Cons.IH [OF Cons.prems] by (auto simp: confined_def case_prod_beta split: option.splits) 
  qed simp
qed


subsection \<open>The 16-bit floating point format\<close>

lemma unat_push: "unat (x::u64) * 2 ^ k < 2 ^ 64 \<Longrightarrow> unat (push_bit k x) = unat x * 2 ^ k"
  by (simp only: unsigned_push_bit_eq) (simp add: take_bit_eq_mod push_bit_eq_mult)

lemma push_one: "k < 64 \<Longrightarrow> unat (push_bit k (1::u64)) = 2 ^ k"
  using power_strict_increasing [of k 64 "2 :: nat"] by (subst unat_push) simp_all

text \<open>The search for the exponent: \<open>x\<close> is the value shifted by the exponent found so far.\<close>

definition ufloat16_inv :: "nat \<Rightarrow> nat \<Rightarrow> nat \<times> u64 \<Rightarrow> bool" where
  "ufloat16_inv v bound st \<longleftrightarrow> unat (snd st) = v div 2 ^ fst st \<and> 2 ^ 11 \<le> unat (snd st) \<and> unat (snd st) < 2 ^ (11 + bound)"

lemma ufloat16_shift_inv:
  assumes "ufloat16_inv v (2 * d) st" "d < 50"
  shows "ufloat16_inv v d (ufloat16_shift d st)"
proof -
  obtain k x where st: "st = (k, x)" by (cases st)
  have x: "unat x = v div 2 ^ k" "2 ^ 11 \<le> unat x" "unat x < 2 ^ (11 + 2 * d)" using assms(1) by (simp_all add: ufloat16_inv_def st)
  have p: "unat (push_bit (11 + d) (1::u64)) = 2 ^ (11 + d)" using assms(2) by (intro push_one) simp
  show ?thesis
  proof (cases "x \<ge> push_bit (11 + d) 1")
    case True
    then have ge: "2 ^ (11 + d) \<le> unat x" using p by (simp add: word_le_nat_alt)
    have "unat x div 2 ^ d = v div 2 ^ (k + d)" using x(1) by (simp only: power_add div_mult2_eq)
    moreover have "2 ^ 11 \<le> unat x div 2 ^ d"
      using ge by (simp only: less_eq_div_iff_mult_less_eq power_add zero_less_power zero_less_numeral)
    moreover have "unat x div 2 ^ d < 2 ^ (11 + d)"
      using x(3) by (simp only: div_less_iff_less_mult power_add mult_2 zero_less_power zero_less_numeral mult.assoc)
    moreover have "ufloat16_shift d st = (k + d, drop_bit d x)"
      using True by (simp only: ufloat16_shift_def st kUFloat16MantissaBits_def fst_conv snd_conv if_True)
    ultimately show ?thesis by (simp only: ufloat16_inv_def unat_drop fst_conv snd_conv)
  next
    case False
    then have "unat x < 2 ^ (11 + d)" using p by (simp only: word_le_nat_alt not_le)
    moreover have "ufloat16_shift d st = (k, x)"
      using False by (simp only: ufloat16_shift_def st kUFloat16MantissaBits_def fst_conv snd_conv if_False)
    ultimately show ?thesis using x(1,2) by (simp only: ufloat16_inv_def fst_conv snd_conv)
  qed
qed

lemma ufloat16_search:
  assumes "2 ^ 12 \<le> unat v" "unat v < 2 ^ 42"
  obtains k x where "ufloat16_loop 16 (0, v) = (k, x)" "unat x = unat v div 2 ^ k" "2 ^ 11 \<le> unat x" "unat x < 2 ^ 12"
proof -
  define st where "st = ufloat16_shift 1 (ufloat16_shift 2 (ufloat16_shift 4 (ufloat16_shift 8 (ufloat16_shift 16 (0, v)))))"
  have "ufloat16_inv (unat v) 32 (0, v)" using assms by (simp add: ufloat16_inv_def)
  then have "ufloat16_inv (unat v) 1 st" unfolding st_def
    using ufloat16_shift_inv [of _ 16] ufloat16_shift_inv [of _ 8] ufloat16_shift_inv [of _ 4] ufloat16_shift_inv [of _ 2]
      ufloat16_shift_inv [of _ 1] by simp
  moreover have "ufloat16_loop 16 (0, v) = st" by (simp add: st_def)
  ultimately show ?thesis using that [of "fst st" "snd st"] by (simp add: ufloat16_inv_def del: ufloat16_loop.simps)
qed

lemma ufloat16_decode_normal:
  assumes "2 ^ 11 \<le> x" "x < 2 ^ 12" "1 \<le> k" "k \<le> 30"
  shows "unat (ufloat16_decode (of_nat (x + k * 2 ^ 11))) = x * 2 ^ k"
proof -
  define v :: u16 where "v = of_nat (x + k * 2 ^ 11)"
  have v: "unat v = x + k * 2048" unfolding v_def by (subst unat_of_nat_less) (use assms in simp_all)
  have c: "unat (ucast v :: u64) = x + k * 2048"
    using v assms by (simp only: unsigned_ucast_eq) (simp add: take_bit_eq_mod)
  have "unat (drop_bit 11 v) = k + 1"
    unfolding unat_drop v using assms by (simp add: div_add1_eq)
  then have e: "drop_bit 11 v - 1 = of_nat k" by (metis add_diff_cancel_right' of_nat_1 of_nat_add of_nat_unat ucast_id)
  have ke: "unat (of_nat k :: u16) = k" using assms(4) by (simp add: unat_of_nat_less)
  have "unat (push_bit 11 (ucast (of_nat k :: u16)) :: u64) = k * 2048"
    using assms(4) ke by (subst unat_push) (simp_all add: unsigned_ucast_eq take_bit_eq_mod)
  then have r: "unat (ucast v - push_bit 11 (ucast (of_nat k :: u16)) :: u64) = x"
    using c by (subst unat_sub) (simp_all add: word_le_nat_alt)
  have "x * 2 ^ k < 2 ^ 12 * 2 ^ 30"
    using assms(2) power_increasing [OF assms(4), of "2 :: nat"] by (intro mult_less_le_imp_less) simp_all
  then have "unat (push_bit k (ucast v - push_bit 11 (ucast (of_nat k :: u16)) :: u64)) = x * 2 ^ k"
    by (subst unat_push) (simp_all add: r)
  moreover have "\<not> ucast v < (push_bit 12 1 :: u64)" using c assms(1,3) by (simp add: word_less_nat_alt push_one)
  ultimately show ?thesis unfolding v_def [symmetric]
    by (simp add: ufloat16_decode_def kUFloat16MantissaEffectiveBits_def kUFloat16MantissaBits_def e ke Let_def)
qed

lemma kUFloat16MaxValue_eq: "unat kUFloat16MaxValue = 4095 * 2 ^ 30"
  by (simp add: kUFloat16MaxValue_def kUFloat16MaxExponent_def kUFloat16MantissaEffectiveBits_def)

lemma ufloat16_error:
  assumes "unat v \<le> 4095 * 2 ^ 30"
  shows "unat (ufloat16_decode (ufloat16_encode v)) \<le> unat v \<and>
    2048 * (unat v - unat (ufloat16_decode (ufloat16_encode v))) \<le> unat v"
proof -
  consider "unat v < 2 ^ 12" | "2 ^ 12 \<le> unat v" "unat v < 4095 * 2 ^ 30" | "unat v = 4095 * 2 ^ 30" using assms by linarith
  then show ?thesis
  proof cases
    case 1
    then have "ufloat16_encode v = ucast v" by (simp add: ufloat16_encode_def kUFloat16MantissaEffectiveBits_def word_less_nat_alt)
    moreover have "(ucast (ucast v :: u16) :: u64) = v"
    proof -
      have u: "unat (ucast v :: u16) = unat v" using 1 by (simp only: unsigned_ucast_eq) (simp add: take_bit_eq_mod)
      define y :: u16 where "y = ucast v"
      have "unat (ucast y :: u64) = unat y"
        using unat_bound [of y] by (simp only: unsigned_ucast_eq) (simp add: take_bit_eq_mod)
      then show ?thesis using u by (simp add: y_def [symmetric] word_unat_eq_iff)
    qed
    ultimately show ?thesis using 1 by (simp add: ufloat16_decode_def kUFloat16MantissaEffectiveBits_def word_less_nat_alt)
  next
    case 2
    then have "unat v < 2 ^ 42" by simp
    from ufloat16_search [OF 2(1) this] obtain k x where
      s: "ufloat16_loop 16 (0, v) = (k, x)" "unat x = unat v div 2 ^ k" "2 ^ 11 \<le> unat x" "unat x < 2 ^ 12" .
    have k1: "1 \<le> k" using s(2,4) 2(1) by (cases k) auto
    have k30: "k \<le> 30"
    proof (rule ccontr)
      assume "\<not> k \<le> 30"
      then have "(2::nat) ^ 31 \<le> 2 ^ k" by (intro power_increasing) simp_all
      then have "2 ^ 11 * 2 ^ 31 \<le> unat x * 2 ^ k" using s(3) by (intro mult_mono) simp_all
      also have "\<dots> \<le> unat v" unfolding s(2) by (rule div_times_less_eq_dividend)
      finally show False using 2(2) by simp
    qed
    have "ufloat16_encode v = ucast (x + of_nat (k * 2 ^ 11))"
      using 2 kUFloat16MaxValue_eq s(1)
      by (simp add: ufloat16_encode_def kUFloat16MantissaEffectiveBits_def kUFloat16MantissaBits_def word_less_nat_alt word_le_nat_alt
          del: ufloat16_loop.simps)
    also have "\<dots> = of_nat (unat (x + of_nat (k * 2 ^ 11)))" by (rule ucast_eq_of_nat)
    also have "unat (x + of_nat (k * 2 ^ 11)) = unat x + k * 2 ^ 11"
    proof -
      have "unat (of_nat (k * 2 ^ 11) :: u64) = k * 2 ^ 11" using k30 by (intro unat_of_nat_less) simp
      then show ?thesis using s(4) k30 by (subst unat_add_u64) (simp_all only:, simp)
    qed
    finally have d: "unat (ufloat16_decode (ufloat16_encode v)) = unat v div 2 ^ k * 2 ^ k"
      using ufloat16_decode_normal [OF s(3,4) k1 k30] s(2) by simp
    have "unat v = unat v div 2 ^ k * 2 ^ k + unat v mod 2 ^ k" by (rule div_mult_mod_eq [symmetric])
    moreover have "unat v mod 2 ^ k < 2 ^ k" by simp
    moreover have "2048 * 2 ^ k \<le> unat v div 2 ^ k * 2 ^ k" using s(2,3) by simp
    ultimately show ?thesis unfolding d by linarith
  next
    case 3
    then have "ufloat16_encode v = of_nat (4095 + 30 * 2 ^ 11)"
      using kUFloat16MaxValue_eq
      by (simp add: ufloat16_encode_def kUFloat16MantissaEffectiveBits_def word_less_nat_alt word_le_nat_alt)
    then show ?thesis using 3 ufloat16_decode_normal [of 4095 30] by simp
  qed
qed


subsection \<open>Properties\<close>

text \<open>C8: any sequence of fields, of any of the kinds the framer writes, is read back as it was written,
  whatever the buffer held before and whatever bytes follow.\<close>

theorem fields_roundtrip:
  assumes "list_all (field_valid e) fs" "length (concat (map (field_bytes e) fs)) \<le> length buffer"
  shows "\<exists>w r. write_all write_field fs (DataWriter_new (length buffer) buffer e) = (True, w) \<and>
    read_all read_field (map kind_of fs) (DataReader_new (dw_bytes w @ s) e) = (Some fs, r) \<and> dr_rest r = s"
  by (rule fields.roundtrip [OF assms])

theorem fields_roundtrip_witness:
  "\<exists>w r. write_all write_field [FVarInt62 15293, FVarInt62Len 37 8, FString16 [1, 2], FUInt32 7]
      (DataWriter_new (length (replicate 20 (0::u8))) (replicate 20 0) NETWORK_BYTE_ORDER) = (True, w) \<and>
    read_all read_field (map kind_of [FVarInt62 15293, FVarInt62Len 37 8, FString16 [1, 2], FUInt32 7])
      (DataReader_new (dw_bytes w @ [9]) NETWORK_BYTE_ORDER) = (Some [FVarInt62 15293, FVarInt62Len 37 8, FString16 [1, 2], FUInt32 7], r) \<and>
    dr_rest r = [9]"
  by (rule fields_roundtrip)
     (simp_all add: varint_bytes_def varint1_bytes_def varint2_bytes_def padded_varint_def)

text \<open>C19: reading is safe on arbitrary bytes: whatever a peer sends and whatever is read, in any order, the
  results depend on the bytes that are left and on nothing around them, and the position stays within the data.\<close>

theorem reads_stay_inside:
  assumes "dr_ok r" "dr_ok r'" "dr_rest r = dr_rest r'" "dr_endianness r = dr_endianness r'"
  shows "fst (read_all read_field ks r) = fst (read_all read_field ks r') \<and>
    dr_rest (snd (read_all read_field ks r)) = dr_rest (snd (read_all read_field ks r')) \<and>
    dr_pos (snd (read_all read_field ks r)) \<le> dr_len (snd (read_all read_field ks r)) \<and>
    dr_len (snd (read_all read_field ks r)) \<le> length (dr_data (snd (read_all read_field ks r)))"
  using confinedD [OF confined_read_all [where get = read_field and ks = ks, OF confined_read_field], of r r'] assms
  by (simp add: same_rest_def dr_ok_def)

theorem reads_stay_inside_witness:
  "fst (read_all read_field [KVarInt62, KUInt16] (DataReader_new [0xc1, 2, 3] NETWORK_BYTE_ORDER)) =
   fst (read_all read_field [KVarInt62, KUInt16] (\<lparr>dr_data = [7, 0xc1, 2, 3, 8], dr_len = 4, dr_pos = 1, dr_endianness = NETWORK_BYTE_ORDER\<rparr>))"
  using reads_stay_inside [of "DataReader_new [0xc1, 2, 3] NETWORK_BYTE_ORDER"
      "\<lparr>dr_data = [7, 0xc1, 2, 3, 8], dr_len = 4, dr_pos = 1, dr_endianness = NETWORK_BYTE_ORDER\<rparr>" "[KVarInt62, KUInt16]"]
  by (simp add: DataReader_new_def dr_ok_def dr_rest_def)



text \<open>A failed read of a variable length integer or of a connection id leaves the position where it was, so the
  next read succeeds, unlike after the other failed reads.\<close>

lemma varint_failure_not_sticky:
  "fst (ReadVarInt62 (DataReader_new [0xc0] NETWORK_BYTE_ORDER)) = None \<and>
   fst (ReadUInt8 (snd (ReadVarInt62 (DataReader_new [0xc0] NETWORK_BYTE_ORDER)))) = Some 0xc0 \<and>
   fst (ReadUInt16 (DataReader_new [0xc0] NETWORK_BYTE_ORDER)) = None \<and>
   fst (ReadUInt8 (snd (ReadUInt16 (DataReader_new [0xc0] NETWORK_BYTE_ORDER)))) = None"
  by code_simp

end
