(* ===== verification/Refinement.thy ===== *)
theory Refinement
  imports Call_Runs
begin

text \<open>
  Containers and what they promise. A step takes a call and a state to an answer and the next state, or
  does not return; a specification does the same to an abstract value. The locale
  \<open>refines\<close> is the law of a single call, and its lemma is what a client sees: over any legal
  sequence of calls the container gives the answers of its specification.
\<close>

fun run_ops :: "('c \<Rightarrow> 's \<Rightarrow> ('o \<times> 's) option) \<Rightarrow> 'c list \<Rightarrow> 's \<Rightarrow> ('o list \<times> 's) option" where
  "run_ops step [] s = Some ([], s)"
| "run_ops step (c # cs) s =
     (case step c s of
        None \<Rightarrow> None
      | Some (r, s') \<Rightarrow> (case run_ops step cs s' of None \<Rightarrow> None | Some (rs, s'') \<Rightarrow> Some (r # rs, s'')))"

fun spec_ops :: "('c \<Rightarrow> 'x \<Rightarrow> 'o \<times> 'x) \<Rightarrow> 'c list \<Rightarrow> 'x \<Rightarrow> 'o list \<times> 'x" where
  "spec_ops spec [] x = ([], x)"
| "spec_ops spec (c # cs) x = (case spec c x of (r, x') \<Rightarrow> (case spec_ops spec cs x' of (rs, x'') \<Rightarrow> (r # rs, x'')))"

text \<open>A caller owes a precondition, which is a matter of the abstract value.\<close>

fun spec_legal :: "('c \<Rightarrow> 'x \<Rightarrow> bool) \<Rightarrow> ('c \<Rightarrow> 'x \<Rightarrow> 'o \<times> 'x) \<Rightarrow> 'c list \<Rightarrow> 'x \<Rightarrow> bool" where
  "spec_legal ok spec [] x \<longleftrightarrow> True"
| "spec_legal ok spec (c # cs) x \<longleftrightarrow> ok c x \<and> spec_legal ok spec cs (snd (spec c x))"

text \<open>A fallible operation as a step.\<close>

definition returns :: "'a result \<Rightarrow> 'a option" where
  "returns r = (case r of Inl e \<Rightarrow> None | Inr x \<Rightarrow> Some x)"

lemma returns_simps [simp]: "returns (Inl e) = None" "returns (Inr x) = Some x"
  by (simp_all add: returns_def)

locale refines =
  fixes inv :: "'s \<Rightarrow> bool"
    and abs :: "'s \<Rightarrow> 'x"
    and ok :: "'c \<Rightarrow> 'x \<Rightarrow> bool"
    and step :: "'c \<Rightarrow> 's \<Rightarrow> ('o \<times> 's) option"
    and spec :: "'c \<Rightarrow> 'x \<Rightarrow> 'o \<times> 'x"
  assumes step_refines:
    "inv s \<Longrightarrow> ok c (abs s) \<Longrightarrow> \<exists>s'. step c s = Some (fst (spec c (abs s)), s') \<and> inv s' \<and> abs s' = snd (spec c (abs s))"
begin

lemma run_refines:
  "inv s \<Longrightarrow> spec_legal ok spec cs (abs s) \<Longrightarrow>
   \<exists>s'. run_ops step cs s = Some (fst (spec_ops spec cs (abs s)), s') \<and> inv s' \<and> abs s' = snd (spec_ops spec cs (abs s))"
proof (induction cs arbitrary: s)
  case (Cons c cs)
  from step_refines [of s c] Cons.prems obtain s1 where
    s1: "step c s = Some (fst (spec c (abs s)), s1)" "inv s1" "abs s1 = snd (spec c (abs s))" by auto
  from Cons.IH [of s1] s1 Cons.prems obtain s2 where
    "run_ops step cs s1 = Some (fst (spec_ops spec cs (abs s1)), s2)" "inv s2" "abs s2 = snd (spec_ops spec cs (abs s1))"
    by auto
  then show ?case using s1 by (simp add: case_prod_beta)
qed simp

end

end
