(* ===== verification/Interval_Set.thy ===== *)
theory Interval_Set
  imports Refinement "HOL-Library.Sublist"
begin

text \<open>
  Sets kept as disjoint intervals: \<open>quic_interval.h\<close> and \<open>quic_interval_set.h\<close>. The ordered set of
  intervals is the list of them in ascending order, and an iterator splits it into the
  intervals before it and those from it on. The operations are those of the class
  template, at any ordered type of values; its default value is \<open>0\<close>.

  The lemmas show that every operation keeps the invariant the class states of itself, \<open>Valid\<close>, and
  that it does to the set of values what its name says. The locale \<open>value_set\<close> is what the users of
  the class rely on.
\<close>

datatype 'a interval = Interval (iv_min: 'a) (iv_max: 'a)

type_synonym 'a interval_set = "'a interval list"

subsection \<open>Intervals\<close>

definition iv_SetMin :: "'a \<Rightarrow> 'a interval \<Rightarrow> 'a interval" where
  "iv_SetMin t i = Interval t (iv_max i)"

definition iv_SetMax :: "'a \<Rightarrow> 'a interval \<Rightarrow> 'a interval" where
  "iv_SetMax t i = Interval (iv_min i) t"

definition iv_Clear :: "'a::zero interval" where
  "iv_Clear = Interval 0 0"

definition iv_Empty :: "'a::linorder interval \<Rightarrow> bool" where
  "iv_Empty i \<longleftrightarrow> iv_min i \<ge> iv_max i"

definition iv_Contains_value :: "'a::linorder \<Rightarrow> 'a interval \<Rightarrow> bool" where
  "iv_Contains_value t i \<longleftrightarrow> iv_min i \<le> t \<and> iv_max i > t"

definition iv_Contains :: "'a::linorder interval \<Rightarrow> 'a interval \<Rightarrow> bool" where
  "iv_Contains j i \<longleftrightarrow> \<not> iv_Empty i \<and> \<not> iv_Empty j \<and> iv_min i \<le> iv_min j \<and> iv_max i \<ge> iv_max j"

definition iv_Intersects :: "'a::linorder interval \<Rightarrow> 'a interval \<Rightarrow> bool" where
  "iv_Intersects j i \<longleftrightarrow> \<not> iv_Empty i \<and> \<not> iv_Empty j \<and> iv_min i < iv_max j \<and> iv_max i > iv_min j"

definition iv_Intersection :: "'a::linorder interval \<Rightarrow> 'a interval \<Rightarrow> 'a interval" where
  "iv_Intersection j i = Interval (max (iv_min i) (iv_min j)) (min (iv_max i) (iv_max j))"

definition iv_Separated :: "'a::linorder interval \<Rightarrow> 'a interval \<Rightarrow> bool" where
  "iv_Separated other i \<longleftrightarrow>
     iv_Empty i \<or> iv_Empty other \<or> iv_max other < iv_min i \<or> iv_max i < iv_min other"

definition iv_SpanningUnion :: "'a::linorder interval \<Rightarrow> 'a interval \<Rightarrow> bool \<times> 'a interval" where
  "iv_SpanningUnion i this =
     (if iv_Empty i then (False, this)
      else if iv_Empty this then (True, i)
      else
        let (modified, this) = (if iv_min i < iv_min this then (True, iv_SetMin (iv_min i) this) else (False, this));
            (modified, this) = (if iv_max i > iv_max this then (True, iv_SetMax (iv_max i) this) else (modified, this))
        in (modified, this))"

definition iv_less :: "'a::linorder interval \<Rightarrow> 'a interval \<Rightarrow> bool" where
  "iv_less a b \<longleftrightarrow> iv_min a < iv_min b \<or> (\<not> iv_min b < iv_min a \<and> iv_max b < iv_max a)"

definition iv_IntersectWith :: "'a::linorder interval \<Rightarrow> 'a interval \<Rightarrow> bool \<times> 'a interval" where
  "iv_IntersectWith i this =
     (if iv_Empty this then (False, this)
      else
        let (modified, this) = (if iv_min i > iv_min this then (True, iv_SetMin (iv_min i) this) else (False, this));
            (modified, this) = (if iv_max i < iv_max this then (True, iv_SetMax (iv_max i) this) else (modified, this))
        in (modified, this))"

text \<open>The part of an interval below another one and the part above it.\<close>

definition iv_Difference :: "'a::{linorder,zero} interval \<Rightarrow> 'a interval \<Rightarrow> bool \<times> 'a interval \<times> 'a interval" where
  "iv_Difference i this =
     (if iv_Empty this then (False, iv_Clear, iv_Clear)
      else if iv_Empty i then (False, this, iv_Clear)
      else if iv_min this < iv_max i \<and> iv_min this \<ge> iv_min i \<and> iv_max this > iv_max i then
        (True, iv_Clear, Interval (iv_max i) (iv_max this))
      else if iv_max this > iv_min i \<and> iv_max this \<le> iv_max i \<and> iv_min this < iv_min i then
        (True, Interval (iv_min this) (iv_min i), iv_Clear)
      else if iv_min this < iv_min i \<and> iv_max this > iv_max i then
        (True, Interval (iv_min this) (iv_min i), Interval (iv_max i) (iv_max this))
      else if iv_min this \<ge> iv_min i \<and> iv_max this \<le> iv_max i then (True, iv_Clear, iv_Clear)
      else (False, this, iv_Clear))"


subsection \<open>The ordered set of intervals\<close>

definition is_lower_bound :: "'a::linorder \<Rightarrow> 'a interval_set \<Rightarrow> 'a interval_set \<times> 'a interval_set" where
  "is_lower_bound p s = (takeWhile (\<lambda>i. iv_min i < p) s, dropWhile (\<lambda>i. iv_min i < p) s)"

definition is_upper_bound :: "'a::linorder \<Rightarrow> 'a interval_set \<Rightarrow> 'a interval_set \<times> 'a interval_set" where
  "is_upper_bound p s = (takeWhile (\<lambda>i. \<not> p < iv_min i) s, dropWhile (\<lambda>i. \<not> p < iv_min i) s)"

definition is_insert :: "'a::linorder interval \<Rightarrow> 'a interval_set \<Rightarrow> 'a interval_set" where
  "is_insert i s =
     (case is_lower_bound (iv_min i) s of
        (before, after) \<Rightarrow>
          if after \<noteq> [] \<and> \<not> iv_min i < iv_min (hd after) then s else before @ i # after)"

definition is_SpanningInterval :: "'a::{linorder,zero} interval_set \<Rightarrow> 'a interval" where
  "is_SpanningInterval s = (if s \<noteq> [] then Interval (iv_min (hd s)) (iv_max (last s)) else iv_Clear)"

text \<open>The loop of \<open>Add\<close>: intervals that overlap or touch the union so far join it.\<close>

fun is_absorb :: "'a::linorder interval \<Rightarrow> 'a interval_set \<Rightarrow> 'a interval \<times> 'a interval_set" where
  "is_absorb the_union [] = (the_union, [])"
| "is_absorb the_union (i # s) =
     (if iv_Separated the_union i then (the_union, i # s) else is_absorb (snd (iv_SpanningUnion i the_union)) s)"

definition is_Add :: "'a::linorder interval \<Rightarrow> 'a interval_set \<Rightarrow> 'a interval_set" where
  "is_Add interval s =
     (if iv_Empty interval then s
      else
        let (before, it) = is_lower_bound (iv_min interval) s;
            (before, it) = (if before \<noteq> [] \<and> \<not> iv_Separated interval (last before)
                            then (butlast before, last before # it) else (before, it));
            (the_union, it) = is_absorb interval it
        in is_insert the_union (before @ it))"

definition is_AddOptimizedForAppend :: "'a::linorder interval \<Rightarrow> 'a interval_set \<Rightarrow> 'a interval_set" where
  "is_AddOptimizedForAppend interval s =
     (if s = [] then is_Add interval s
      else if iv_min interval < iv_min (last s) \<or> iv_min interval > iv_max (last s) then is_Add interval s
      else if iv_max interval \<le> iv_max (last s) then s
      else butlast s @ [iv_SetMax (iv_max interval) (last s)])"

definition is_PopFront :: "'a interval_set \<Rightarrow> 'a interval_set result" where
  "is_PopFront s = (case s of [] \<Rightarrow> Inl InvalidIterator | i # s' \<Rightarrow> Inr s')"

fun is_TrimLessThan :: "'a::linorder \<Rightarrow> 'a interval_set \<Rightarrow> bool \<times> 'a interval_set" where
  "is_TrimLessThan value [] = (False, [])"
| "is_TrimLessThan value (i # s) =
     (if iv_min i \<ge> value then (False, i # s)
      else if iv_max i \<le> value then (True, snd (is_TrimLessThan value s))
      else (True, iv_SetMin value i # s))"

definition is_Contains_value :: "'a::linorder \<Rightarrow> 'a interval_set \<Rightarrow> bool" where
  "is_Contains_value value s =
     (case is_upper_bound value s of (before, it) \<Rightarrow> before \<noteq> [] \<and> iv_Contains_value value (last before))"

definition is_Contains_interval :: "'a::linorder interval \<Rightarrow> 'a interval_set \<Rightarrow> bool" where
  "is_Contains_interval i s =
     (case is_upper_bound (iv_min i) s of (before, it) \<Rightarrow> before \<noteq> [] \<and> iv_Contains i (last before))"

definition is_Contains :: "'a::{linorder,zero} interval_set \<Rightarrow> 'a interval_set \<Rightarrow> bool" where
  "is_Contains other s \<longleftrightarrow>
     iv_Contains (is_SpanningInterval other) (is_SpanningInterval s) \<and> list_all (\<lambda>i. is_Contains_interval i s) other"

definition is_Find_value :: "'a::linorder \<Rightarrow> 'a interval_set \<Rightarrow> 'a interval option" where
  "is_Find_value value s =
     (case is_upper_bound value s of
        (before, it) \<Rightarrow> if before = [] then None else if iv_Contains_value value (last before) then Some (last before) else None)"

definition is_Find :: "'a::linorder interval \<Rightarrow> 'a interval_set \<Rightarrow> 'a interval option" where
  "is_Find probe s =
     (case is_upper_bound (iv_min probe) s of
        (before, it) \<Rightarrow> if before = [] then None else if iv_Contains probe (last before) then Some (last before) else None)"

text \<open>An iterator as the list from it on.\<close>

definition is_LowerBound :: "'a::linorder \<Rightarrow> 'a interval_set \<Rightarrow> 'a interval_set" where
  "is_LowerBound value s =
     (case is_lower_bound value s of
        (before, it) \<Rightarrow> if before = [] then it else if iv_Contains_value value (last before) then last before # it else it)"

definition is_UpperBound :: "'a::linorder \<Rightarrow> 'a interval_set \<Rightarrow> 'a interval_set" where
  "is_UpperBound value s = snd (is_upper_bound value s)"

definition is_IsDisjoint :: "'a::linorder interval \<Rightarrow> 'a interval_set \<Rightarrow> bool" where
  "is_IsDisjoint i s =
     (if iv_Empty i then True
      else case is_upper_bound (iv_min i) s of
        (before, it) \<Rightarrow>
          if it \<noteq> [] \<and> iv_max i > iv_min (hd it) then False
          else if before = [] then True
          else iv_max (last before) \<le> iv_min i)"

definition is_Union :: "'a::linorder interval_set \<Rightarrow> 'a interval_set \<Rightarrow> 'a interval_set" where
  "is_Union other s = fold is_Add other s"

fun is_Intersects :: "'a::linorder interval_set \<Rightarrow> 'a interval_set \<Rightarrow> bool" where
  "is_Intersects (m # mine) (t # theirs) =
     (if iv_Intersects t m then True
      else if iv_less m t then is_Intersects mine (t # theirs)
      else is_Intersects (m # mine) theirs)"
| "is_Intersects mine theirs = False"

definition is_FindIntersectionCandidate :: "'a::linorder interval \<Rightarrow> 'a interval_set \<Rightarrow> 'a interval_set" where
  "is_FindIntersectionCandidate i s =
     (case is_upper_bound (iv_min i) s of (before, it) \<Rightarrow> if before \<noteq> [] then last before # it else it)"

text \<open>\<open>FindNextIntersectingPairAndEraseHoles\<close>: both iterators move on until their intervals meet. The
  intervals of this set that are passed are erased.\<close>

partial_function (option) is_next_pair ::
  "'a::linorder interval_set \<Rightarrow> 'a interval_set \<Rightarrow> (bool \<times> 'a interval_set \<times> 'a interval_set) option" where
  "is_next_pair mine theirs =
     (if mine = [] \<or> theirs = [] then Some (False, mine, theirs)
      else if iv_Intersects (hd theirs) (hd mine) then Some (True, mine, theirs)
      else
        let mine' = dropWhile (\<lambda>i. iv_max i \<le> iv_min (hd theirs)) mine in
        if mine' = [] then Some (False, [], theirs)
        else
          let theirs' = dropWhile (\<lambda>i. iv_max i \<le> iv_min (hd mine')) theirs in
          if theirs' = [] then Some (False, [], []) else is_next_pair mine' theirs')"

text \<open>The loop of \<open>Intersection\<close>: \<open>kept\<close> are the intervals before the iterator \<open>mine\<close>. The current interval is
  replaced by its intersections with theirs, and the last of these is looked at again.\<close>

partial_function (option) is_inter_loop ::
  "'a::linorder interval_set \<Rightarrow> 'a interval_set \<Rightarrow> 'a interval_set \<Rightarrow> 'a interval_set option" where
  "is_inter_loop kept mine theirs =
     (case is_next_pair mine theirs of
        None \<Rightarrow> None
      | Some (found, mine', theirs') \<Rightarrow>
          if \<not> found then Some (kept @ mine')
          else
            let hits = takeWhile (\<lambda>t. iv_Intersects t (hd mine')) theirs' in
            is_inter_loop (kept @ map (\<lambda>t. iv_Intersection t (hd mine')) hits) (tl mine') (drop (length hits - 1) theirs'))"

definition is_Intersection :: "'a::{linorder,zero} interval_set \<Rightarrow> 'a interval_set \<Rightarrow> 'a interval_set option" where
  "is_Intersection other s =
     (if \<not> iv_Intersects (is_SpanningInterval other) (is_SpanningInterval s) then Some []
      else
        let mine = is_FindIntersectionCandidate (hd other) s;
            theirs = is_FindIntersectionCandidate (hd mine) other
        in is_inter_loop [] mine theirs)"

text \<open>The loop of \<open>Difference\<close>; \<open>my\<close> is what is left of the first of \<open>mine\<close>.\<close>

definition is_diff_step ::
  "'a::{linorder,zero} interval \<Rightarrow> 'a interval_set \<Rightarrow> 'a interval_set \<Rightarrow> 'a interval \<times> 'a interval_set \<times> 'a interval_set" where
  "is_diff_step my theirs result =
     (if theirs = [] \<or> iv_max my \<le> iv_min (hd theirs) then (iv_Clear, theirs, is_insert my result)
      else if iv_max (hd theirs) \<le> iv_min my then (my, tl theirs, result)
      else if iv_min my < iv_min (hd theirs) then
        (iv_SetMin (iv_max (hd theirs)) my, theirs, is_insert (Interval (iv_min my) (iv_min (hd theirs))) result)
      else (iv_SetMin (iv_max (hd theirs)) my, theirs, result))"

definition is_diff_measure :: "'a::linorder interval \<Rightarrow> 'a interval_set \<Rightarrow> 'a interval_set \<Rightarrow> nat" where
  "is_diff_measure my mine theirs =
     2 * length mine + 2 * length theirs + (if theirs \<noteq> [] \<and> \<not> iv_max (hd theirs) \<le> iv_min my then 1 else 0)"

function is_diff_loop ::
  "'a::{linorder,zero} interval \<Rightarrow> 'a interval_set \<Rightarrow> 'a interval_set \<Rightarrow> 'a interval_set \<Rightarrow> 'a interval_set" where
  "is_diff_loop my mine theirs result =
     (if mine = [] then result
      else
        let (my', theirs', result') = is_diff_step my theirs result in
        if iv_Empty my' then is_diff_loop (if tl mine \<noteq> [] then hd (tl mine) else my') (tl mine) theirs' result'
        else is_diff_loop my' mine theirs' result')"
  by pat_completeness auto
termination
proof (relation "measure (\<lambda>(my, mine, theirs, result). is_diff_measure my mine theirs)")
  show "wf (measure (\<lambda>(my :: 'a interval, mine, theirs, result :: 'a interval_set). is_diff_measure my mine theirs))" by simp
next
  fix my my' :: "'a interval" and mine theirs result theirs' result' :: "'a interval_set" and x y
  assume m: "mine \<noteq> []" and x: "x = is_diff_step my theirs result" "(my', y) = x" "(theirs', result') = y"
  from m have l: "Suc (length (tl mine)) = length mine" by (cases mine) simp_all
  have t: "length theirs' \<le> length theirs" using x by (auto simp: is_diff_step_def split: if_splits)
  show "((if tl mine \<noteq> [] then hd (tl mine) else my', tl mine, theirs', result'), my, mine, theirs, result)
    \<in> measure (\<lambda>(my, mine, theirs, result). is_diff_measure my mine theirs)"
    using l t by (auto simp: is_diff_measure_def)
next
  fix my my' :: "'a interval" and mine theirs result theirs' result' :: "'a interval_set" and x y
  assume x: "x = is_diff_step my theirs result" "(my', y) = x" "(theirs', result') = y" and e: "\<not> iv_Empty my'"
  show "((my', mine, theirs', result'), my, mine, theirs, result)
    \<in> measure (\<lambda>(my, mine, theirs, result). is_diff_measure my mine theirs)"
    using x e by (cases theirs) (auto simp: is_diff_measure_def is_diff_step_def iv_Clear_def iv_Empty_def iv_SetMin_def split: if_splits)
qed

definition is_Difference :: "'a::{linorder,zero} interval_set \<Rightarrow> 'a interval_set \<Rightarrow> 'a interval_set" where
  "is_Difference other s = (if s = [] then s else is_diff_loop (hd s) s other [])"

definition is_Difference_interval :: "'a::{linorder,zero} interval \<Rightarrow> 'a interval_set \<Rightarrow> 'a interval_set" where
  "is_Difference_interval i s =
     (if \<not> iv_Intersects i (is_SpanningInterval s) then s else is_Difference (is_Add i []) s)"

definition is_Complement :: "'a::{linorder,zero} \<Rightarrow> 'a \<Rightarrow> 'a interval_set \<Rightarrow> 'a interval_set" where
  "is_Complement mn mx s = is_Difference s (is_Add (Interval mn mx) [])"

fun is_Valid_from :: "'a::linorder interval option \<Rightarrow> 'a interval_set \<Rightarrow> bool" where
  "is_Valid_from prev [] \<longleftrightarrow> True"
| "is_Valid_from prev (it # s) \<longleftrightarrow>
     \<not> iv_min it \<ge> iv_max it \<and> \<not> (case prev of None \<Rightarrow> False | Some p \<Rightarrow> iv_max p \<ge> iv_min it) \<and>
     is_Valid_from (Some it) s"

definition is_Valid :: "'a::linorder interval_set \<Rightarrow> bool" where
  "is_Valid s = is_Valid_from None s"


subsection \<open>The values of a set\<close>

definition iv_set :: "'a::linorder interval \<Rightarrow> 'a set" where
  "iv_set i = {iv_min i ..< iv_max i}"

definition is_set :: "'a::linorder interval_set \<Rightarrow> 'a set" where
  "is_set s = (\<Union>i\<in>set s. iv_set i)"

text \<open>The invariant: intervals are not empty, in order, and neither overlap nor touch.\<close>

definition is_ok :: "'a::linorder interval_set \<Rightarrow> bool" where
  "is_ok s \<longleftrightarrow> (\<forall>i\<in>set s. iv_min i < iv_max i) \<and> sorted_wrt (\<lambda>i j. iv_max i < iv_min j) s"

lemma is_set_simps [simp]: "is_set [] = {}" "is_set (i # s) = iv_set i \<union> is_set s" "is_set (s @ s') = is_set s \<union> is_set s'"
  by (auto simp: is_set_def)

lemma iv_set_Empty: "iv_Empty i \<Longrightarrow> iv_set i = {}"
  by (auto simp: iv_set_def iv_Empty_def)

lemma is_ok_Nil [simp]: "is_ok []"
  by (simp add: is_ok_def)

lemma is_ok_Cons: "is_ok (i # s) \<longleftrightarrow> iv_min i < iv_max i \<and> (\<forall>j\<in>set s. iv_max i < iv_min j) \<and> is_ok s"
  by (auto simp: is_ok_def)

lemma is_ok_append: "is_ok (s @ s') \<longleftrightarrow> is_ok s \<and> is_ok s' \<and> (\<forall>i\<in>set s. \<forall>j\<in>set s'. iv_max i < iv_min j)"
  by (auto simp: is_ok_def sorted_wrt_append)

lemma is_ok_nonempty: "is_ok s \<Longrightarrow> i \<in> set s \<Longrightarrow> iv_min i < iv_max i"
  by (simp add: is_ok_def)

lemma is_Valid_from_ok: "is_Valid_from p s \<longleftrightarrow> is_ok s \<and> (\<forall>q. p = Some q \<longrightarrow> (\<forall>i\<in>set s. iv_max q < iv_min i))"
proof (induction s arbitrary: p)
  case (Cons i s)
  show ?case by (auto simp: Cons.IH is_ok_Cons split: option.splits)
qed simp

lemma is_Valid_ok: "is_Valid s \<longleftrightarrow> is_ok s"
  by (simp add: is_Valid_def is_Valid_from_ok)

lemma is_ok_min_mono: "is_ok (s @ s') \<Longrightarrow> i \<in> set s \<Longrightarrow> j \<in> set s' \<Longrightarrow> iv_min i < iv_min j"
  using is_ok_nonempty [of s i] by (fastforce simp: is_ok_append)

text \<open>In an ordered set the two bounds split the intervals by their lower end.\<close>

lemma dropWhile_sorted:
  "sorted_wrt (\<lambda>i j. P j \<longrightarrow> P i) s \<Longrightarrow> j \<in> set (dropWhile P s) \<Longrightarrow> \<not> P j"
  by (induction s) (auto split: if_splits)

lemma is_ok_sorted_min: "is_ok s \<Longrightarrow> sorted_wrt (\<lambda>i j. iv_min i < iv_min j) s"
  by (induction s) (fastforce simp: is_ok_Cons)+

lemma is_lower_bound_split:
  assumes "is_ok s" "is_lower_bound p s = (b, a)"
  shows "s = b @ a" "\<forall>i\<in>set b. iv_min i < p" "\<forall>i\<in>set a. p \<le> iv_min i" "is_ok (b @ a)"
proof -
  have e: "b = takeWhile (\<lambda>i. iv_min i < p) s" "a = dropWhile (\<lambda>i. iv_min i < p) s"
    using assms(2) by (simp_all add: is_lower_bound_def)
  show s: "s = b @ a" by (simp add: e)
  show "\<forall>i\<in>set b. iv_min i < p" by (auto simp: e dest: set_takeWhileD)
  have "sorted_wrt (\<lambda>i j. iv_min j < p \<longrightarrow> iv_min i < p) s"
    using is_ok_sorted_min [OF assms(1)] by (rule sorted_wrt_mono_rel [rotated]) (meson less_trans)
  from dropWhile_sorted [OF this] show "\<forall>i\<in>set a. p \<le> iv_min i" unfolding e(2) not_less [symmetric] by blast
  show "is_ok (b @ a)" using assms(1) s by simp
qed

lemma is_upper_bound_split:
  assumes "is_ok s" "is_upper_bound p s = (b, a)"
  shows "s = b @ a" "\<forall>i\<in>set b. iv_min i \<le> p" "\<forall>i\<in>set a. p < iv_min i" "is_ok (b @ a)"
proof -
  have e: "b = takeWhile (\<lambda>i. \<not> p < iv_min i) s" "a = dropWhile (\<lambda>i. \<not> p < iv_min i) s"
    using assms(2) by (simp_all add: is_upper_bound_def)
  show s: "s = b @ a" by (simp add: e)
  show "\<forall>i\<in>set b. iv_min i \<le> p" by (auto simp: e not_less dest: set_takeWhileD)
  have "sorted_wrt (\<lambda>i j. \<not> p < iv_min j \<longrightarrow> \<not> p < iv_min i) s"
    using is_ok_sorted_min [OF assms(1)] by (rule sorted_wrt_mono_rel [rotated]) (meson less_trans)
  from dropWhile_sorted [OF this] show "\<forall>i\<in>set a. p < iv_min i" unfolding e(2) by blast
  show "is_ok (b @ a)" using assms(1) s by simp
qed

lemma is_insert_between:
  assumes "is_ok (b @ u # a)"
  shows "is_insert u (b @ a) = b @ u # a"
proof -
  have b: "\<forall>i\<in>set b. iv_min i < iv_min u" and a: "\<forall>i\<in>set a. iv_min u < iv_min i"
    using assms is_ok_min_mono [of b "u # a"] is_ok_min_mono [of "b @ [u]" a] by auto
  have "takeWhile (\<lambda>i. iv_min i < iv_min u) (b @ a) = b" "dropWhile (\<lambda>i. iv_min i < iv_min u) (b @ a) = a"
    using a b by (cases a; auto simp: takeWhile_append2 dropWhile_append2 dest: less_not_sym)+
  then show ?thesis using a by (cases a) (auto simp: is_insert_def is_lower_bound_def)
qed

lemmas is_insert_end = is_insert_between [where a = "[]", simplified]

lemma iv_SpanningUnion_eq:
  "iv_min i < iv_max i \<Longrightarrow> iv_min u < iv_max u \<Longrightarrow>
     snd (iv_SpanningUnion i u) = Interval (min (iv_min i) (iv_min u)) (max (iv_max i) (iv_max u))"
  by (auto simp: iv_SpanningUnion_def iv_Empty_def iv_SetMin_def iv_SetMax_def min_def max_def not_less Let_def intro: interval.expand)

lemma iv_SpanningUnion_set:
  assumes "iv_min i < iv_max i" "iv_min u < iv_max u" "\<not> iv_Separated u i"
  shows "iv_set (snd (iv_SpanningUnion i u)) = iv_set i \<union> iv_set u"
  using assms(3) by (auto simp: iv_SpanningUnion_eq [OF assms(1,2)] iv_set_def iv_Separated_def iv_Empty_def min_def max_def)

subsection \<open>Adding\<close>

lemma is_ok_ConsI: "iv_min u < iv_max u \<Longrightarrow> iv_max u < iv_min i \<Longrightarrow> is_ok (i # s) \<Longrightarrow> is_ok (u # i # s)"
  unfolding is_ok_Cons [of u] is_ok_Cons [of i] by (simp, meson less_trans)

lemma is_absorb_spec:
  assumes "is_absorb u s = (u', s')" "is_ok s" "iv_min u < iv_max u" "\<forall>i\<in>set s. iv_min u \<le> iv_max i"
  shows "is_ok (u' # s') \<and> iv_set u' \<union> is_set s' = iv_set u \<union> is_set s \<and>
    (\<forall>z. z < iv_min u \<longrightarrow> (\<forall>i\<in>set s. z < iv_min i) \<longrightarrow> z < iv_min u')"
  using assms
proof (induction u s arbitrary: u' s' rule: is_absorb.induct)
  case (1 u)
  then show ?case by (simp add: is_ok_Cons)
next
  case (2 u i s)
  have i: "iv_min i < iv_max i" "is_ok s" "iv_min u \<le> iv_max i" using "2.prems" by (auto simp: is_ok_Cons)
  show ?case
  proof (cases "iv_Separated u i")
    case True
    then have "iv_max u < iv_min i" using i "2.prems"(3) by (auto simp: iv_Separated_def iv_Empty_def)
    then show ?thesis using "2.prems" True is_ok_ConsI [of u i s] by auto
  next
    case False
    define v where "v = snd (iv_SpanningUnion i u)"
    have v: "iv_min v = min (iv_min i) (iv_min u)" "iv_max v = max (iv_max i) (iv_max u)"
      using iv_SpanningUnion_eq [of i u] i(1) "2.prems"(3) by (simp_all add: v_def)
    have "is_ok (u' # s') \<and> iv_set u' \<union> is_set s' = iv_set v \<union> is_set s \<and>
      (\<forall>z. z < iv_min v \<longrightarrow> (\<forall>i\<in>set s. z < iv_min i) \<longrightarrow> z < iv_min u')"
      proof (rule "2.IH" [OF False, folded v_def])
      show "is_absorb v s = (u', s')" using "2.prems"(1) False by (simp add: v_def)
      show "\<forall>i\<in>set s. iv_min v \<le> iv_max i" using "2.prems"(4) by (auto simp: v min_le_iff_disj)
      show "iv_min v < iv_max v" using i(1) by (simp add: v min_less_iff_disj less_max_iff_disj)
    qed (rule i(2))
    moreover have "iv_set v = iv_set i \<union> iv_set u" using iv_SpanningUnion_set [of i u] i(1) "2.prems"(3) False by (simp add: v_def)
    ultimately show ?thesis by (auto simp: v)
  qed
qed

lemma is_Add_ok:
  assumes "is_ok s"
  shows "is_ok (is_Add i s) \<and> is_set (is_Add i s) = is_set s \<union> iv_set i"
proof (cases "iv_Empty i")
  case True
  then show ?thesis using assms by (simp add: is_Add_def iv_set_Empty)
next
  case False
  then have i: "iv_min i < iv_max i" by (simp add: iv_Empty_def)
  obtain b a where ba: "is_lower_bound (iv_min i) s = (b, a)" by (cases "is_lower_bound (iv_min i) s")
  note sp = is_lower_bound_split [OF assms ba]
  define b' a' where "b' = (if b \<noteq> [] \<and> \<not> iv_Separated i (last b) then butlast b else b)"
    and "a' = (if b \<noteq> [] \<and> \<not> iv_Separated i (last b) then last b # a else a)"
  have s: "s = b' @ a'" by (auto simp: b'_def a'_def sp(1))
  obtain u r where u: "is_absorb i a' = (u, r)" by (cases "is_absorb i a'")
  have okab: "is_ok b'" "is_ok a'" "\<forall>x\<in>set b'. \<forall>y\<in>set a'. iv_max x < iv_min y" using assms unfolding s is_ok_append by auto
  have ne: "\<forall>x\<in>set s. iv_min x < iv_max x" using assms by (simp add: is_ok_def)
  have le: "\<forall>x\<in>set a'. iv_min i \<le> iv_max x"
  proof
    fix x assume x: "x \<in> set a'"
    show "iv_min i \<le> iv_max x"
    proof (cases "x \<in> set a")
      case True
      then show ?thesis using sp(1,3) ne by (auto dest: less_imp_le order_trans)
    next
      case False
      with x have "\<not> iv_Separated i x" by (auto simp: a'_def split: if_splits)
      then show ?thesis by (auto simp: iv_Separated_def not_less)
    qed
  qed
  have lb: "\<forall>x\<in>set b'. iv_max x < iv_min i"
  proof
    fix x assume x: "x \<in> set b'"
    show "iv_max x < iv_min i"
    proof (cases "b \<noteq> [] \<and> \<not> iv_Separated i (last b)")
      case True
      then have "last b \<in> set a'" "last b \<in> set b" by (simp_all add: a'_def)
      then show ?thesis using okab(3) x sp(2) by (meson less_trans)
    next
      case False
      with x have b: "b' = b" "b \<noteq> []" by (auto simp: b'_def)
      with False have "iv_Separated i (last b)" "last b \<in> set s" by (auto simp: sp(1))
      then have "iv_max (last b) < iv_min i"
        using i ne sp(2) b(2) by (auto simp: iv_Separated_def iv_Empty_def dest: less_trans) (meson last_in_set less_asym less_trans)
      moreover have "iv_max x \<le> iv_max (last b)"
      proof -
        obtain c where c: "b = c @ [last b]" using b(2) by (metis append_butlast_last_id)
        have "is_ok (c @ [last b])" using okab(1) b(1) c by simp
        then have "x \<in> set c \<Longrightarrow> iv_max x < iv_max (last b)"
          by (auto simp: is_ok_append is_ok_Cons dest: less_trans)
        then show ?thesis using x b(1) c by (metis Un_iff empty_iff less_imp_le list.set(1) order_refl set_ConsD set_append)
      qed
      ultimately show ?thesis by simp
    qed
  qed
  note ab = is_absorb_spec [OF u okab(2) i le]
  have "is_ok (b' @ u # r)"
    using okab(1) ab lb okab(3) by (auto simp: is_ok_append is_ok_Cons) (meson is_ok_nonempty less_trans)+
  moreover from this have "is_Add i s = b' @ u # r"
    using False ba u is_insert_between [of b' u r] by (auto simp: is_Add_def b'_def a'_def split: if_splits)
  ultimately show ?thesis using ab by (auto simp: s)
qed


lemma is_AddOptimizedForAppend_ok:
  assumes "is_ok s"
  shows "is_ok (is_AddOptimizedForAppend i s) \<and> is_set (is_AddOptimizedForAppend i s) = is_set s \<union> iv_set i"
proof (cases "s = [] \<or> iv_min i < iv_min (last s) \<or> iv_min i > iv_max (last s)")
  case True
  then show ?thesis using is_Add_ok [OF assms] by (auto simp: is_AddOptimizedForAppend_def)
next
  case False
  then obtain b l where s: "s = b @ [l]" by (metis append_butlast_last_id)
  have l: "iv_min l \<le> iv_min i" "iv_min i \<le> iv_max l" using False by (auto simp: s not_less)
  have ok: "is_ok b" "iv_min l < iv_max l" "\<forall>x\<in>set b. iv_max x < iv_min l" using assms by (auto simp: s is_ok_append is_ok_Cons)
  show ?thesis
  proof (cases "iv_max i \<le> iv_max l")
    case True
    then have "iv_set i \<subseteq> iv_set l" using l by (auto simp: iv_set_def)
    then show ?thesis using True False assms by (auto simp: is_AddOptimizedForAppend_def s)
  next
    case gt: False
    then have "iv_set (iv_SetMax (iv_max i) l) = iv_set l \<union> iv_set i" using l ok(2) by (auto simp: iv_set_def iv_SetMax_def)
    moreover have "is_ok (b @ [iv_SetMax (iv_max i) l])"
      using ok gt by (auto simp: is_ok_append is_ok_Cons iv_SetMax_def)
    ultimately show ?thesis using gt False by (auto simp: is_AddOptimizedForAppend_def s)
  qed
qed

lemma is_Union_ok: "is_ok s \<Longrightarrow> is_ok (is_Union s' s) \<and> is_set (is_Union s' s) = is_set s \<union> is_set s'"
proof (induction s' arbitrary: s)
  case (Cons i s')
  show ?case using Cons.IH [of "is_Add i s"] is_Add_ok [OF Cons.prems, of i] by (auto simp: is_Union_def)
qed (simp add: is_Union_def)

subsection \<open>Removing\<close>

text \<open>The values of a set at or above all its lower ends.\<close>

lemma is_set_above: "is_ok (i # s) \<Longrightarrow> x \<in> is_set s \<Longrightarrow> iv_max i < x"
  by (auto simp: is_ok_Cons is_set_def iv_set_def)

lemma is_set_below: "is_ok (b @ a) \<Longrightarrow> x \<in> is_set b \<Longrightarrow> j \<in> set a \<Longrightarrow> x < iv_min j"
  by (fastforce simp: is_ok_append is_set_def iv_set_def)

lemma is_TrimLessThan_ok:
  assumes "is_ok s" "is_TrimLessThan v s = (removed, s')"
  shows "is_ok s' \<and> is_set s' = is_set s \<inter> {v..} \<and> removed = (\<exists>x\<in>is_set s. x < v) \<and>
    (\<forall>i\<in>set s'. \<exists>j\<in>set s. iv_min j \<le> iv_min i)"
  using assms
proof (induction s arbitrary: removed s')
  case (Cons i s)
  have i: "iv_min i < iv_max i" "is_ok s" "\<forall>j\<in>set s. iv_max i < iv_min j" using Cons.prems by (auto simp: is_ok_Cons)
  have a: "x \<in> is_set s \<Longrightarrow> iv_max i < x" for x using is_set_above [OF Cons.prems(1)] .
  have m: "iv_min i \<in> iv_set i" using i(1) by (simp add: iv_set_def)
  consider "v \<le> iv_min i" | "iv_min i < v" "iv_max i \<le> v" | "iv_min i < v" "v < iv_max i" by (meson not_less)
  then show ?case
  proof cases
    case 1
    then have "x \<in> is_set (i # s) \<Longrightarrow> v \<le> x" for x using a [of x] i(1) by (auto simp: iv_set_def)
    then show ?thesis using 1 Cons.prems by (auto simp: not_less [symmetric])
  next
    case 2
    obtain r t where t: "is_TrimLessThan v s = (r, t)" by (cases "is_TrimLessThan v s")
    have "iv_set i \<inter> {v..} = {}" using 2 by (auto simp: iv_set_def)
    then show ?thesis using Cons.IH [OF i(2) t] 2 Cons.prems t m by (auto simp: not_le [symmetric])
  next
    case 3
    have "is_ok (iv_SetMin v i # s)" using 3 i by (simp add: is_ok_Cons iv_SetMin_def)
    moreover have "is_set s \<inter> {v..} = is_set s" using a 3 by (force dest: less_trans)
    moreover have "iv_set i \<inter> {v..} = iv_set (iv_SetMin v i)" using 3 by (auto simp: iv_set_def iv_SetMin_def)
    moreover have "s' = iv_SetMin v i # s" "removed" using 3 Cons.prems by (auto simp: not_le [symmetric])
    moreover have "is_set (i # s) \<inter> {v..} = (iv_set i \<inter> {v..}) \<union> (is_set s \<inter> {v..})" by auto
    ultimately show ?thesis using 3 m by (auto simp: iv_SetMin_def dest: less_imp_le)
  qed
qed simp

lemma is_PopFront_ok: "is_ok (i # s) \<Longrightarrow> is_ok s \<and> is_set s = is_set (i # s) - iv_set i"
  using is_set_above [of i s] by (fastforce simp: is_ok_Cons iv_set_def)

subsection \<open>Asking\<close>

lemma is_Contains_value_ok:
  assumes "is_ok s"
  shows "is_Contains_value v s \<longleftrightarrow> v \<in> is_set s"
proof -
  obtain b a where ba: "is_upper_bound v s = (b, a)" by (cases "is_upper_bound v s")
  note sp = is_upper_bound_split [OF assms ba]
  have "v \<notin> is_set a" using sp(3) by (auto simp: is_set_def iv_set_def)
  moreover have "v \<in> is_set b \<longleftrightarrow> b \<noteq> [] \<and> v < iv_max (last b)"
  proof (cases b rule: rev_cases)
    case (snoc c l)
    have "is_ok b" using sp(4) by (simp add: is_ok_append)
    then have "is_ok (c @ [l])" by (simp add: snoc)
    then have "x \<in> is_set c \<Longrightarrow> x < iv_min l" for x using is_set_below by fastforce
    then show ?thesis using sp(2) by (fastforce simp: snoc iv_set_def)
  qed simp
  moreover have "b \<noteq> [] \<Longrightarrow> iv_min (last b) \<le> v" using sp(2) by simp
  ultimately show ?thesis using ba sp(1) by (auto simp: is_Contains_value_def iv_Contains_value_def)
qed

text \<open>An interval that lies in the set lies in one of its intervals, as these do not touch.\<close>

lemma iv_set_subset: "iv_set i \<subseteq> iv_set j \<Longrightarrow> iv_min i < iv_max i \<Longrightarrow> iv_min j \<le> iv_min i \<and> iv_min i < iv_max j"
  by (auto simp: iv_set_def subset_iff)

lemma is_set_one_interval:
  assumes "is_ok s" "iv_min i < iv_max i" "iv_set i \<subseteq> is_set s" "j \<in> set s" "iv_min i \<in> iv_set j"
  shows "iv_max i \<le> iv_max j"
proof (rule ccontr)
  assume "\<not> ?thesis"
  then have "iv_max j \<in> iv_set i" using assms(5) by (auto simp: iv_set_def)
  then obtain k where k: "k \<in> set s" "iv_max j \<in> iv_set k" using assms(3) by (auto simp: is_set_def)
  obtain b a where s: "s = b @ j # a" using assms(4) by (meson split_list)
  have "k \<in> set b \<Longrightarrow> iv_max k < iv_min j" "k \<in> set a \<Longrightarrow> iv_max j < iv_min k" "iv_min j < iv_max j"
    using assms(1) by (auto simp: s is_ok_append is_ok_Cons)
  then show False using k by (auto simp: s iv_set_def)
qed

lemma is_Contains_interval_ok:
  assumes "is_ok s"
  shows "is_Contains_interval i s \<longleftrightarrow> iv_min i < iv_max i \<and> iv_set i \<subseteq> is_set s"
proof -
  obtain b a where ba: "is_upper_bound (iv_min i) s = (b, a)" by (cases "is_upper_bound (iv_min i) s")
  note sp = is_upper_bound_split [OF assms ba]
  show ?thesis
  proof
    assume "is_Contains_interval i s"
    then have c: "b \<noteq> []" "iv_Contains i (last b)" using ba by (auto simp: is_Contains_interval_def)
    then have "iv_set i \<subseteq> iv_set (last b)" "iv_min i < iv_max i"
      by (auto simp: iv_Contains_def iv_set_def iv_Empty_def not_le)
    moreover have "last b \<in> set s" using c(1) sp(1) by simp
    ultimately show "iv_min i < iv_max i \<and> iv_set i \<subseteq> is_set s" by (auto simp: is_set_def)
  next
    assume i: "iv_min i < iv_max i \<and> iv_set i \<subseteq> is_set s"
    then have "iv_min i \<in> is_set s" by (auto simp: iv_set_def)
    then have "is_Contains_value (iv_min i) s" using is_Contains_value_ok [OF assms] by simp
    then have c: "b \<noteq> []" "iv_min i \<in> iv_set (last b)" using ba by (auto simp: is_Contains_value_def iv_Contains_value_def iv_set_def)
    then have "iv_max i \<le> iv_max (last b)" using is_set_one_interval [OF assms, of i "last b"] i sp(1) by simp
    then have "iv_Contains i (last b)" using c i by (auto simp: iv_Contains_def iv_set_def iv_Empty_def)
    then show "is_Contains_interval i s" using c(1) ba by (simp add: is_Contains_interval_def)
  qed
qed

lemma is_span_ok:
  assumes "is_ok s" "s \<noteq> []"
  shows "is_set s \<subseteq> iv_set (is_SpanningInterval s)" "iv_min (is_SpanningInterval s) \<in> is_set s"
    "x < iv_max (is_SpanningInterval s) \<Longrightarrow> \<exists>y\<in>is_set s. x \<le> y"
    "iv_min (is_SpanningInterval s) < iv_max (is_SpanningInterval s)"
proof -
  obtain f t where s: "s = f # t" using assms(2) by (cases s) auto
  obtain b l where sb: "s = b @ [l]" using assms(2) by (metis append_butlast_last_id)
  have l: "iv_min l < iv_max l" using assms(1) by (simp add: sb is_ok_append is_ok_Cons)
  have e: "is_SpanningInterval s = Interval (iv_min f) (iv_max l)" 
  proof -
    have "hd s = f" "last s = l" "s \<noteq> []" by (simp add: s, simp add: sb, rule assms(2))
    then show ?thesis by (simp add: is_SpanningInterval_def)
  qed
  have lo: "x \<in> is_set s \<Longrightarrow> iv_min f \<le> x" for x
    using is_set_above [of f t x] assms(1) is_ok_nonempty [OF assms(1), of f] by (auto simp: s iv_set_def dest: less_trans)
  have hi: "x \<in> is_set s \<Longrightarrow> x < iv_max l" for x
    using is_set_below [of b "[l]" x l] assms(1) l by (auto simp: sb iv_set_def dest: less_trans)
  show "is_set s \<subseteq> iv_set (is_SpanningInterval s)" using lo hi by (auto simp: e iv_set_def)
  have "iv_min f \<in> is_set s" using is_ok_nonempty [OF assms(1), of f] by (auto simp: s iv_set_def)
  then show f: "iv_min (is_SpanningInterval s) \<in> is_set s" by (simp add: e)
  show "iv_min (is_SpanningInterval s) < iv_max (is_SpanningInterval s)" using hi [OF f] by (simp add: e)
  show "\<exists>y\<in>is_set s. x \<le> y" if "x < iv_max (is_SpanningInterval s)"
  proof
    show "max x (iv_min l) \<in> is_set s" using that l unfolding e by (simp add: sb iv_set_def)
  qed simp
qed

lemma is_Contains_ok:
  assumes "is_ok s" "is_ok s'" "s' \<noteq> []"
  shows "is_Contains s' s \<longleftrightarrow> is_set s' \<subseteq> is_set s"
proof -
  have l: "list_all (\<lambda>i. is_Contains_interval i s) s' \<longleftrightarrow> is_set s' \<subseteq> is_set s"
    using is_ok_nonempty [OF assms(2)] by (auto simp: list_all_iff is_Contains_interval_ok [OF assms(1)] is_set_def)
  have "iv_Contains (is_SpanningInterval s') (is_SpanningInterval s)" if sub: "is_set s' \<subseteq> is_set s"
  proof -
    have ne: "s \<noteq> []" using sub is_span_ok(2) [OF assms(2,3)] by auto
    have a: "iv_min (is_SpanningInterval s) \<le> iv_min (is_SpanningInterval s')"
      using is_span_ok(1) [OF assms(1) ne] is_span_ok(2) [OF assms(2,3)] sub by (fastforce simp: iv_set_def)
    have b: "iv_max (is_SpanningInterval s') \<le> iv_max (is_SpanningInterval s)"
    proof (rule ccontr)
      assume "\<not> ?thesis"
      then obtain y where "y \<in> is_set s'" "iv_max (is_SpanningInterval s) \<le> y"
        using is_span_ok(3) [OF assms(2,3), of "iv_max (is_SpanningInterval s)"] by (auto simp: not_le)
      then show False using is_span_ok(1) [OF assms(1) ne] sub by (fastforce simp: iv_set_def)
    qed
    show ?thesis using a b is_span_ok(4) [OF assms(1) ne] is_span_ok(4) [OF assms(2,3)]
      by (simp add: iv_Contains_def iv_Empty_def not_le)
  qed
  then show ?thesis using l by (auto simp: is_Contains_def)
qed

lemma is_Find_value_ok: "is_ok s \<Longrightarrow> is_Find_value v s = find (\<lambda>i. v \<in> iv_set i) s"
proof -
  assume ok: "is_ok s"
  obtain b a where ba: "is_upper_bound v s = (b, a)" by (cases "is_upper_bound v s")
  note sp = is_upper_bound_split [OF ok ba]
  show ?thesis
  proof (cases "v \<in> is_set s")
    case True
    then have c: "b \<noteq> []" "v \<in> iv_set (last b)"
      using is_Contains_value_ok [OF ok, of v] ba by (auto simp: is_Contains_value_def iv_Contains_value_def iv_set_def)
    then have e: "is_Find_value v s = Some (last b)" using ba by (auto simp: is_Find_value_def iv_Contains_value_def iv_set_def)
    obtain x where x: "find (\<lambda>i. v \<in> iv_set i) s = Some x" "x \<in> set s" "v \<in> iv_set x"
      using True by (cases "find (\<lambda>i. v \<in> iv_set i) s") (auto simp: find_None_iff find_Some_iff is_set_def)
    have "x = last b"
    proof (rule ccontr)
      assume ne: "x \<noteq> last b"
      have s: "s = butlast b @ last b # a" using sp(1) c(1) by simp
      then have "x \<in> set (butlast b) \<or> x \<in> set a" using x(2) ne by (metis Un_iff set_ConsD set_append)
      moreover have "x \<in> set (butlast b) \<Longrightarrow> iv_max x < iv_min (last b)" "x \<in> set a \<Longrightarrow> iv_max (last b) < iv_min x"
        using ok by (auto simp: s is_ok_append is_ok_Cons)
      ultimately show False using x(3) c(2) by (auto simp: iv_set_def)
    qed
    then show ?thesis using e x(1) by simp
  next
    case False
    then have "find (\<lambda>i. v \<in> iv_set i) s = None" by (auto simp: find_None_iff is_set_def)
    moreover have "is_Find_value v s = None"
      using False is_Contains_value_ok [OF ok, of v] ba by (auto simp: is_Contains_value_def is_Find_value_def)
    ultimately show ?thesis by simp
  qed
qed

lemma is_IsDisjoint_ok:
  fixes s :: "'a::{linorder,zero} interval_set"
  assumes "is_ok s"
  shows "is_IsDisjoint i s \<longleftrightarrow> iv_set i \<inter> is_set s = {}"
proof (cases "iv_Empty i")
  case True
  then show ?thesis by (simp add: is_IsDisjoint_def iv_set_Empty)
next
  case False
  then have i: "iv_min i < iv_max i" by (simp add: iv_Empty_def)
  obtain b a where ba: "is_upper_bound (iv_min i) s = (b, a)" by (cases "is_upper_bound (iv_min i) s")
  note sp = is_upper_bound_split [OF assms ba]
  have A: "iv_set i \<inter> is_set a = {} \<longleftrightarrow> \<not> (a \<noteq> [] \<and> iv_max i > iv_min (hd a))"
  proof (cases "a = []")
    case ne: False
    have ok: "is_ok a" "iv_min i < iv_min (hd a)" using sp(3,4) ne by (simp_all add: is_ok_append)
    have "v \<in> is_set a \<Longrightarrow> iv_min (hd a) \<le> v" for v
      using is_span_ok(1) [OF ok(1) ne] ne by (auto simp: is_SpanningInterval_def iv_set_def)
    moreover have "iv_min (hd a) \<in> is_set a" using is_span_ok(2) [OF ok(1) ne] ne by (simp add: is_SpanningInterval_def)
    ultimately show ?thesis using ok(2) ne unfolding iv_set_def disjoint_iff atLeastLessThan_iff
      by (meson less_imp_le not_le order.strict_trans2)
  qed simp
  have B: "iv_set i \<inter> is_set b = {} \<longleftrightarrow> b = [] \<or> iv_max (last b) \<le> iv_min i"
  proof (cases "b = []")
    case ne: False
    have ok: "is_ok b" "iv_min (last b) \<le> iv_min i" using sp(2,4) ne by (simp_all add: is_ok_append)
    have "v \<in> is_set b \<Longrightarrow> v < iv_max (last b)" for v
      using is_span_ok(1) [OF ok(1) ne] ne by (auto simp: is_SpanningInterval_def iv_set_def)
    moreover have "iv_min i \<in> is_set b" if "iv_min i < iv_max (last b)"
      using that ok(2) ne by (force simp: is_set_def iv_set_def)
    ultimately show ?thesis using i ne unfolding iv_set_def disjoint_iff atLeastLessThan_iff
      by (meson not_le order.strict_trans2 order_refl)
  qed simp
  show ?thesis using A B ba False by (auto simp: is_IsDisjoint_def sp(1))
qed


lemma iv_Intersects_set: "iv_Intersects t m \<longleftrightarrow> iv_set m \<inter> iv_set t \<noteq> {}"
proof
  assume "iv_Intersects t m"
  then have "max (iv_min m) (iv_min t) \<in> iv_set m \<inter> iv_set t"
    by (auto simp: iv_Intersects_def iv_Empty_def iv_set_def)
  then show "iv_set m \<inter> iv_set t \<noteq> {}" by blast
next
  assume "iv_set m \<inter> iv_set t \<noteq> {}"
  then show "iv_Intersects t m" by (fastforce simp: iv_Intersects_def iv_Empty_def iv_set_def)
qed

lemma iv_disjoint_cases:
  assumes "\<not> iv_Intersects t m" "iv_min m < iv_max m" "iv_min t < iv_max t"
  obtains "iv_max m \<le> iv_min t" | "iv_max t \<le> iv_min m"
  using assms by (auto simp: iv_Intersects_def iv_Empty_def not_less not_le)

lemma iv_before_set: "is_ok (t # theirs) \<Longrightarrow> iv_max m \<le> iv_min t \<Longrightarrow> iv_set m \<inter> is_set (t # theirs) = {}"
  using is_set_above [of t theirs] is_ok_nonempty [of "t # theirs" t] by (fastforce simp: iv_set_def)

lemma is_Intersects_ok: "is_ok mine \<Longrightarrow> is_ok theirs \<Longrightarrow> is_Intersects mine theirs \<longleftrightarrow> is_set mine \<inter> is_set theirs \<noteq> {}"
proof (induction mine theirs rule: is_Intersects.induct)
  case (1 m mine t theirs)
  have ok: "is_ok mine" "is_ok theirs" "iv_min m < iv_max m" "iv_min t < iv_max t" using "1.prems" by (auto simp: is_ok_Cons)
  show ?case
  proof (cases "iv_Intersects t m")
    case True
    then show ?thesis by (auto simp: iv_Intersects_set)
  next
    case False
    from False ok(3,4) show ?thesis
    proof (rule iv_disjoint_cases)
      assume l: "iv_max m \<le> iv_min t"
      then have "iv_less m t" using ok(3) by (auto simp: iv_less_def)
      then show ?thesis using False "1.IH"(1) [OF False] ok(1) "1.prems"(2) iv_before_set [OF "1.prems"(2) l] by (auto simp: Int_Un_distrib2)
    next
      assume l: "iv_max t \<le> iv_min m"
      then have "\<not> iv_less m t" using ok(4) by (auto simp: iv_less_def)
      then show ?thesis using False "1.IH"(2) [OF False] ok(2) "1.prems"(1) iv_before_set [OF "1.prems"(1) l]
        by (auto simp: Int_Un_distrib Int_Un_distrib2 Int_commute)
    qed
  qed
qed simp_all

subsection \<open>Difference\<close>

text \<open>One round of the loop; the intervals found lie below what is left of the current one and below \<open>rest\<close>.\<close>

lemma is_diff_step_ok:
  assumes "is_diff_step my theirs result = (my', theirs', result')" "is_ok (result @ my # rest)" "is_ok theirs"
  shows "is_ok theirs' \<and> is_ok (result' @ rest) \<and> (\<not> iv_Empty my' \<longrightarrow> is_ok (result' @ my' # rest)) \<and>
    is_set result' \<union> ((iv_set my' \<union> is_set rest) - is_set theirs') = is_set result \<union> ((iv_set my \<union> is_set rest) - is_set theirs)"
proof -
  have okr: "is_ok result" "is_ok (my # rest)" "is_ok rest" "iv_min my < iv_max my" "is_ok (result @ rest)"
    using assms(2) by (auto simp: is_ok_append is_ok_Cons)
  have ins: "is_insert (Interval (iv_min my) m) result = result @ [Interval (iv_min my) m]" if "iv_min my < m" for m
    using that assms(2) by (intro is_insert_end) (auto simp: is_ok_append is_ok_Cons)
  have my: "Interval (iv_min my) (iv_max my) = my" by (cases my) simp
  show ?thesis
  proof (cases "theirs = [] \<or> iv_max my \<le> iv_min (hd theirs)")
    case True
    have "iv_set my \<inter> is_set theirs = {}"
    proof (cases theirs)
      case (Cons t ts)
      then show ?thesis using True iv_before_set [of t ts my] assms(3) by simp
    qed simp
    moreover have "my' = iv_Clear" "theirs' = theirs" "result' = result @ [my]"
      using assms(1) True ins [OF okr(4)] my by (auto simp: is_diff_step_def)
    ultimately show ?thesis using assms(2,3) by (auto simp: iv_Clear_def iv_Empty_def iv_set_def)
  next
    case False
    then obtain t ts where t: "theirs = t # ts" "iv_min t < iv_max my" by (cases theirs) (auto simp: not_le)
    have okt: "is_ok ts" "iv_min t < iv_max t" using assms(3) by (auto simp: t is_ok_Cons)
    consider (past) "iv_max t \<le> iv_min my" | (cut) "iv_min my < iv_max t" "iv_min my < iv_min t"
      | (front) "iv_min my < iv_max t" "iv_min t \<le> iv_min my" by (meson not_le)
    then show ?thesis
    proof cases
      case past
      then have "iv_set t \<inter> is_set (my # rest) = {}" using iv_before_set [OF okr(2)] by blast
      moreover have "my' = my" "theirs' = ts" "result' = result"
        using assms(1) past False by (auto simp: is_diff_step_def t)
      ultimately show ?thesis using assms(2) okt(1) okr(5) by (auto simp: t)
    next
      case cut
      define lo where "lo = Interval (iv_min my) (iv_min t)"
      have e: "my' = iv_SetMin (iv_max t) my" "theirs' = theirs" "result' = result @ [lo]"
        using assms(1) cut False ins [OF cut(2)] by (auto simp: is_diff_step_def t lo_def not_le [symmetric])
      have "is_ok (result @ lo # rest)" using assms(2) cut t(2) by (auto simp: lo_def is_ok_append is_ok_Cons)
      moreover have "is_ok (result @ lo # my' # rest)" if "\<not> iv_Empty my'"
        using that assms(2) cut t(2) okt(2) by (auto simp: e lo_def iv_SetMin_def iv_Empty_def is_ok_append is_ok_Cons)
      moreover have "iv_set lo \<inter> is_set theirs = {}" using iv_before_set [of t ts lo] assms(3) by (simp add: t lo_def)
      moreover have "iv_set my = iv_set lo \<union> (iv_set my \<inter> iv_set t) \<union> iv_set my'"
        using cut t(2) okt(2) by (auto simp: e lo_def iv_set_def iv_SetMin_def)
      ultimately show ?thesis using assms(3) by (auto simp: e t)
    next
      case front
      have e: "my' = iv_SetMin (iv_max t) my" "theirs' = theirs" "result' = result"
        using assms(1) front False by (auto simp: is_diff_step_def t not_le [symmetric])
      have "is_ok (result @ my' # rest)" if "\<not> iv_Empty my'"
        using that assms(2) front by (auto simp: e iv_SetMin_def iv_Empty_def is_ok_append is_ok_Cons)
      moreover have "iv_set my = (iv_set my \<inter> iv_set t) \<union> iv_set my'"
        using front by (auto simp: e iv_set_def iv_SetMin_def)
      ultimately show ?thesis using assms(3) okr(5) by (auto simp: e t)
    qed
  qed
qed

lemma is_diff_loop_ok:
  assumes "is_ok theirs" "mine = [] \<Longrightarrow> is_ok result" "mine \<noteq> [] \<Longrightarrow> is_ok (result @ my # tl mine)"
  shows "is_ok (is_diff_loop my mine theirs result) \<and>
    is_set (is_diff_loop my mine theirs result) =
      is_set result \<union> ((if mine = [] then {} else iv_set my \<union> is_set (tl mine)) - is_set theirs)"
  using assms
proof (induction my mine theirs result rule: is_diff_loop.induct)
  case (1 my mine theirs result)
  show ?case
  proof (cases "mine = []")
    case True
    then show ?thesis using "1.prems"(2) by simp
  next
    case False
    obtain my' theirs' result' where st: "is_diff_step my theirs result = (my', theirs', result')" by (metis prod_cases3)
    note step = is_diff_step_ok [OF st "1.prems"(3) [OF False] "1.prems"(1)]
    show ?thesis
    proof (cases "iv_Empty my'")
      case True
      have "is_diff_loop my mine theirs result = is_diff_loop (if tl mine \<noteq> [] then hd (tl mine) else my') (tl mine) theirs' result'"
        using False True st by (subst is_diff_loop.simps) simp
      moreover have "tl mine \<noteq> [] \<Longrightarrow> is_ok (result' @ hd (tl mine) # tl (tl mine))" "is_ok result'" using step by (simp_all add: is_ok_append)
      ultimately show ?thesis
        using "1.IH"(1) [OF False st [symmetric] refl refl True] step True False
        by (cases "tl mine") (simp_all add: iv_set_Empty)
    next
      case ne: False
      have "is_diff_loop my mine theirs result = is_diff_loop my' mine theirs' result'"
        using False ne st by (subst is_diff_loop.simps) simp
      then show ?thesis using "1.IH"(2) [OF False st [symmetric] refl refl ne] step False ne by simp
    qed
  qed
qed

lemma is_Difference_ok:
  assumes "is_ok s" "is_ok s'"
  shows "is_ok (is_Difference s' s) \<and> is_set (is_Difference s' s) = is_set s - is_set s'"
proof (cases s)
  case (Cons i t)
  then show ?thesis using is_diff_loop_ok [of s' s "[]" i] assms by (simp add: is_Difference_def)
qed (simp add: is_Difference_def)

lemma is_singleton: "is_ok (is_Add i []) \<and> is_set (is_Add i []) = iv_set i"
  using is_Add_ok [of "[]" i] by simp

lemma is_Difference_interval_ok:
  assumes "is_ok s"
  shows "is_ok (is_Difference_interval i s) \<and> is_set (is_Difference_interval i s) = is_set s - iv_set i"
proof (cases "iv_Intersects i (is_SpanningInterval s)")
  case True
  then show ?thesis using is_Difference_ok [OF assms, of "is_Add i []"] is_singleton [of i] by (simp add: is_Difference_interval_def)
next
  case False
  then have "iv_set (is_SpanningInterval s) \<inter> iv_set i = {}" by (simp add: iv_Intersects_set)
  then have "is_set s \<inter> iv_set i = {}" using is_span_ok(1) [OF assms] by (cases "s = []") auto
  then show ?thesis using False assms by (auto simp: is_Difference_interval_def)
qed

lemma is_Complement_ok: "is_ok s \<Longrightarrow> is_ok (is_Complement mn mx s) \<and> is_set (is_Complement mn mx s) = {mn..<mx} - is_set s"
  using is_Difference_ok [of "is_Add (Interval mn mx) []" s] is_singleton [of "Interval mn mx"]
  by (simp add: is_Complement_def iv_set_def)


subsection \<open>Intersection\<close>

lemma is_ok_suffix: "is_ok (a @ b) \<Longrightarrow> is_ok b"
  by (simp add: is_ok_append)

lemma is_ok_dropWhile: "is_ok s \<Longrightarrow> is_ok (dropWhile P s)"
  using is_ok_suffix [of "takeWhile P s" "dropWhile P s"] by simp

lemma is_set_dropWhile: "is_set (takeWhile P s) \<union> is_set (dropWhile P s) = is_set s"
  using is_set_simps(3) [of "takeWhile P s" "dropWhile P s"] by simp

text \<open>Intervals that end before theirs begin have no value in common with them.\<close>

lemma is_drop_before:
  assumes "is_ok theirs" "theirs \<noteq> []"
  shows "is_set (dropWhile (\<lambda>i. iv_max i \<le> iv_min (hd theirs)) mine) \<inter> is_set theirs = is_set mine \<inter> is_set theirs"
proof -
  obtain t ts where t: "theirs = t # ts" using assms(2) by (cases theirs) auto
  have "is_set (takeWhile (\<lambda>i. iv_max i \<le> iv_min t) mine) \<inter> is_set theirs = {}"
    using iv_before_set [of t ts] assms(1) by (fastforce simp: is_set_def [of "takeWhile _ _"] t dest: set_takeWhileD)
  then show ?thesis using is_set_dropWhile [of "\<lambda>i. iv_max i \<le> iv_min t" mine] by (auto simp: t)
qed

lemma dropWhile_hd_shorter: "P (hd s) \<Longrightarrow> s \<noteq> [] \<Longrightarrow> length (dropWhile P s) < length s"
  by (cases s) (auto simp: le_imp_less_Suc length_dropWhile_le)

text \<open>The search for the next pair returns, and it loses no common value.\<close>

lemma is_next_pair_ok:
  assumes "is_ok mine" "is_ok theirs" "theirs \<noteq> []"
  shows "\<exists>found mine' theirs'. is_next_pair mine theirs = Some (found, mine', theirs') \<and>
    suffix mine' mine \<and> is_ok mine' \<and> is_ok theirs' \<and> is_set mine' \<inter> is_set theirs' = is_set mine \<inter> is_set theirs \<and>
    (if found then mine' \<noteq> [] \<and> theirs' \<noteq> [] \<and> iv_Intersects (hd theirs') (hd mine') else mine' = [])"
  using assms
proof (induction "length mine + length theirs" arbitrary: mine theirs rule: less_induct)
  case less
  show ?case
  proof (cases "mine = []")
    case True
    then show ?thesis using less.prems by (subst is_next_pair.simps) auto
  next
    case m: False
    show ?thesis
    proof (cases "iv_Intersects (hd theirs) (hd mine)")
      case True
      then show ?thesis using less.prems m by (subst is_next_pair.simps) auto
    next
      case False
      define mine1 where "mine1 = dropWhile (\<lambda>i. iv_max i \<le> iv_min (hd theirs)) mine"
      have m1: "is_ok mine1" "suffix mine1 mine" "is_set mine1 \<inter> is_set theirs = is_set mine \<inter> is_set theirs"
        using is_ok_dropWhile [OF less.prems(1)] is_drop_before [OF less.prems(2,3)] by (simp_all add: mine1_def suffix_dropWhile)
      show ?thesis
      proof (cases "mine1 = []")
        case True
        then have "is_next_pair mine theirs = Some (False, [], theirs)"
          using m False less.prems(3) by (subst is_next_pair.simps) (simp add: mine1_def)
        then show ?thesis using m1(3) True less.prems(2) by auto
      next
        case n1: False
        define theirs1 where "theirs1 = dropWhile (\<lambda>i. iv_max i \<le> iv_min (hd mine1)) theirs"
        have t1: "is_ok theirs1" "is_set mine1 \<inter> is_set theirs1 = is_set mine1 \<inter> is_set theirs"
          using is_ok_dropWhile [OF less.prems(2)] is_drop_before [OF m1(1) n1, of theirs] by (auto simp: theirs1_def)
        show ?thesis
        proof (cases "theirs1 = []")
          case True
          then have "is_next_pair mine theirs = Some (False, [], [])"
            using m n1 False less.prems(3) by (subst is_next_pair.simps) (simp add: mine1_def theirs1_def Let_def)
          then show ?thesis using m1(3) t1(2) True by auto
        next
          case n2: False
          have e: "is_next_pair mine theirs = is_next_pair mine1 theirs1"
            using m n1 n2 False less.prems(3)
            by (subst is_next_pair.simps) (simp add: mine1_def [symmetric] theirs1_def [symmetric] Let_def)
          have "length mine1 + length theirs1 < length mine + length theirs"
          proof -
            have le: "length mine1 \<le> length mine" "length theirs1 \<le> length theirs"
              by (simp_all add: mine1_def theirs1_def length_dropWhile_le)
            have ne: "iv_min (hd mine) < iv_max (hd mine)" "iv_min (hd theirs) < iv_max (hd theirs)"
              using less.prems m by (simp_all add: is_ok_nonempty)
            from False ne show ?thesis
            proof (rule iv_disjoint_cases)
              assume "iv_max (hd mine) \<le> iv_min (hd theirs)"
              then have "length mine1 < length mine" unfolding mine1_def using m by (intro dropWhile_hd_shorter) simp_all
              then show ?thesis using le by simp
            next
              assume a: "iv_max (hd theirs) \<le> iv_min (hd mine)"
              have "iv_min (hd theirs) < iv_max (hd mine)" using a ne by (meson less_le_trans less_trans)
              then have "mine1 = mine" using m by (cases mine) (simp_all add: mine1_def not_le)
              then have "length theirs1 < length theirs"
                unfolding theirs1_def using less.prems(3) a by (intro dropWhile_hd_shorter) simp_all
              then show ?thesis using le by simp
            qed
          qed
          from less.hyps [OF this m1(1) t1(1) n2] obtain found mine' theirs' where
            "is_next_pair mine theirs = Some (found, mine', theirs')" "suffix mine' mine1" "is_ok mine'" "is_ok theirs'"
            "is_set mine' \<inter> is_set theirs' = is_set mine \<inter> is_set theirs"
            "if found then mine' \<noteq> [] \<and> theirs' \<noteq> [] \<and> iv_Intersects (hd theirs') (hd mine') else mine' = []"
            unfolding e t1(2) m1(3) by blast
          moreover from this(2) have "suffix mine' mine" using m1(2) by (rule suffix_order.trans)
          ultimately show ?thesis by blast
        qed
      qed
    qed
  qed
qed

lemma iv_Intersection_set: "iv_set (iv_Intersection t m) = iv_set m \<inter> iv_set t"
  by (auto simp: iv_set_def iv_Intersection_def)

text \<open>The intervals that meet \<open>m\<close> are a prefix of theirs once the first one does.\<close>

lemma is_cut:
  assumes "is_ok (m # mine)" "is_ok theirs" "theirs \<noteq> []" "iv_Intersects (hd theirs) m"
  defines "hits \<equiv> takeWhile (\<lambda>t. iv_Intersects t m) theirs"
  shows "is_set (map (\<lambda>t. iv_Intersection t m) hits) = iv_set m \<inter> is_set theirs"
    "is_ok (map (\<lambda>t. iv_Intersection t m) hits)"
    "\<forall>i\<in>set (map (\<lambda>t. iv_Intersection t m) hits). iv_min m \<le> iv_min i \<and> iv_max i \<le> iv_max m"
    "is_set mine \<inter> is_set (drop (length hits - 1) theirs) = is_set mine \<inter> is_set theirs"
    "drop (length hits - 1) theirs \<noteq> []"
proof -
  define rest where "rest = dropWhile (\<lambda>t. iv_Intersects t m) theirs"
  have s: "theirs = hits @ rest" by (simp add: hits_def rest_def)
  have c: "hits \<noteq> []" using assms(3,4) by (cases theirs) (simp_all add: hits_def)
  have okc: "is_ok hits" "is_ok rest" "\<forall>i\<in>set hits. \<forall>j\<in>set rest. iv_max i < iv_min j" using assms(2) by (simp_all add: s is_ok_append)
  have meets: "\<forall>t\<in>set hits. iv_Intersects t m" by (auto simp: hits_def dest: set_takeWhileD)
  have m: "iv_min m < iv_max m" "\<forall>j\<in>set mine. iv_max m < iv_min j" using assms(1) by (simp_all add: is_ok_Cons)
  have r: "iv_max m \<le> iv_min t" if tr: "t \<in> set rest" for t
  proof -
    obtain f r where f: "rest = f # r" using tr by (cases rest) auto
    have nf: "\<not> iv_Intersects f m" using f by (metis rest_def dropWhile_eq_Cons_conv)
    have "iv_max (last hits) < iv_min f" "iv_Intersects (last hits) m" "iv_min f < iv_max f" using okc c meets by (auto simp: f is_ok_Cons)
    then have "iv_min m < iv_max f" unfolding iv_Intersects_def by (meson less_trans)
    then have "iv_max m \<le> iv_min f" using nf m(1) \<open>iv_min f < iv_max f\<close> by (auto simp: iv_Intersects_def iv_Empty_def)
    moreover have "iv_min f \<le> iv_min t" using tr okc(2) is_ok_min_mono [of "[f]" r f t] by (auto simp: f)
    ultimately show ?thesis by simp
  qed
  have rm: "iv_set m \<inter> is_set rest = {}" using r by (fastforce simp: is_set_def iv_set_def)
  have "is_set (map (\<lambda>t. iv_Intersection t m) hits) = iv_set m \<inter> is_set hits"
    by (auto simp: is_set_def iv_Intersection_set)
  then show "is_set (map (\<lambda>t. iv_Intersection t m) hits) = iv_set m \<inter> is_set theirs" using rm by (auto simp: s)
  show "is_ok (map (\<lambda>t. iv_Intersection t m) hits)"
    unfolding is_ok_def
  proof
    show "\<forall>i\<in>set (map (\<lambda>t. iv_Intersection t m) hits). iv_min i < iv_max i"
      using meets by (auto simp: iv_Intersection_def iv_Intersects_def iv_Empty_def)
    have "sorted_wrt (\<lambda>i j. iv_max i < iv_min j) hits" using okc(1) by (simp add: is_ok_def)
    then show "sorted_wrt (\<lambda>i j. iv_max i < iv_min j) (map (\<lambda>t. iv_Intersection t m) hits)"
      unfolding sorted_wrt_map
      by (rule sorted_wrt_mono_rel [rotated]) (simp add: iv_Intersection_def min_less_iff_disj less_max_iff_disj)
  qed
  show "\<forall>i\<in>set (map (\<lambda>t. iv_Intersection t m) hits). iv_min m \<le> iv_min i \<and> iv_max i \<le> iv_max m"
    by (auto simp: iv_Intersection_def)
  obtain c' l where l: "hits = c' @ [l]" using c by (metis append_butlast_last_id)
  then have d: "drop (length hits - 1) theirs = l # rest" by (simp add: s)
  then show "drop (length hits - 1) theirs \<noteq> []" by simp
  have "x < iv_min l" "iv_min l < iv_max m" if "x \<in> is_set c'" for x
    using that is_set_below [of c' "[l]" x l] okc(1) meets by (auto simp: l iv_Intersects_def)
  then have "is_set mine \<inter> is_set c' = {}" using is_set_above [OF assms(1)] by (meson disjoint_iff less_trans less_asym)
  then show "is_set mine \<inter> is_set (drop (length hits - 1) theirs) = is_set mine \<inter> is_set theirs"
    unfolding d by (auto simp: s l)
qed

lemma is_inter_loop_ok:
  assumes "is_ok (kept @ mine)" "is_ok theirs" "theirs \<noteq> []"
  shows "\<exists>s. is_inter_loop kept mine theirs = Some s \<and> is_ok s \<and> is_set s = is_set kept \<union> (is_set mine \<inter> is_set theirs)"
  using assms
proof (induction "length mine" arbitrary: kept mine theirs rule: less_induct)
  case less
  have ok: "is_ok kept" "is_ok mine" "\<forall>i\<in>set kept. \<forall>j\<in>set mine. iv_max i < iv_min j" using less.prems(1) by (simp_all add: is_ok_append)
  from is_next_pair_ok [OF ok(2) less.prems(2,3)] obtain found mine' theirs' where
    p: "is_next_pair mine theirs = Some (found, mine', theirs')" and
    q: "suffix mine' mine" "is_ok mine'" "is_ok theirs'" "is_set mine' \<inter> is_set theirs' = is_set mine \<inter> is_set theirs"
      "if found then mine' \<noteq> [] \<and> theirs' \<noteq> [] \<and> iv_Intersects (hd theirs') (hd mine') else mine' = []"
    by blast
  show ?case
  proof (cases found)
    case False
    then show ?thesis using p q(4,5) ok(1) by (subst is_inter_loop.simps) simp
  next
    case True
    then obtain m ms where m: "mine' = m # ms" using q(5) by (cases mine') auto
    have h: "theirs' \<noteq> []" "iv_Intersects (hd theirs') m" using q(5) True m by simp_all
    define hits where "hits = takeWhile (\<lambda>t. iv_Intersects t m) theirs'"
    define new where "new = map (\<lambda>t. iv_Intersection t m) hits"
    note c = is_cut [OF q(2) [unfolded m] q(3) h, folded hits_def, folded new_def]
    have sub: "set mine' \<subseteq> set mine" using q(1) by (rule set_mono_suffix)
    have e: "is_inter_loop kept mine theirs = is_inter_loop (kept @ new) ms (drop (length hits - 1) theirs')"
      using p True by (subst is_inter_loop.simps) (simp add: m hits_def new_def Let_def)
    have okn: "is_ok ((kept @ new) @ ms)"
      unfolding append_assoc is_ok_append
    proof (intro conjI)
      show "is_ok kept" "is_ok new" by (fact ok(1), fact c(2))
      show "is_ok ms" using q(2) by (simp add: m is_ok_Cons)
      show "\<forall>i\<in>set new. \<forall>j\<in>set ms. iv_max i < iv_min j" using c(3) q(2) by (fastforce simp: m is_ok_Cons)
      show "\<forall>i\<in>set kept. \<forall>j\<in>set (new @ ms). iv_max i < iv_min j" using c(3) ok(3) sub by (fastforce simp: m)
    qed
    have "length ms < length mine" using q(1) by (auto simp: m dest: suffix_length_le)
    moreover have "is_ok (drop (length hits - 1) theirs')"
      using is_ok_suffix [of "take (length hits - 1) theirs'" "drop (length hits - 1) theirs'"] q(3) by simp
    ultimately obtain s where
      "is_inter_loop (kept @ new) ms (drop (length hits - 1) theirs') = Some s" "is_ok s"
      "is_set s = is_set (kept @ new) \<union> (is_set ms \<inter> is_set (drop (length hits - 1) theirs'))"
      using less.hyps [OF _ okn _ c(5)] by blast
    then show ?thesis using e c(1,4) q(4) by (auto simp: m)
  qed
qed

lemma is_candidate:
  assumes "is_ok s" "s \<noteq> []" "iv_min f < iv_max f" "\<forall>x\<in>X. iv_min f \<le> x"
  shows "is_ok (is_FindIntersectionCandidate f s)" "is_FindIntersectionCandidate f s \<noteq> []"
    "is_set (is_FindIntersectionCandidate f s) \<inter> X = is_set s \<inter> X"
    "set (is_FindIntersectionCandidate f s) \<subseteq> set s"
proof -
  obtain b a where ba: "is_upper_bound (iv_min f) s = (b, a)" by (cases "is_upper_bound (iv_min f) s")
  note sp = is_upper_bound_split [OF assms(1) ba]
  have "is_ok (is_FindIntersectionCandidate f s) \<and> is_FindIntersectionCandidate f s \<noteq> [] \<and>
    is_set (is_FindIntersectionCandidate f s) \<inter> X = is_set s \<inter> X \<and> set (is_FindIntersectionCandidate f s) \<subseteq> set s"
  proof (cases b rule: rev_cases)
    case Nil
    then show ?thesis using ba assms(1,2) sp(1) by (simp add: is_FindIntersectionCandidate_def)
  next
    case (snoc c l)
    have "is_ok (c @ l # a)" using sp(4) by (simp add: snoc)
    then have "x < iv_min l" if "x \<in> is_set c" for x using that is_set_below by fastforce
    moreover have "iv_min l \<le> iv_min f" using sp(2) by (simp add: snoc)
    ultimately have "is_set c \<inter> X = {}" using assms(4) by (meson disjoint_iff le_less_trans less_le_trans not_less)
    then show ?thesis using \<open>is_ok (c @ l # a)\<close> ba sp(1)
      by (auto simp: is_FindIntersectionCandidate_def snoc is_ok_append)
  qed
  then show "is_ok (is_FindIntersectionCandidate f s)" "is_FindIntersectionCandidate f s \<noteq> []"
    "is_set (is_FindIntersectionCandidate f s) \<inter> X = is_set s \<inter> X"
    "set (is_FindIntersectionCandidate f s) \<subseteq> set s" by blast+
qed

lemma is_set_from_hd: "is_ok s \<Longrightarrow> s \<noteq> [] \<Longrightarrow> \<forall>x\<in>is_set s. iv_min (hd s) \<le> x"
  using is_set_above [of "hd s" "tl s"] is_ok_nonempty [of s "hd s"] by (cases s) (fastforce simp: iv_set_def)+

lemma is_Intersection_ok:
  assumes "is_ok s" "is_ok s'"
  shows "\<exists>r. is_Intersection s' s = Some r \<and> is_ok r \<and> is_set r = is_set s \<inter> is_set s'"
proof (cases "iv_Intersects (is_SpanningInterval s') (is_SpanningInterval s)")
  case False
  then have "iv_set (is_SpanningInterval s) \<inter> iv_set (is_SpanningInterval s') = {}" by (simp add: iv_Intersects_set)
  then have "is_set s \<inter> is_set s' = {}"
    using is_span_ok(1) [OF assms(1)] is_span_ok(1) [OF assms(2)] by (cases "s = []"; cases "s' = []") auto
  then show ?thesis using False by (simp add: is_Intersection_def)
next
  case True
  then have ne: "s \<noteq> []" "s' \<noteq> []"
    by (auto simp: is_SpanningInterval_def iv_Intersects_def iv_Clear_def iv_Empty_def)
  define mine where "mine = is_FindIntersectionCandidate (hd s') s"
  define theirs where "theirs = is_FindIntersectionCandidate (hd mine) s'"
  have "iv_min (hd s') < iv_max (hd s')" using assms(2) ne(2) by (simp add: is_ok_nonempty)
  note m = is_candidate [OF assms(1) ne(1) this is_set_from_hd [OF assms(2) ne(2)], folded mine_def]
  have "iv_min (hd mine) < iv_max (hd mine)" using m(1,2) by (simp add: is_ok_nonempty)
  note t = is_candidate [OF assms(2) ne(2) this is_set_from_hd [OF m(1,2)], folded theirs_def]
  from is_inter_loop_ok [of "[]" mine theirs] m(1) t(1,2) obtain r where
    "is_inter_loop [] mine theirs = Some r" "is_ok r" "is_set r = is_set mine \<inter> is_set theirs" by auto
  moreover have "is_Intersection s' s = is_inter_loop [] mine theirs"
    using True by (simp add: is_Intersection_def mine_def theirs_def Let_def)
  moreover have "is_set mine \<inter> is_set theirs = is_set s \<inter> is_set s'" using m(3) t(3) by (simp add: Int_commute)
  ultimately show ?thesis by simp
qed


subsection \<open>The contract\<close>

text \<open>What a user of the class sees: a set of values that is changed by adding and removing ranges
  and by combining it with other sets, and that can be asked for values and ranges.\<close>

datatype 'a set_call = AddCall 'a 'a | AppendCall 'a 'a | RemoveCall 'a 'a | TrimCall 'a | ComplementCall 'a 'a
  | UnionCall "'a interval_set" | IntersectCall "'a interval_set" | SubtractCall "'a interval_set"
  | ContainsCall 'a | ContainsRangeCall 'a 'a | DisjointCall 'a 'a | IntersectsCall "'a interval_set"

fun set_call_step :: "'a::{linorder,zero} set_call \<Rightarrow> 'a interval_set \<Rightarrow> (bool \<times> 'a interval_set) option" where
  "set_call_step (AddCall a b) s = Some (True, is_Add (Interval a b) s)"
| "set_call_step (AppendCall a b) s = Some (True, is_AddOptimizedForAppend (Interval a b) s)"
| "set_call_step (RemoveCall a b) s = Some (True, is_Difference_interval (Interval a b) s)"
| "set_call_step (TrimCall v) s = Some (is_TrimLessThan v s)"
| "set_call_step (ComplementCall a b) s = Some (True, is_Complement a b s)"
| "set_call_step (UnionCall t) s = Some (True, is_Union t s)"
| "set_call_step (IntersectCall t) s = map_option (Pair True) (is_Intersection t s)"
| "set_call_step (SubtractCall t) s = Some (True, is_Difference t s)"
| "set_call_step (ContainsCall v) s = Some (is_Contains_value v s, s)"
| "set_call_step (ContainsRangeCall a b) s = Some (is_Contains_interval (Interval a b) s, s)"
| "set_call_step (DisjointCall a b) s = Some (is_IsDisjoint (Interval a b) s, s)"
| "set_call_step (IntersectsCall t) s = Some (is_Intersects s t, s)"

fun set_call_spec :: "'a::linorder set_call \<Rightarrow> 'a set \<Rightarrow> bool \<times> 'a set" where
  "set_call_spec (AddCall a b) X = (True, X \<union> {a..<b})"
| "set_call_spec (AppendCall a b) X = (True, X \<union> {a..<b})"
| "set_call_spec (RemoveCall a b) X = (True, X - {a..<b})"
| "set_call_spec (TrimCall v) X = (\<exists>x\<in>X. x < v, X \<inter> {v..})"
| "set_call_spec (ComplementCall a b) X = (True, {a..<b} - X)"
| "set_call_spec (UnionCall t) X = (True, X \<union> is_set t)"
| "set_call_spec (IntersectCall t) X = (True, X \<inter> is_set t)"
| "set_call_spec (SubtractCall t) X = (True, X - is_set t)"
| "set_call_spec (ContainsCall v) X = (v \<in> X, X)"
| "set_call_spec (ContainsRangeCall a b) X = (a < b \<and> {a..<b} \<subseteq> X, X)"
| "set_call_spec (DisjointCall a b) X = ({a..<b} \<inter> X = {}, X)"
| "set_call_spec (IntersectsCall t) X = (X \<inter> is_set t \<noteq> {}, X)"

text \<open>A set that is passed as an argument is one that the class built.\<close>

fun set_call_ok :: "'a::linorder set_call \<Rightarrow> 'a set \<Rightarrow> bool" where
  "set_call_ok (UnionCall t) X = is_Valid t"
| "set_call_ok (IntersectCall t) X = is_Valid t"
| "set_call_ok (SubtractCall t) X = is_Valid t"
| "set_call_ok (IntersectsCall t) X = is_Valid t"
| "set_call_ok c X = True"

interpretation value_set: refines is_Valid is_set set_call_ok set_call_step set_call_spec
proof
  fix s :: "'a::{linorder,zero} interval_set" and c
  assume "is_Valid s" "set_call_ok c (is_set s)"
  then have s: "is_ok s" "set_call_ok c (is_set s)" by (simp_all add: is_Valid_ok)
  have "\<exists>s'. set_call_step c s = Some (fst (set_call_spec c (is_set s)), s') \<and> is_ok s' \<and> is_set s' = snd (set_call_spec c (is_set s))"
  proof (cases c)
    case (AddCall a b)
    then show ?thesis using is_Add_ok [OF s(1), of "Interval a b"] by (simp add: iv_set_def)
  next
    case (AppendCall a b)
    then show ?thesis using is_AddOptimizedForAppend_ok [OF s(1), of "Interval a b"] by (simp add: iv_set_def)
  next
    case (RemoveCall a b)
    then show ?thesis using is_Difference_interval_ok [OF s(1), of "Interval a b"] by (simp add: iv_set_def)
  next
    case (TrimCall v)
    obtain r s' where t: "is_TrimLessThan v s = (r, s')" by (cases "is_TrimLessThan v s")
    then show ?thesis using TrimCall is_TrimLessThan_ok [OF s(1) t] by simp
  next
    case (ComplementCall a b)
    then show ?thesis using is_Complement_ok [OF s(1), of a b] by simp
  next
    case (UnionCall t)
    then show ?thesis using is_Union_ok [OF s(1), of t] by simp
  next
    case (IntersectCall t)
    then show ?thesis using is_Intersection_ok [OF s(1), of t] s(2) by (auto simp: is_Valid_ok)
  next
    case (SubtractCall t)
    then show ?thesis using is_Difference_ok [OF s(1), of t] s(2) by (simp add: is_Valid_ok)
  next
    case (ContainsCall v)
    then show ?thesis using is_Contains_value_ok [OF s(1), of v] s(1) by simp
  next
    case (ContainsRangeCall a b)
    then show ?thesis using is_Contains_interval_ok [OF s(1), of "Interval a b"] s(1) by (simp add: iv_set_def)
  next
    case (DisjointCall a b)
    then show ?thesis using is_IsDisjoint_ok [OF s(1), of "Interval a b"] s(1) by (simp add: iv_set_def)
  next
    case (IntersectsCall t)
    then show ?thesis using is_Intersects_ok [OF s(1), of t] s by (simp add: is_Valid_ok)
  qed
  then show "\<exists>s'. set_call_step c s = Some (fst (set_call_spec c (is_set s)), s') \<and> is_Valid s' \<and> is_set s' = snd (set_call_spec c (is_set s))"
    by (simp add: is_Valid_ok)
qed

subsection \<open>Properties\<close>

text \<open>C5: a set of intervals is a set of values: over any sequence of calls every loop ends, the
  answers are those of the same operations on a plain set, and the intervals stay
  ordered, separated and not empty.\<close>

theorem interval_set_refines:
  fixes cs :: "'a::{linorder,zero} set_call list"
  assumes "spec_legal set_call_ok set_call_spec cs {}"
  shows "\<exists>s. run_ops set_call_step cs [] = Some (fst (spec_ops set_call_spec cs {}), s) \<and>
    is_Valid s \<and> is_set s = snd (spec_ops set_call_spec cs {})"
  using value_set.run_refines [of "[]" cs] assms by (simp add: is_Valid_def)

theorem interval_set_refines_witness:
  "\<exists>s. run_ops set_call_step [AddCall 3 7, AddCall 9 (12 :: nat), AppendCall 12 14, IntersectCall [Interval 1 4, Interval 6 10],
      RemoveCall 3 4, ContainsCall 6, TrimCall 7] [] = Some ([True, True, True, True, True, True, True], s) \<and>
    is_Valid s \<and> is_set s = {9..<10}"
proof -
  let ?cs = "[AddCall 3 7, AddCall 9 (12 :: nat), AppendCall 12 14, IntersectCall [Interval 1 4, Interval 6 10],
      RemoveCall 3 4, ContainsCall 6, TrimCall 7]"
  have l: "spec_legal set_call_ok set_call_spec ?cs {}" by (simp add: is_Valid_def)
  have "({3..<7} \<union> {9..<12 :: nat} \<union> {12..<14}) \<inter> ({1..<4} \<union> {6..<10}) - {3..<4} = {6..<7} \<union> {9..<10}"
    "({6..<7} \<union> {9..<10 :: nat}) \<inter> {7..} = {9..<10}" by (auto simp: set_eq_iff)
  moreover have "\<exists>x\<in>{6..<7} \<union> {9..<10 :: nat}. x < 7" by (rule bexI [of _ 6]) simp_all
  ultimately have sp: "spec_ops set_call_spec ?cs {} = ([True, True, True, True, True, True, True], {9..<10})"
    by (simp add: is_set_def iv_set_def)
  show ?thesis using interval_set_refines [OF l] unfolding sp fst_conv snd_conv .
qed

end
