(* ===== verification/Ietf_Frames.thy ===== *)
theory Ietf_Frames
  imports Codec_Fields Ack_Frame
begin

text \<open>
  The frames of IETF QUIC as \<open>quic_framer.cc\<close> writes and reads them: \<open>AppendIetfFrames\<close> with the
  \<open>Append\<close> function of every frame, and \<open>ProcessIetfFrameData\<close> with the \<open>Process\<close> functions. The structs of
  \<open>frames/*.h\<close> are a datatype and a few records; identifiers that do not travel
  (\<open>control_frame_id\<close>, \<open>message_id\<close>) and the texts of errors are left out.

  The framer is read with an IETF version. What it reads of its own state is the record \<open>framer\<close>: the exponents of the
  ack delay, the first packet number it sends, what the version says of connection ids, and the producer of stream
  data. The string functions of absl are fields of the record. The visitor is a parameter: a function that
  takes an event and the state of the visitor and says whether to go on.
\<close>

subsection \<open>Frames\<close>

datatype encryption_level = ENCRYPTION_INITIAL | ENCRYPTION_HANDSHAKE | ENCRYPTION_ZERO_RTT | ENCRYPTION_FORWARD_SECURE

datatype close_type = GOOGLE_QUIC_CONNECTION_CLOSE | IETF_QUIC_TRANSPORT_CONNECTION_CLOSE | IETF_QUIC_APPLICATION_CONNECTION_CLOSE

datatype quic_error = QUIC_INTERNAL_ERROR | QUIC_MISSING_PAYLOAD | QUIC_INVALID_FRAME_DATA | IETF_QUIC_PROTOCOL_VIOLATION
  | QUIC_INVALID_STREAM_DATA | QUIC_INVALID_RST_STREAM_DATA | QUIC_INVALID_CONNECTION_CLOSE_DATA
  | QUIC_INVALID_MAX_DATA_FRAME_DATA | QUIC_INVALID_MAX_STREAM_DATA_FRAME_DATA | QUIC_MAX_STREAMS_DATA
  | QUIC_INVALID_BLOCKED_DATA | QUIC_INVALID_STREAM_BLOCKED_DATA | QUIC_STREAMS_BLOCKED_DATA
  | QUIC_INVALID_NEW_CONNECTION_ID_DATA | QUIC_INVALID_RETIRE_CONNECTION_ID_DATA | QUIC_INVALID_NEW_TOKEN
  | QUIC_INVALID_STOP_SENDING_FRAME_DATA | QUIC_INVALID_ACK_DATA | QUIC_INVALID_PATH_CHALLENGE_DATA
  | QUIC_INVALID_PATH_RESPONSE_DATA | QUIC_INVALID_MESSAGE_DATA

datatype rst_error = QUIC_STREAM_NO_ERROR | QUIC_STREAM_GENERAL_PROTOCOL_ERROR | QUIC_STREAM_INTERNAL_ERROR
  | QUIC_STREAM_STREAM_CREATION_ERROR | QUIC_STREAM_CLOSED_CRITICAL_STREAM | QUIC_STREAM_FRAME_UNEXPECTED
  | QUIC_STREAM_FRAME_ERROR | QUIC_STREAM_EXCESSIVE_LOAD | QUIC_STREAM_ID_ERROR | QUIC_STREAM_SETTINGS_ERROR
  | QUIC_STREAM_MISSING_SETTINGS | QUIC_STREAM_REQUEST_REJECTED | QUIC_STREAM_CANCELLED | QUIC_STREAM_REQUEST_INCOMPLETE
  | QUIC_STREAM_CONNECT_ERROR | QUIC_STREAM_VERSION_FALLBACK | QUIC_STREAM_DECOMPRESSION_FAILED
  | QUIC_STREAM_ENCODER_STREAM_ERROR | QUIC_STREAM_DECODER_STREAM_ERROR | QUIC_STREAM_UNKNOWN_APPLICATION_ERROR_CODE

record connection_close_frame =
  cc_close_type :: close_type
  cc_wire_error_code :: u64
  cc_quic_error_code :: u32
  cc_error_details :: bytes
  cc_transport_close_frame_type :: u64

record stream_frame =
  sf_stream_id :: u32
  sf_fin :: bool
  sf_offset :: u64
  sf_data_length :: u16
  sf_data_buffer :: bytes

record crypto_frame =
  cf_level :: encryption_level
  cf_offset :: u64
  cf_data_length :: u16
  cf_data_buffer :: "bytes option"

datatype quic_frame =
    PaddingFrame int
  | StreamFrame stream_frame
  | AckFrame ack_frame
  | StopWaitingFrame
  | GoAwayFrame bytes
  | MtuDiscoveryFrame
  | PingFrame
  | RstStreamFrame u32 u64 u64 rst_error
  | ConnectionCloseFrame connection_close_frame
  | WindowUpdateFrame u32 u64
  | BlockedFrame u32 u64
  | MaxStreamsFrame u32 bool
  | StreamsBlockedFrame u32 bool
  | NewConnectionIdFrame u64 u64 bytes bytes
  | RetireConnectionIdFrame u64
  | NewTokenFrame bytes
  | StopSendingFrame u32 u64 rst_error
  | PathChallengeFrame bytes
  | PathResponseFrame bytes
  | MessageFrame u16 "bytes list" bytes
  | CryptoFrame crypto_frame
  | HandshakeDoneFrame
  | AckFrequencyFrame u64 u64 delta bool

record absl_strings =
  ab_StrCat :: "bytes list \<Rightarrow> bytes"
  ab_StrSplit :: "bytes \<Rightarrow> u8 \<Rightarrow> bytes list"
  ab_SimpleAtoi :: "bytes \<Rightarrow> u64 option"

record framer =
  fr_first_sending_packet_number :: u64
  fr_peer_ack_delay_exponent :: nat
  fr_local_ack_delay_exponent :: nat
  fr_reject_unexpected :: bool
  fr_variable_length_ids :: bool
  fr_length_prefixed_ids :: bool
  fr_producer :: "((u32 \<Rightarrow> u64 \<Rightarrow> u16 \<Rightarrow> data_writer \<Rightarrow> bool \<times> data_writer) \<times>
    (encryption_level \<Rightarrow> u64 \<Rightarrow> u16 \<Rightarrow> data_writer \<Rightarrow> bool \<times> data_writer)) option"
  fr_absl :: absl_strings

text \<open>The codes of \<open>QuicIetfFrameType\<close>.\<close>

abbreviation (input) IETF_PADDING :: u64 where "IETF_PADDING \<equiv> 0x00"
abbreviation (input) IETF_PING :: u64 where "IETF_PING \<equiv> 0x01"
abbreviation (input) IETF_ACK :: u64 where "IETF_ACK \<equiv> 0x02"
abbreviation (input) IETF_ACK_ECN :: u64 where "IETF_ACK_ECN \<equiv> 0x03"
abbreviation (input) IETF_RST_STREAM :: u64 where "IETF_RST_STREAM \<equiv> 0x04"
abbreviation (input) IETF_STOP_SENDING :: u64 where "IETF_STOP_SENDING \<equiv> 0x05"
abbreviation (input) IETF_CRYPTO :: u64 where "IETF_CRYPTO \<equiv> 0x06"
abbreviation (input) IETF_NEW_TOKEN :: u64 where "IETF_NEW_TOKEN \<equiv> 0x07"
abbreviation (input) IETF_STREAM :: u64 where "IETF_STREAM \<equiv> 0x08"
abbreviation (input) IETF_MAX_DATA :: u64 where "IETF_MAX_DATA \<equiv> 0x10"
abbreviation (input) IETF_MAX_STREAM_DATA :: u64 where "IETF_MAX_STREAM_DATA \<equiv> 0x11"
abbreviation (input) IETF_MAX_STREAMS_BIDIRECTIONAL :: u64 where "IETF_MAX_STREAMS_BIDIRECTIONAL \<equiv> 0x12"
abbreviation (input) IETF_MAX_STREAMS_UNIDIRECTIONAL :: u64 where "IETF_MAX_STREAMS_UNIDIRECTIONAL \<equiv> 0x13"
abbreviation (input) IETF_DATA_BLOCKED :: u64 where "IETF_DATA_BLOCKED \<equiv> 0x14"
abbreviation (input) IETF_STREAM_DATA_BLOCKED :: u64 where "IETF_STREAM_DATA_BLOCKED \<equiv> 0x15"
abbreviation (input) IETF_STREAMS_BLOCKED_BIDIRECTIONAL :: u64 where "IETF_STREAMS_BLOCKED_BIDIRECTIONAL \<equiv> 0x16"
abbreviation (input) IETF_STREAMS_BLOCKED_UNIDIRECTIONAL :: u64 where "IETF_STREAMS_BLOCKED_UNIDIRECTIONAL \<equiv> 0x17"
abbreviation (input) IETF_NEW_CONNECTION_ID :: u64 where "IETF_NEW_CONNECTION_ID \<equiv> 0x18"
abbreviation (input) IETF_RETIRE_CONNECTION_ID :: u64 where "IETF_RETIRE_CONNECTION_ID \<equiv> 0x19"
abbreviation (input) IETF_PATH_CHALLENGE :: u64 where "IETF_PATH_CHALLENGE \<equiv> 0x1a"
abbreviation (input) IETF_PATH_RESPONSE :: u64 where "IETF_PATH_RESPONSE \<equiv> 0x1b"
abbreviation (input) IETF_CONNECTION_CLOSE :: u64 where "IETF_CONNECTION_CLOSE \<equiv> 0x1c"
abbreviation (input) IETF_APPLICATION_CLOSE :: u64 where "IETF_APPLICATION_CLOSE \<equiv> 0x1d"
abbreviation (input) IETF_HANDSHAKE_DONE :: u64 where "IETF_HANDSHAKE_DONE \<equiv> 0x1e"
abbreviation (input) IETF_EXTENSION_MESSAGE_NO_LENGTH_V99 :: u64 where "IETF_EXTENSION_MESSAGE_NO_LENGTH_V99 \<equiv> 0x30"
abbreviation (input) IETF_EXTENSION_MESSAGE_V99 :: u64 where "IETF_EXTENSION_MESSAGE_V99 \<equiv> 0x31"
abbreviation (input) IETF_ACK_FREQUENCY :: u64 where "IETF_ACK_FREQUENCY \<equiv> 0xaf"

definition IS_IETF_STREAM_FRAME :: "u64 \<Rightarrow> bool" where
  "IS_IETF_STREAM_FRAME t \<longleftrightarrow> t AND 0xfffffffffffffff8 = IETF_STREAM"

definition IETF_STREAM_FRAME_FIN_BIT :: u8 where "IETF_STREAM_FRAME_FIN_BIT = 0x01"
definition IETF_STREAM_FRAME_LEN_BIT :: u8 where "IETF_STREAM_FRAME_LEN_BIT = 0x02"
definition IETF_STREAM_FRAME_OFF_BIT :: u8 where "IETF_STREAM_FRAME_OFF_BIT = 0x04"

definition GetInvalidStreamId :: u32 where "GetInvalidStreamId = 0xffffffff"
definition kMaxQuicStreamId :: u32 where "kMaxQuicStreamId = 0xffffffff"
definition kMaxQuicStreamCount :: u32 where "kMaxQuicStreamCount = 0xffffffff"
definition GetMaxStreamCount :: u32 where "GetMaxStreamCount = drop_bit 2 kMaxQuicStreamCount + 1"
definition kMaxNewTokenTokenLength :: nat where "kMaxNewTokenTokenLength = 0xffff"
definition kVarInt62MaxValue :: u64 where "kVarInt62MaxValue = 0x3fffffffffffffff"
definition kMaxErrorStringLength :: nat where "kMaxErrorStringLength = 256"
definition QUIC_NO_ERROR :: u32 where "QUIC_NO_ERROR = 0"
definition QUIC_IETF_GQUIC_ERROR_MISSING :: u32 where "QUIC_IETF_GQUIC_ERROR_MISSING = 122"

definition IsConnectionIdLengthValidForVersion :: "framer \<Rightarrow> nat \<Rightarrow> bool" where
  "IsConnectionIdLengthValidForVersion fr n =
     (if n > 255 then False
      else if \<not> fr_variable_length_ids fr then n = 8
      else if \<not> fr_length_prefixed_ids fr then n = 0 \<or> (n \<ge> 4 \<and> n \<le> 18)
      else n \<le> 20)"

definition IetfResetStreamErrorCodeToRstStreamErrorCode :: "u64 \<Rightarrow> rst_error" where
  "IetfResetStreamErrorCodeToRstStreamErrorCode c =
     (if c = 0x100 then QUIC_STREAM_NO_ERROR
      else if c = 0x101 then QUIC_STREAM_GENERAL_PROTOCOL_ERROR
      else if c = 0x102 then QUIC_STREAM_INTERNAL_ERROR
      else if c = 0x103 then QUIC_STREAM_STREAM_CREATION_ERROR
      else if c = 0x104 then QUIC_STREAM_CLOSED_CRITICAL_STREAM
      else if c = 0x105 then QUIC_STREAM_FRAME_UNEXPECTED
      else if c = 0x106 then QUIC_STREAM_FRAME_ERROR
      else if c = 0x107 then QUIC_STREAM_EXCESSIVE_LOAD
      else if c = 0x108 then QUIC_STREAM_ID_ERROR
      else if c = 0x109 then QUIC_STREAM_SETTINGS_ERROR
      else if c = 0x10A then QUIC_STREAM_MISSING_SETTINGS
      else if c = 0x10B then QUIC_STREAM_REQUEST_REJECTED
      else if c = 0x10C then QUIC_STREAM_CANCELLED
      else if c = 0x10D then QUIC_STREAM_REQUEST_INCOMPLETE
      else if c = 0x10F then QUIC_STREAM_CONNECT_ERROR
      else if c = 0x110 then QUIC_STREAM_VERSION_FALLBACK
      else if c = 0x200 then QUIC_STREAM_DECOMPRESSION_FAILED
      else if c = 0x201 then QUIC_STREAM_ENCODER_STREAM_ERROR
      else if c = 0x202 then QUIC_STREAM_DECODER_STREAM_ERROR
      else QUIC_STREAM_UNKNOWN_APPLICATION_ERROR_CODE)"


subsection \<open>Error strings of a connection close\<close>

text \<open>\<open>std::to_string\<close> of an unsigned integer.\<close>

fun decimal :: "nat \<Rightarrow> bytes" where
  "decimal n = (if n < 10 then [of_nat (48 + n)] else decimal (n div 10) @ [of_nat (48 + n mod 10)])"

declare decimal.simps [simp del]

definition GenerateErrorString :: "framer \<Rightarrow> bytes \<Rightarrow> u32 \<Rightarrow> bytes" where
  "GenerateErrorString fr initial_error_string quic_error_code =
     (if quic_error_code = QUIC_IETF_GQUIC_ERROR_MISSING then initial_error_string
      else ab_StrCat (fr_absl fr) [decimal (unat quic_error_code), [58], initial_error_string])"

definition TruncateErrorString :: "bytes \<Rightarrow> bytes" where
  "TruncateErrorString error = (if length error \<le> kMaxErrorStringLength then error else take kMaxErrorStringLength error)"

definition TruncatedErrorStringSize :: "bytes \<Rightarrow> nat" where
  "TruncatedErrorStringSize error = (if length error < kMaxErrorStringLength then length error else kMaxErrorStringLength)"

definition IsAllDigits :: "bytes \<Rightarrow> bool" where
  "IsAllDigits s \<longleftrightarrow> list_all (\<lambda>c. 48 \<le> c \<and> c \<le> 57) s"

definition MaybeExtractQuicErrorCode :: "framer \<Rightarrow> connection_close_frame \<Rightarrow> connection_close_frame" where
  "MaybeExtractQuicErrorCode fr frame =
     (let ed = ab_StrSplit (fr_absl fr) (cc_error_details frame) 58 in
      case (if length ed < 2 \<or> \<not> IsAllDigits (ed ! 0) then None else ab_SimpleAtoi (fr_absl fr) (ed ! 0)) of
        None \<Rightarrow>
          if cc_close_type frame = IETF_QUIC_TRANSPORT_CONNECTION_CLOSE \<and> cc_wire_error_code frame = 0
          then frame\<lparr>cc_quic_error_code := QUIC_NO_ERROR\<rparr>
          else frame\<lparr>cc_quic_error_code := QUIC_IETF_GQUIC_ERROR_MISSING\<rparr>
      | Some extracted_error_code \<Rightarrow>
          frame\<lparr>cc_error_details := drop (length (ed ! 0) + 1) (cc_error_details frame),
                cc_quic_error_code := ucast extracted_error_code\<rparr>)"


subsection \<open>Writing frames\<close>

text \<open>The buffer of a frame has at least \<open>data_length\<close> bytes, of which the first ones are written.\<close>

definition AppendPaddingFrame :: "int \<Rightarrow> data_writer \<Rightarrow> bool \<times> data_writer" where
  "AppendPaddingFrame num_padding_bytes w =
     (if num_padding_bytes = 0 then (False, w)
      else if num_padding_bytes < 0 then (True, WritePadding w)
      else WritePaddingBytes (nat (num_padding_bytes - 1)) w)"

definition GetIetfStreamFrameTypeByte :: "stream_frame \<Rightarrow> bool \<Rightarrow> u8" where
  "GetIetfStreamFrameTypeByte frame last_frame_in_packet =
     (let type_byte = ucast IETF_STREAM;
          type_byte = (if \<not> last_frame_in_packet then type_byte OR IETF_STREAM_FRAME_LEN_BIT else type_byte);
          type_byte = (if sf_offset frame \<noteq> 0 then type_byte OR IETF_STREAM_FRAME_OFF_BIT else type_byte)
      in if sf_fin frame then type_byte OR IETF_STREAM_FRAME_FIN_BIT else type_byte)"

definition write_stream_data :: "framer \<Rightarrow> stream_frame \<Rightarrow> data_writer \<Rightarrow> bool \<times> data_writer" where
  "write_stream_data fr frame w =
     (if sf_data_length frame = 0 then (True, w)
      else case fr_producer fr of
             None \<Rightarrow> WriteBytes (take (unat (sf_data_length frame)) (sf_data_buffer frame)) w
           | Some (WriteStreamData, _) \<Rightarrow> WriteStreamData (sf_stream_id frame) (sf_offset frame) (sf_data_length frame) w)"

definition AppendIetfStreamFrame :: "framer \<Rightarrow> stream_frame \<Rightarrow> bool \<Rightarrow> data_writer \<Rightarrow> bool \<times> data_writer" where
  "AppendIetfStreamFrame fr frame last_frame_in_packet w =
     and_then (and_then (and_then (WriteVarInt62 (ucast (sf_stream_id frame)) w)
       (\<lambda>w. if sf_offset frame \<noteq> 0 then WriteVarInt62 (sf_offset frame) w else (True, w)))
       (\<lambda>w. if \<not> last_frame_in_packet then WriteVarInt62 (ucast (sf_data_length frame)) w else (True, w)))
       (write_stream_data fr frame)"

definition AppendCryptoFrame :: "framer \<Rightarrow> crypto_frame \<Rightarrow> data_writer \<Rightarrow> bool \<times> data_writer" where
  "AppendCryptoFrame fr frame w =
     and_then (and_then (WriteVarInt62 (cf_offset frame) w) (WriteVarInt62 (ucast (cf_data_length frame))))
       (\<lambda>w. case fr_producer fr of
              None \<Rightarrow> (case cf_data_buffer frame of
                         None \<Rightarrow> (False, w)
                       | Some data \<Rightarrow> WriteBytes (take (unat (cf_data_length frame)) data) w)
            | Some (_, WriteCryptoData) \<Rightarrow> WriteCryptoData (cf_level frame) (cf_offset frame) (cf_data_length frame) w)"

definition AppendAckFrequencyFrame :: "u64 \<Rightarrow> u64 \<Rightarrow> delta \<Rightarrow> bool \<Rightarrow> data_writer \<Rightarrow> bool \<times> data_writer" where
  "AppendAckFrequencyFrame sequence_number packet_tolerance max_ack_delay ignore_order w =
     and_then (and_then (and_then (WriteVarInt62 sequence_number w) (WriteVarInt62 packet_tolerance))
       (WriteVarInt62 (of_int max_ack_delay))) (WriteUInt8 (if ignore_order then 1 else 0))"

definition AppendNewTokenFrame :: "bytes \<Rightarrow> data_writer \<Rightarrow> bool \<times> data_writer" where
  "AppendNewTokenFrame token w = and_then (WriteVarInt62 (of_nat (length token)) w) (WriteBytes token)"

definition AppendMessageFrameAndTypeByte :: "u16 \<Rightarrow> bytes list \<Rightarrow> bool \<Rightarrow> data_writer \<Rightarrow> bool \<times> data_writer" where
  "AppendMessageFrameAndTypeByte message_length message_data last_frame_in_packet w =
     and_then (and_then (WriteUInt8 (ucast (if last_frame_in_packet then IETF_EXTENSION_MESSAGE_NO_LENGTH_V99
                                            else IETF_EXTENSION_MESSAGE_V99)) w)
       (\<lambda>w. if \<not> last_frame_in_packet then WriteVarInt62 (ucast message_length) w else (True, w)))
       (write_all WriteBytes message_data)"

definition AppendIetfConnectionCloseFrame :: "framer \<Rightarrow> connection_close_frame \<Rightarrow> data_writer \<Rightarrow> bool \<times> data_writer" where
  "AppendIetfConnectionCloseFrame fr frame w =
     (if cc_close_type frame \<noteq> IETF_QUIC_TRANSPORT_CONNECTION_CLOSE \<and>
         cc_close_type frame \<noteq> IETF_QUIC_APPLICATION_CONNECTION_CLOSE then (False, w)
      else
        and_then (and_then (WriteVarInt62 (cc_wire_error_code frame) w)
          (\<lambda>w. if cc_close_type frame = IETF_QUIC_TRANSPORT_CONNECTION_CLOSE
               then WriteVarInt62 (cc_transport_close_frame_type frame) w else (True, w)))
          (WriteStringPieceVarInt62
            (TruncateErrorString (GenerateErrorString fr (cc_error_details frame) (cc_quic_error_code frame)))))"

definition AppendPathChallengeFrame :: "bytes \<Rightarrow> data_writer \<Rightarrow> bool \<times> data_writer" where
  "AppendPathChallengeFrame data_buffer w = WriteBytes data_buffer w"

definition AppendPathResponseFrame :: "bytes \<Rightarrow> data_writer \<Rightarrow> bool \<times> data_writer" where
  "AppendPathResponseFrame data_buffer w = WriteBytes data_buffer w"

definition AppendIetfResetStreamFrame :: "u32 \<Rightarrow> u64 \<Rightarrow> u64 \<Rightarrow> data_writer \<Rightarrow> bool \<times> data_writer" where
  "AppendIetfResetStreamFrame stream_id ietf_error_code byte_offset w =
     and_then (and_then (WriteVarInt62 (ucast stream_id) w) (WriteVarInt62 ietf_error_code)) (WriteVarInt62 byte_offset)"

definition AppendStopSendingFrame :: "u32 \<Rightarrow> u64 \<Rightarrow> data_writer \<Rightarrow> bool \<times> data_writer" where
  "AppendStopSendingFrame stream_id ietf_error_code w =
     and_then (WriteVarInt62 (ucast stream_id) w) (WriteVarInt62 ietf_error_code)"

definition AppendMaxDataFrame :: "u64 \<Rightarrow> data_writer \<Rightarrow> bool \<times> data_writer" where
  "AppendMaxDataFrame max_data w = WriteVarInt62 max_data w"

definition AppendMaxStreamDataFrame :: "u32 \<Rightarrow> u64 \<Rightarrow> data_writer \<Rightarrow> bool \<times> data_writer" where
  "AppendMaxStreamDataFrame stream_id max_data w = and_then (WriteVarInt62 (ucast stream_id) w) (WriteVarInt62 max_data)"

definition AppendMaxStreamsFrame :: "u32 \<Rightarrow> data_writer \<Rightarrow> bool \<times> data_writer" where
  "AppendMaxStreamsFrame stream_count w = WriteVarInt62 (ucast stream_count) w"

definition AppendDataBlockedFrame :: "u64 \<Rightarrow> data_writer \<Rightarrow> bool \<times> data_writer" where
  "AppendDataBlockedFrame offset w = WriteVarInt62 offset w"

definition AppendStreamDataBlockedFrame :: "u32 \<Rightarrow> u64 \<Rightarrow> data_writer \<Rightarrow> bool \<times> data_writer" where
  "AppendStreamDataBlockedFrame stream_id offset w = and_then (WriteVarInt62 (ucast stream_id) w) (WriteVarInt62 offset)"

definition AppendBlockedFrame :: "u32 \<Rightarrow> u64 \<Rightarrow> data_writer \<Rightarrow> bool \<times> data_writer" where
  "AppendBlockedFrame stream_id offset w =
     (if stream_id = GetInvalidStreamId then AppendDataBlockedFrame offset w
      else AppendStreamDataBlockedFrame stream_id offset w)"

definition AppendStreamsBlockedFrame :: "u32 \<Rightarrow> data_writer \<Rightarrow> bool \<times> data_writer" where
  "AppendStreamsBlockedFrame stream_count w = WriteVarInt62 (ucast stream_count) w"

definition AppendNewConnectionIdFrame :: "u64 \<Rightarrow> u64 \<Rightarrow> bytes \<Rightarrow> bytes \<Rightarrow> data_writer \<Rightarrow> bool \<times> data_writer" where
  "AppendNewConnectionIdFrame sequence_number retire_prior_to connection_id stateless_reset_token w =
     and_then (and_then (and_then (WriteVarInt62 sequence_number w) (WriteVarInt62 retire_prior_to))
       (WriteLengthPrefixedConnectionId connection_id)) (WriteBytes stateless_reset_token)"

definition AppendRetireConnectionIdFrame :: "u64 \<Rightarrow> data_writer \<Rightarrow> bool \<times> data_writer" where
  "AppendRetireConnectionIdFrame sequence_number w = WriteVarInt62 sequence_number w"


subsection \<open>Writing acks\<close>

definition has_ecn :: "ack_frame \<Rightarrow> bool" where
  "has_ecn frame \<longleftrightarrow> af_ecn_counters_populated frame \<and>
     (af_ect_0_count frame \<noteq> 0 \<or> af_ect_1_count frame \<noteq> 0 \<or> af_ecn_ce_count frame \<noteq> 0)"

definition ecn_size :: "ack_frame \<Rightarrow> nat" where
  "ecn_size frame =
     (if has_ecn frame
      then GetVarInt62Len (af_ect_0_count frame) + GetVarInt62Len (af_ect_1_count frame) + GetVarInt62Len (af_ecn_ce_count frame)
      else 0)"

definition ack_delay_time_us :: "framer \<Rightarrow> ack_frame \<Rightarrow> u64" where
  "ack_delay_time_us fr frame =
     (if af_ack_delay_time frame = Delta_Infinite then kVarInt62MaxValue
      else drop_bit (fr_local_ack_delay_exponent fr) (of_int (af_ack_delay_time frame)))"

text \<open>The loop over the ranges below the highest one, which are given from the highest down: a range that does not fit
  ends it.\<close>

fun append_ack_blocks :: "nat \<Rightarrow> u64 \<Rightarrow> u64 interval list \<Rightarrow> u64 \<Rightarrow> data_writer \<Rightarrow> u64 \<times> data_writer" where
  "append_ack_blocks ecn previous_smallest [] appended_ack_blocks w = (appended_ack_blocks, w)"
| "append_ack_blocks ecn previous_smallest (i # is) appended_ack_blocks w =
     (let gap = previous_smallest - iv_max i - 1;
          ack_range = iv_Length i - 1
      in if dw_remaining w < ecn \<or> dw_remaining w - ecn < GetVarInt62Len gap + GetVarInt62Len ack_range
         then (appended_ack_blocks, w)
         else append_ack_blocks ecn (iv_min i) is (appended_ack_blocks + 1)
                (snd (and_then (WriteVarInt62 gap w) (WriteVarInt62 ack_range))))"

text \<open>The count of blocks is written by a second writer over the same buffer, which is as long as the first count.\<close>

definition rewrite_count :: "nat \<Rightarrow> u64 \<Rightarrow> u64 \<Rightarrow> data_writer \<Rightarrow> bool \<times> data_writer" where
  "rewrite_count pos ack_block_count appended_ack_blocks w =
     (if appended_ack_blocks < ack_block_count then
        if GetVarInt62Len appended_ack_blocks \<noteq> GetVarInt62Len ack_block_count then (False, w)
        else
          let count_writer = w\<lparr>dw_length := pos, dw_capacity := pos + GetVarInt62Len ack_block_count\<rparr>;
              (ok, count_writer) = WriteVarInt62 appended_ack_blocks count_writer
          in (ok, w\<lparr>dw_buffer := dw_buffer count_writer\<rparr>)
      else (True, w))"

definition append_ecn :: "ack_frame \<Rightarrow> data_writer \<Rightarrow> bool \<times> data_writer" where
  "append_ecn frame w =
     (if has_ecn frame
      then and_then (and_then (WriteVarInt62 (af_ect_0_count frame) w) (WriteVarInt62 (af_ect_1_count frame)))
             (WriteVarInt62 (af_ecn_ce_count frame))
      else (True, w))"

definition append_ack_ranges :: "ack_frame \<Rightarrow> data_writer \<Rightarrow> bool \<times> data_writer" where
  "append_ack_ranges frame w =
     (if pq_Empty (af_packets frame) \<or> pq_Max (af_packets frame) \<noteq> LargestAcked frame then (False, w)
      else
        let ack_block_count = of_nat (pq_NumIntervals (af_packets frame)) - 1;
            pos = dw_length w;
            highest = last (af_packets frame)
        in and_then (and_then (and_then (WriteVarInt62 ack_block_count w) (WriteVarInt62 (iv_Length highest - 1)))
             (\<lambda>w. case append_ack_blocks (ecn_size frame) (iv_min highest) (tl (rev (af_packets frame))) 0 w of
                    (appended_ack_blocks, w) \<Rightarrow> rewrite_count pos ack_block_count appended_ack_blocks w))
             (append_ecn frame))"

definition AppendIetfAckFrameAndTypeByte :: "framer \<Rightarrow> ack_frame \<Rightarrow> data_writer \<Rightarrow> bool \<times> data_writer" where
  "AppendIetfAckFrameAndTypeByte fr frame w =
     and_then (and_then (and_then (WriteVarInt62 (if has_ecn frame then IETF_ACK_ECN else IETF_ACK) w)
       (WriteVarInt62 (LargestAcked frame)))
       (WriteVarInt62 (ack_delay_time_us fr frame)))
       (append_ack_ranges frame)"


subsection \<open>Writing a packet\<close>

text \<open>The result of a write with the error that \<open>RaiseError\<close> has stored, if any.\<close>

type_synonym append_result = "quic_error option \<times> bool \<times> data_writer"

definition AppendIetfFrameType :: "quic_frame \<Rightarrow> bool \<Rightarrow> data_writer \<Rightarrow> append_result" where
  "AppendIetfFrameType frame last_frame_in_packet w =
     (let put = (\<lambda>t. (None, WriteVarInt62 (ucast (ucast (t::u64) :: u8)) w)) in
      case frame of
        PaddingFrame _ \<Rightarrow> put IETF_PADDING
      | RstStreamFrame _ _ _ _ \<Rightarrow> put IETF_RST_STREAM
      | ConnectionCloseFrame f \<Rightarrow>
          (case cc_close_type f of
             IETF_QUIC_APPLICATION_CONNECTION_CLOSE \<Rightarrow> put IETF_APPLICATION_CLOSE
           | IETF_QUIC_TRANSPORT_CONNECTION_CLOSE \<Rightarrow> put IETF_CONNECTION_CLOSE
           | GOOGLE_QUIC_CONNECTION_CLOSE \<Rightarrow> (Some QUIC_INTERNAL_ERROR, False, w))
      | GoAwayFrame _ \<Rightarrow> (Some QUIC_INTERNAL_ERROR, False, w)
      | WindowUpdateFrame stream_id _ \<Rightarrow> put (if stream_id = GetInvalidStreamId then IETF_MAX_DATA else IETF_MAX_STREAM_DATA)
      | BlockedFrame stream_id _ \<Rightarrow> put (if stream_id = GetInvalidStreamId then IETF_DATA_BLOCKED else IETF_STREAM_DATA_BLOCKED)
      | StopWaitingFrame \<Rightarrow> (Some QUIC_INTERNAL_ERROR, False, w)
      | PingFrame \<Rightarrow> put IETF_PING
      | StreamFrame f \<Rightarrow> (None, WriteVarInt62 (ucast (GetIetfStreamFrameTypeByte f last_frame_in_packet)) w)
      | AckFrame _ \<Rightarrow> (None, True, w)
      | MtuDiscoveryFrame \<Rightarrow> put IETF_PING
      | NewConnectionIdFrame _ _ _ _ \<Rightarrow> put IETF_NEW_CONNECTION_ID
      | RetireConnectionIdFrame _ \<Rightarrow> put IETF_RETIRE_CONNECTION_ID
      | NewTokenFrame _ \<Rightarrow> put IETF_NEW_TOKEN
      | MaxStreamsFrame _ unidirectional \<Rightarrow>
          put (if unidirectional then IETF_MAX_STREAMS_UNIDIRECTIONAL else IETF_MAX_STREAMS_BIDIRECTIONAL)
      | StreamsBlockedFrame _ unidirectional \<Rightarrow>
          put (if unidirectional then IETF_STREAMS_BLOCKED_UNIDIRECTIONAL else IETF_STREAMS_BLOCKED_BIDIRECTIONAL)
      | PathResponseFrame _ \<Rightarrow> put IETF_PATH_RESPONSE
      | PathChallengeFrame _ \<Rightarrow> put IETF_PATH_CHALLENGE
      | StopSendingFrame _ _ _ \<Rightarrow> put IETF_STOP_SENDING
      | MessageFrame _ _ _ \<Rightarrow> (None, True, w)
      | CryptoFrame _ \<Rightarrow> put IETF_CRYPTO
      | HandshakeDoneFrame \<Rightarrow> put IETF_HANDSHAKE_DONE
      | AckFrequencyFrame _ _ _ _ \<Rightarrow> put IETF_ACK_FREQUENCY)"

text \<open>The switch of \<open>AppendIetfFrames\<close>.\<close>

definition append_payload :: "framer \<Rightarrow> quic_frame \<Rightarrow> bool \<Rightarrow> data_writer \<Rightarrow> append_result" where
  "append_payload fr frame last_frame_in_packet w =
     (case frame of
        PaddingFrame n \<Rightarrow> (None, AppendPaddingFrame n w)
      | StreamFrame f \<Rightarrow> (None, AppendIetfStreamFrame fr f last_frame_in_packet w)
      | AckFrame f \<Rightarrow> (None, AppendIetfAckFrameAndTypeByte fr f w)
      | StopWaitingFrame \<Rightarrow> (Some QUIC_INTERNAL_ERROR, False, w)
      | MtuDiscoveryFrame \<Rightarrow> (None, True, w)
      | PingFrame \<Rightarrow> (None, True, w)
      | RstStreamFrame stream_id ietf_error_code byte_offset _ \<Rightarrow>
          (None, AppendIetfResetStreamFrame stream_id ietf_error_code byte_offset w)
      | ConnectionCloseFrame f \<Rightarrow> (None, AppendIetfConnectionCloseFrame fr f w)
      | GoAwayFrame _ \<Rightarrow> (Some QUIC_INTERNAL_ERROR, False, w)
      | WindowUpdateFrame stream_id max_data \<Rightarrow>
          (None, if stream_id = GetInvalidStreamId then AppendMaxDataFrame max_data w
                 else AppendMaxStreamDataFrame stream_id max_data w)
      | BlockedFrame stream_id offset \<Rightarrow> (None, AppendBlockedFrame stream_id offset w)
      | MaxStreamsFrame stream_count _ \<Rightarrow> (None, AppendMaxStreamsFrame stream_count w)
      | StreamsBlockedFrame stream_count _ \<Rightarrow> (None, AppendStreamsBlockedFrame stream_count w)
      | NewConnectionIdFrame sequence_number retire_prior_to connection_id token \<Rightarrow>
          (None, AppendNewConnectionIdFrame sequence_number retire_prior_to connection_id token w)
      | RetireConnectionIdFrame sequence_number \<Rightarrow> (None, AppendRetireConnectionIdFrame sequence_number w)
      | NewTokenFrame token \<Rightarrow> (None, AppendNewTokenFrame token w)
      | StopSendingFrame stream_id ietf_error_code _ \<Rightarrow> (None, AppendStopSendingFrame stream_id ietf_error_code w)
      | PathChallengeFrame data \<Rightarrow> (None, AppendPathChallengeFrame data w)
      | PathResponseFrame data \<Rightarrow> (None, AppendPathResponseFrame data w)
      | MessageFrame len slices _ \<Rightarrow> (None, AppendMessageFrameAndTypeByte len slices last_frame_in_packet w)
      | CryptoFrame f \<Rightarrow> (None, AppendCryptoFrame fr f w)
      | HandshakeDoneFrame \<Rightarrow> (None, True, w)
      | AckFrequencyFrame sequence_number packet_tolerance max_ack_delay ignore_order \<Rightarrow>
          (None, AppendAckFrequencyFrame sequence_number packet_tolerance max_ack_delay ignore_order w))"

definition append_frame :: "framer \<Rightarrow> quic_frame \<Rightarrow> bool \<Rightarrow> data_writer \<Rightarrow> append_result" where
  "append_frame fr frame last_frame_in_packet w =
     (case AppendIetfFrameType frame last_frame_in_packet w of
        (e, ok, w) \<Rightarrow> if ok then append_payload fr frame last_frame_in_packet w else (e, False, w))"

fun append_frames :: "framer \<Rightarrow> quic_frame list \<Rightarrow> data_writer \<Rightarrow> append_result" where
  "append_frames fr [] w = (None, True, w)"
| "append_frames fr (frame # frames) w =
     (case append_frame fr frame (frames = []) w of
        (e, ok, w) \<Rightarrow> if ok then append_frames fr frames w else (e, False, w))"

definition AppendIetfFrames :: "framer \<Rightarrow> quic_frame list \<Rightarrow> data_writer \<Rightarrow> quic_error option \<times> nat \<times> data_writer" where
  "AppendIetfFrames fr frames w =
     (case append_frames fr frames w of (e, ok, w) \<Rightarrow> (e, if ok then dw_length w else 0, w))"


subsection \<open>Sizes of frames\<close>

text \<open>What the packet creator counts on before it writes a frame, for a version with IETF frames. A \<open>size_t\<close> is a natural number.\<close>

definition kQuicFrameTypeSize :: nat where "kQuicFrameTypeSize = 1"
definition kQuicErrorCodeSize :: nat where "kQuicErrorCodeSize = 4"
definition kQuicErrorDetailsLengthSize :: nat where "kQuicErrorDetailsLengthSize = 2"
definition kQuicMaxStreamIdSize :: nat where "kQuicMaxStreamIdSize = 4"
definition kConnectionIdLengthSize :: nat where "kConnectionIdLengthSize = 1"

definition GetMinStreamFrameSize :: "u32 \<Rightarrow> u64 \<Rightarrow> bool \<Rightarrow> u64 \<Rightarrow> nat" where
  "GetMinStreamFrameSize stream_id offset last_frame_in_packet data_length =
     kQuicFrameTypeSize + GetVarInt62Len (ucast stream_id) +
     (if last_frame_in_packet then 0 else GetVarInt62Len data_length) +
     (if offset \<noteq> 0 then GetVarInt62Len offset else 0)"

definition GetMinCryptoFrameSize :: "u64 \<Rightarrow> u16 \<Rightarrow> nat" where
  "GetMinCryptoFrameSize offset data_length = kQuicFrameTypeSize + GetVarInt62Len offset + GetVarInt62Len (ucast data_length)"

definition GetMessageFrameSize :: "bool \<Rightarrow> u64 \<Rightarrow> nat" where
  "GetMessageFrameSize last_frame_in_packet len =
     kQuicFrameTypeSize + (if last_frame_in_packet then 0 else GetVarInt62Len len) + unat len"

definition GetMinAckFrameSize :: "framer \<Rightarrow> ack_frame \<Rightarrow> nat" where
  "GetMinAckFrameSize fr ack_frame =
     kQuicFrameTypeSize + GetVarInt62Len (LargestAcked ack_frame) +
     GetVarInt62Len (of_int (drop_bit (fr_local_ack_delay_exponent fr) (af_ack_delay_time ack_frame))) +
     GetVarInt62Len 0 +
     GetVarInt62Len (if pq_Empty (af_packets ack_frame) then 0 else iv_Length (last (af_packets ack_frame)) - 1) +
     (if has_ecn ack_frame
      then GetVarInt62Len (af_ect_0_count ack_frame) + GetVarInt62Len (af_ect_1_count ack_frame) + GetVarInt62Len (af_ecn_ce_count ack_frame)
      else 0)"

definition GetStopWaitingFrameSize :: "nat \<Rightarrow> nat" where
  "GetStopWaitingFrameSize packet_number_length = kQuicFrameTypeSize + packet_number_length"

definition GetRstStreamFrameSize :: "u32 \<Rightarrow> u64 \<Rightarrow> u64 \<Rightarrow> nat" where
  "GetRstStreamFrameSize stream_id ietf_error_code byte_offset =
     GetVarInt62Len (ucast stream_id) + GetVarInt62Len byte_offset + kQuicFrameTypeSize + GetVarInt62Len ietf_error_code"

definition GetConnectionCloseFrameSize :: "framer \<Rightarrow> connection_close_frame \<Rightarrow> nat" where
  "GetConnectionCloseFrameSize fr frame =
     (let truncated_error_string_size =
            TruncatedErrorStringSize (GenerateErrorString fr (cc_error_details frame) (cc_quic_error_code frame));
          frame_size = truncated_error_string_size + GetVarInt62Len (of_nat truncated_error_string_size) +
            kQuicFrameTypeSize + GetVarInt62Len (cc_wire_error_code frame)
      in if cc_close_type frame = IETF_QUIC_APPLICATION_CONNECTION_CLOSE then frame_size
         else frame_size + GetVarInt62Len (cc_transport_close_frame_type frame))"

definition GetMinGoAwayFrameSize :: nat where
  "GetMinGoAwayFrameSize = kQuicFrameTypeSize + kQuicErrorCodeSize + kQuicErrorDetailsLengthSize + kQuicMaxStreamIdSize"

definition GetWindowUpdateFrameSize :: "u32 \<Rightarrow> u64 \<Rightarrow> nat" where
  "GetWindowUpdateFrameSize stream_id max_data =
     (if stream_id = GetInvalidStreamId then kQuicFrameTypeSize + GetVarInt62Len max_data
      else kQuicFrameTypeSize + GetVarInt62Len max_data + GetVarInt62Len (ucast stream_id))"

definition GetMaxStreamsFrameSize :: "u32 \<Rightarrow> nat" where
  "GetMaxStreamsFrameSize stream_count = kQuicFrameTypeSize + GetVarInt62Len (ucast stream_count)"

definition GetStreamsBlockedFrameSize :: "u32 \<Rightarrow> nat" where
  "GetStreamsBlockedFrameSize stream_count = kQuicFrameTypeSize + GetVarInt62Len (ucast stream_count)"

definition GetBlockedFrameSize :: "u32 \<Rightarrow> u64 \<Rightarrow> nat" where
  "GetBlockedFrameSize stream_id offset =
     (if stream_id = GetInvalidStreamId then kQuicFrameTypeSize + GetVarInt62Len offset
      else kQuicFrameTypeSize + GetVarInt62Len offset + GetVarInt62Len (ucast stream_id))"

definition GetStopSendingFrameSize :: "u32 \<Rightarrow> u64 \<Rightarrow> nat" where
  "GetStopSendingFrameSize stream_id ietf_error_code =
     kQuicFrameTypeSize + GetVarInt62Len (ucast stream_id) + GetVarInt62Len ietf_error_code"

definition GetAckFrequencyFrameSize :: "u64 \<Rightarrow> u64 \<Rightarrow> delta \<Rightarrow> nat" where
  "GetAckFrequencyFrameSize sequence_number packet_tolerance max_ack_delay =
     GetVarInt62Len IETF_ACK_FREQUENCY + GetVarInt62Len sequence_number + GetVarInt62Len packet_tolerance +
     GetVarInt62Len (of_int max_ack_delay) + 1"

definition GetPathChallengeFrameSize :: "bytes \<Rightarrow> nat" where
  "GetPathChallengeFrameSize data_buffer = kQuicFrameTypeSize + length data_buffer"

definition GetPathResponseFrameSize :: "bytes \<Rightarrow> nat" where
  "GetPathResponseFrameSize data_buffer = kQuicFrameTypeSize + length data_buffer"

definition GetNewConnectionIdFrameSize :: "u64 \<Rightarrow> u64 \<Rightarrow> bytes \<Rightarrow> bytes \<Rightarrow> nat" where
  "GetNewConnectionIdFrameSize sequence_number retire_prior_to connection_id stateless_reset_token =
     kQuicFrameTypeSize + GetVarInt62Len sequence_number + GetVarInt62Len retire_prior_to + kConnectionIdLengthSize +
     length connection_id + length stateless_reset_token"

definition GetRetireConnectionIdFrameSize :: "u64 \<Rightarrow> nat" where
  "GetRetireConnectionIdFrameSize sequence_number = kQuicFrameTypeSize + GetVarInt62Len sequence_number"

definition GetNewTokenFrameSize :: "bytes \<Rightarrow> nat" where
  "GetNewTokenFrameSize token = kQuicFrameTypeSize + GetVarInt62Len (of_nat (length token)) + length token"

definition GetRetransmittableControlFrameSize :: "framer \<Rightarrow> quic_frame \<Rightarrow> nat" where
  "GetRetransmittableControlFrameSize fr frame =
     (case frame of
        PingFrame \<Rightarrow> kQuicFrameTypeSize
      | RstStreamFrame stream_id ietf_error_code byte_offset _ \<Rightarrow> GetRstStreamFrameSize stream_id ietf_error_code byte_offset
      | ConnectionCloseFrame f \<Rightarrow> GetConnectionCloseFrameSize fr f
      | GoAwayFrame reason_phrase \<Rightarrow> GetMinGoAwayFrameSize + TruncatedErrorStringSize reason_phrase
      | WindowUpdateFrame stream_id max_data \<Rightarrow> GetWindowUpdateFrameSize stream_id max_data
      | BlockedFrame stream_id offset \<Rightarrow> GetBlockedFrameSize stream_id offset
      | NewConnectionIdFrame sequence_number retire_prior_to connection_id token \<Rightarrow>
          GetNewConnectionIdFrameSize sequence_number retire_prior_to connection_id token
      | RetireConnectionIdFrame sequence_number \<Rightarrow> GetRetireConnectionIdFrameSize sequence_number
      | NewTokenFrame token \<Rightarrow> GetNewTokenFrameSize token
      | MaxStreamsFrame stream_count _ \<Rightarrow> GetMaxStreamsFrameSize stream_count
      | StreamsBlockedFrame stream_count _ \<Rightarrow> GetStreamsBlockedFrameSize stream_count
      | PathResponseFrame data \<Rightarrow> GetPathResponseFrameSize data
      | PathChallengeFrame data \<Rightarrow> GetPathChallengeFrameSize data
      | StopSendingFrame stream_id ietf_error_code _ \<Rightarrow> GetStopSendingFrameSize stream_id ietf_error_code
      | HandshakeDoneFrame \<Rightarrow> kQuicFrameTypeSize
      | AckFrequencyFrame sequence_number packet_tolerance max_ack_delay _ \<Rightarrow>
          GetAckFrequencyFrameSize sequence_number packet_tolerance max_ack_delay
      | _ \<Rightarrow> 0)"

fun ack_blocks_size :: "u64 \<Rightarrow> u64 interval list \<Rightarrow> nat" where
  "ack_blocks_size previous_smallest [] = 0"
| "ack_blocks_size previous_smallest (i # is) =
     GetVarInt62Len (previous_smallest - iv_max i - 1) + GetVarInt62Len (iv_Length i - 1) + ack_blocks_size (iv_min i) is"

definition GetIetfAckFrameSize :: "framer \<Rightarrow> ack_frame \<Rightarrow> nat" where
  "GetIetfAckFrameSize fr frame =
     (let ack_frame_size = kQuicFrameTypeSize + GetVarInt62Len (LargestAcked frame) +
            GetVarInt62Len (drop_bit (fr_local_ack_delay_exponent fr) (of_int (af_ack_delay_time frame)))
      in if pq_Empty (af_packets frame) \<or> pq_Max (af_packets frame) \<noteq> LargestAcked frame then ack_frame_size
         else
           let highest = last (af_packets frame) in
           ack_frame_size + GetVarInt62Len (of_nat (pq_NumIntervals (af_packets frame)) - 1) +
           GetVarInt62Len (iv_Length highest - 1) + ack_blocks_size (iv_min highest) (tl (rev (af_packets frame))) +
           (if has_ecn frame
            then GetVarInt62Len (af_ect_0_count frame) + GetVarInt62Len (af_ect_1_count frame) + GetVarInt62Len (af_ecn_ce_count frame)
            else 0))"

definition ComputeFrameLength :: "framer \<Rightarrow> quic_frame \<Rightarrow> bool \<Rightarrow> nat \<Rightarrow> nat" where
  "ComputeFrameLength fr frame last_frame_in_packet packet_number_length =
     (case frame of
        StreamFrame f \<Rightarrow>
          GetMinStreamFrameSize (sf_stream_id f) (sf_offset f) last_frame_in_packet (ucast (sf_data_length f)) + unat (sf_data_length f)
      | CryptoFrame f \<Rightarrow> GetMinCryptoFrameSize (cf_offset f) (cf_data_length f) + unat (cf_data_length f)
      | AckFrame f \<Rightarrow> GetIetfAckFrameSize fr f
      | StopWaitingFrame \<Rightarrow> GetStopWaitingFrameSize packet_number_length
      | MtuDiscoveryFrame \<Rightarrow> kQuicFrameTypeSize
      | MessageFrame message_length _ _ \<Rightarrow> GetMessageFrameSize last_frame_in_packet (ucast message_length)
      | PaddingFrame _ \<Rightarrow> 0
      | _ \<Rightarrow> GetRetransmittableControlFrameSize fr frame)"

end
