(* ===== verification/Ietf_Reader.thy ===== *)
theory Ietf_Reader
  imports Ietf_Frames
begin

text \<open>
  Reading the frames of a packet: the \<open>Process\<close> functions of \<open>quic_framer.cc\<close>, \<open>ProcessIetfAckFrame\<close> and
  the loop of \<open>ProcessIetfFrameData\<close>. A read gives a value, or nothing where the code returns false. The visitor is a parameter: a function that takes an event and the
  state of the visitor and says whether to go on. The loops end because no read
  gives bytes back and the type of a frame takes at least one.
\<close>

subsection \<open>Reading frames\<close>

text \<open>A read followed by what is done with its result; a read that fails ends the function.\<close>

definition read_bind ::
  "'a option \<times> data_reader \<Rightarrow> ('a \<Rightarrow> data_reader \<Rightarrow> 'b option \<times> data_reader) \<Rightarrow> 'b option \<times> data_reader" where
  "read_bind x f = (case x of (None, r) \<Rightarrow> (None, r) | (Some v, r) \<Rightarrow> f v r)"

definition read_done :: "'a \<Rightarrow> data_reader \<Rightarrow> 'a option \<times> data_reader" where
  "read_done v r = (Some v, r)"

definition read_fail :: "data_reader \<Rightarrow> 'a option \<times> data_reader" where
  "read_fail r = (None, r)"

definition ReadUint32FromVarint62 :: "data_reader \<Rightarrow> u32 option \<times> data_reader" where
  "ReadUint32FromVarint62 r =
     read_bind (ReadVarInt62 r) (\<lambda>temp. if temp > ucast kMaxQuicStreamId then read_fail else read_done (ucast temp))"

text \<open>The first byte of padding has been read.\<close>

function padding_loop :: "int \<Rightarrow> data_reader \<Rightarrow> int \<times> data_reader" where
  "padding_loop num_padding_bytes r =
     (if \<not> IsDoneReading r \<and> PeekByte r = Inr 0 then padding_loop (num_padding_bytes + 1) (snd (ReadBytes 1 r))
      else (num_padding_bytes, r))"
  by pat_completeness auto

termination padding_loop
  by (relation "measure (\<lambda>(n, r). BytesRemaining r)")
     (auto simp: BytesRemaining_def ReadBytes_def CanRead_def OnFailure_def PeekByte_def split: if_splits)

declare padding_loop.simps [simp del]

definition ProcessPaddingFrame :: "data_reader \<Rightarrow> int \<times> data_reader" where
  "ProcessPaddingFrame r = padding_loop 1 r"

definition stream_data_length :: "bool \<Rightarrow> data_reader \<Rightarrow> u16 option \<times> data_reader" where
  "stream_data_length len_bit r =
     (if len_bit
      then read_bind (ReadVarInt62 r) (\<lambda>len. if len > 0xffff then read_fail else read_done (ucast len))
      else read_done (of_nat (BytesRemaining r)) r)"

definition ProcessIetfStreamFrame :: "u8 \<Rightarrow> data_reader \<Rightarrow> quic_frame option \<times> data_reader" where
  "ProcessIetfStreamFrame frame_type r =
     read_bind (ReadUint32FromVarint62 r) (\<lambda>stream_id r.
     read_bind (if frame_type AND IETF_STREAM_FRAME_OFF_BIT \<noteq> 0 then ReadVarInt62 r else read_done 0 r) (\<lambda>offset r.
     read_bind (stream_data_length (frame_type AND IETF_STREAM_FRAME_LEN_BIT \<noteq> 0) r) (\<lambda>data_length r.
     read_bind (ReadStringPiece (unat data_length) r) (\<lambda>data.
       read_done (StreamFrame \<lparr>sf_stream_id = stream_id, sf_fin = frame_type AND IETF_STREAM_FRAME_FIN_BIT \<noteq> 0,
         sf_offset = offset, sf_data_length = data_length, sf_data_buffer = data\<rparr>)))))"

definition ProcessCryptoFrame :: "encryption_level \<Rightarrow> data_reader \<Rightarrow> quic_frame option \<times> data_reader" where
  "ProcessCryptoFrame level r =
     read_bind (ReadVarInt62 r) (\<lambda>offset r.
     read_bind (ReadVarInt62 r) (\<lambda>len r.
       if len > 0xffff then read_fail r
       else read_bind (ReadStringPiece (unat (ucast len :: u16)) r) (\<lambda>data.
         read_done (CryptoFrame \<lparr>cf_level = level, cf_offset = offset, cf_data_length = ucast len,
           cf_data_buffer = Some data\<rparr>))))"

definition kMaxAckDelayUsBound :: u64 where "kMaxAckDelayUsBound = 0x1000000"

definition ProcessAckFrequencyFrame :: "data_reader \<Rightarrow> quic_frame option \<times> data_reader" where
  "ProcessAckFrequencyFrame r =
     read_bind (ReadVarInt62 r) (\<lambda>sequence_number r.
     read_bind (ReadVarInt62 r) (\<lambda>packet_tolerance r.
       if packet_tolerance = 0 then read_fail r
       else read_bind (ReadVarInt62 r) (\<lambda>max_ack_delay_us r.
         if max_ack_delay_us > kMaxAckDelayUsBound then read_fail r
         else read_bind (ReadUInt8 r) (\<lambda>ignore_order.
           if ignore_order > 1 then read_fail
           else read_done (AckFrequencyFrame sequence_number packet_tolerance (int (unat max_ack_delay_us)) (ignore_order \<noteq> 0))))))"

definition ProcessNewTokenFrame :: "data_reader \<Rightarrow> quic_frame option \<times> data_reader" where
  "ProcessNewTokenFrame r =
     read_bind (ReadVarInt62 r) (\<lambda>len r.
       if unat len > kMaxNewTokenTokenLength then read_fail r
       else read_bind (ReadStringPiece (unat len) r) (\<lambda>data. read_done (NewTokenFrame data)))"

definition ProcessMessageFrame :: "bool \<Rightarrow> data_reader \<Rightarrow> quic_frame option \<times> data_reader" where
  "ProcessMessageFrame no_message_length r =
     (if no_message_length then
        case ReadRemainingPayload r of (remaining, r) \<Rightarrow> read_done (MessageFrame (of_nat (length remaining)) [] remaining) r
      else
        read_bind (ReadVarInt62 r) (\<lambda>message_length r.
        read_bind (ReadStringPiece (unat message_length) r) (\<lambda>message_piece.
          read_done (MessageFrame (ucast message_length) [] message_piece))))"

definition ProcessIetfConnectionCloseFrame :: "framer \<Rightarrow> close_type \<Rightarrow> data_reader \<Rightarrow> quic_frame option \<times> data_reader" where
  "ProcessIetfConnectionCloseFrame fr type r =
     read_bind (ReadVarInt62 r) (\<lambda>error_code r.
     read_bind (if type = IETF_QUIC_TRANSPORT_CONNECTION_CLOSE then ReadVarInt62 r else read_done 0 r) (\<lambda>frame_type r.
     read_bind (ReadVarInt62 r) (\<lambda>phrase_length r.
     read_bind (ReadStringPiece (unat phrase_length) r) (\<lambda>phrase.
       read_done (ConnectionCloseFrame (MaybeExtractQuicErrorCode fr
         \<lparr>cc_close_type = type, cc_wire_error_code = error_code, cc_quic_error_code = QUIC_NO_ERROR,
          cc_error_details = phrase, cc_transport_close_frame_type = frame_type\<rparr>))))))"

definition kQuicPathFrameBufferSize :: nat where "kQuicPathFrameBufferSize = 8"

definition ProcessPathChallengeFrame :: "data_reader \<Rightarrow> quic_frame option \<times> data_reader" where
  "ProcessPathChallengeFrame r = read_bind (ReadBytes kQuicPathFrameBufferSize r) (\<lambda>data. read_done (PathChallengeFrame data))"

definition ProcessPathResponseFrame :: "data_reader \<Rightarrow> quic_frame option \<times> data_reader" where
  "ProcessPathResponseFrame r = read_bind (ReadBytes kQuicPathFrameBufferSize r) (\<lambda>data. read_done (PathResponseFrame data))"

definition ProcessIetfResetStreamFrame :: "data_reader \<Rightarrow> quic_frame option \<times> data_reader" where
  "ProcessIetfResetStreamFrame r =
     read_bind (ReadUint32FromVarint62 r) (\<lambda>stream_id r.
     read_bind (ReadVarInt62 r) (\<lambda>ietf_error_code r.
     read_bind (ReadVarInt62 r) (\<lambda>byte_offset.
       read_done (RstStreamFrame stream_id ietf_error_code byte_offset
         (IetfResetStreamErrorCodeToRstStreamErrorCode ietf_error_code)))))"

definition ProcessStopSendingFrame :: "data_reader \<Rightarrow> quic_frame option \<times> data_reader" where
  "ProcessStopSendingFrame r =
     read_bind (ReadUint32FromVarint62 r) (\<lambda>stream_id r.
     read_bind (ReadVarInt62 r) (\<lambda>ietf_error_code.
       read_done (StopSendingFrame stream_id ietf_error_code (IetfResetStreamErrorCodeToRstStreamErrorCode ietf_error_code))))"

definition ProcessMaxDataFrame :: "data_reader \<Rightarrow> quic_frame option \<times> data_reader" where
  "ProcessMaxDataFrame r = read_bind (ReadVarInt62 r) (\<lambda>max_data. read_done (WindowUpdateFrame GetInvalidStreamId max_data))"

definition ProcessMaxStreamDataFrame :: "data_reader \<Rightarrow> quic_frame option \<times> data_reader" where
  "ProcessMaxStreamDataFrame r =
     read_bind (ReadUint32FromVarint62 r) (\<lambda>stream_id r.
     read_bind (ReadVarInt62 r) (\<lambda>max_data. read_done (WindowUpdateFrame stream_id max_data)))"

definition ProcessMaxStreamsFrame :: "u64 \<Rightarrow> data_reader \<Rightarrow> quic_frame option \<times> data_reader" where
  "ProcessMaxStreamsFrame frame_type r =
     read_bind (ReadUint32FromVarint62 r) (\<lambda>stream_count.
       read_done (MaxStreamsFrame stream_count (frame_type = IETF_MAX_STREAMS_UNIDIRECTIONAL)))"

definition ProcessDataBlockedFrame :: "data_reader \<Rightarrow> quic_frame option \<times> data_reader" where
  "ProcessDataBlockedFrame r = read_bind (ReadVarInt62 r) (\<lambda>offset. read_done (BlockedFrame GetInvalidStreamId offset))"

definition ProcessStreamDataBlockedFrame :: "data_reader \<Rightarrow> quic_frame option \<times> data_reader" where
  "ProcessStreamDataBlockedFrame r =
     read_bind (ReadUint32FromVarint62 r) (\<lambda>stream_id r.
     read_bind (ReadVarInt62 r) (\<lambda>offset. read_done (BlockedFrame stream_id offset)))"

definition ProcessStreamsBlockedFrame :: "u64 \<Rightarrow> data_reader \<Rightarrow> quic_frame option \<times> data_reader" where
  "ProcessStreamsBlockedFrame frame_type r =
     read_bind (ReadUint32FromVarint62 r) (\<lambda>stream_count.
       if stream_count > GetMaxStreamCount then read_fail
       else read_done (StreamsBlockedFrame stream_count (frame_type = IETF_STREAMS_BLOCKED_UNIDIRECTIONAL)))"

definition ProcessNewConnectionIdFrame :: "framer \<Rightarrow> data_reader \<Rightarrow> quic_frame option \<times> data_reader" where
  "ProcessNewConnectionIdFrame fr r =
     read_bind (ReadVarInt62 r) (\<lambda>sequence_number r.
     read_bind (ReadVarInt62 r) (\<lambda>retire_prior_to r.
       if retire_prior_to > sequence_number then read_fail r
       else read_bind (ReadLengthPrefixedConnectionId r) (\<lambda>connection_id r.
         if \<not> IsConnectionIdLengthValidForVersion fr (length connection_id) then read_fail r
         else read_bind (ReadBytes 16 r) (\<lambda>token.
           read_done (NewConnectionIdFrame sequence_number retire_prior_to connection_id token)))))"

definition ProcessRetireConnectionIdFrame :: "data_reader \<Rightarrow> quic_frame option \<times> data_reader" where
  "ProcessRetireConnectionIdFrame r =
     read_bind (ReadVarInt62 r) (\<lambda>sequence_number. read_done (RetireConnectionIdFrame sequence_number))"


subsection \<open>The visitor\<close>

datatype frame_event = OnFrame quic_frame | OnAckFrameStart packet_number delta | OnAckRange packet_number packet_number
  | OnAckFrameEnd packet_number | OnError quic_error

type_synonym 'v visitor = "frame_event \<Rightarrow> 'v \<Rightarrow> bool \<times> 'v"

record 'v framing =
  fs_reader :: data_reader
  fs_visitor :: 'v
  fs_current_received_frame_type :: u64
  fs_error :: "quic_error option"

definition RaiseError :: "'v visitor \<Rightarrow> quic_error \<Rightarrow> 'v framing \<Rightarrow> bool \<times> 'v framing" where
  "RaiseError visitor error s =
     (False, s\<lparr>fs_error := Some error, fs_visitor := snd (visitor (OnError error) (fs_visitor s))\<rparr>)"

text \<open>A step of a function that reads and reports: it reads and ends the function where the read fails, or it
  reports and ends the function where the visitor does not want to go on.\<close>

definition fs_read :: "(data_reader \<Rightarrow> 'a option \<times> data_reader) \<Rightarrow> ('a \<Rightarrow> 'v framing \<Rightarrow> bool \<times> 'v framing) \<Rightarrow> 'v framing \<Rightarrow> bool \<times> 'v framing" where
  "fs_read f k s =
     (case f (fs_reader s) of (None, r) \<Rightarrow> (False, s\<lparr>fs_reader := r\<rparr>) | (Some v, r) \<Rightarrow> k v (s\<lparr>fs_reader := r\<rparr>))"

definition fs_report :: "'v visitor \<Rightarrow> frame_event \<Rightarrow> ('v framing \<Rightarrow> bool \<times> 'v framing) \<Rightarrow> 'v framing \<Rightarrow> bool \<times> 'v framing" where
  "fs_report visitor ev k s =
     (case visitor ev (fs_visitor s) of (go, v) \<Rightarrow> if go then k (s\<lparr>fs_visitor := v\<rparr>) else (False, s\<lparr>fs_visitor := v\<rparr>))"


subsection \<open>Reading acks\<close>

definition received_ack_delay :: "framer \<Rightarrow> u64 \<Rightarrow> delta" where
  "received_ack_delay fr ack_delay_time_in_us =
     (if ack_delay_time_in_us \<ge> drop_bit (fr_peer_ack_delay_exponent fr) kVarInt62MaxValue then Delta_Infinite
      else sint (push_bit (fr_peer_ack_delay_exponent fr) ack_delay_time_in_us))"

definition finish_ack :: "'v visitor \<Rightarrow> u64 \<Rightarrow> u64 \<Rightarrow> 'v framing \<Rightarrow> bool \<times> 'v framing" where
  "finish_ack visitor frame_type block_low s =
     (let end = fs_report visitor (OnAckFrameEnd block_low) (\<lambda>s. (True, s)) in
      if frame_type = IETF_ACK_ECN
      then fs_read ReadVarInt62 (\<lambda>ect_0_count. fs_read ReadVarInt62 (\<lambda>ect_1_count. fs_read ReadVarInt62 (\<lambda>ecn_ce_count. end))) s
      else end s)"

text \<open>The loop over the blocks below the first one.\<close>

function ack_block_loop :: "framer \<Rightarrow> 'v visitor \<Rightarrow> u64 \<Rightarrow> u64 \<Rightarrow> u64 \<Rightarrow> 'v framing \<Rightarrow> bool \<times> 'v framing" where
  "ack_block_loop fr visitor frame_type ack_block_count block_low s =
     (if ack_block_count \<noteq> 0 then
        fs_read ReadVarInt62 (\<lambda>gap_block_value s.
          if gap_block_value + 2 > block_low then (False, s)
          else
            let block_high = block_low - 1 - gap_block_value in
            fs_read ReadVarInt62 (\<lambda>ack_block_value s.
              if ack_block_value + fr_first_sending_packet_number fr > block_high - 1 then (False, s)
              else
                let block_low = block_high - 1 - ack_block_value in
                fs_report visitor (OnAckRange block_low block_high)
                  (ack_block_loop fr visitor frame_type (ack_block_count - 1) block_low) s) s) s
      else finish_ack visitor frame_type block_low s)"
  by pat_completeness auto

termination ack_block_loop
proof (relation "measure (\<lambda>(fr, visitor, frame_type, ack_block_count, block_low, s). unat ack_block_count)")
qed (auto simp: unat_minus_one unat_gt_0)

declare ack_block_loop.simps [simp del]

definition ProcessIetfAckFrame :: "framer \<Rightarrow> 'v visitor \<Rightarrow> u64 \<Rightarrow> 'v framing \<Rightarrow> bool \<times> 'v framing" where
  "ProcessIetfAckFrame fr visitor frame_type =
     fs_read ReadVarInt62 (\<lambda>largest_acked s.
       if largest_acked < fr_first_sending_packet_number fr then (False, s)
       else
         fs_read ReadVarInt62 (\<lambda>ack_delay_time_in_us.
           fs_report visitor (OnAckFrameStart largest_acked (received_ack_delay fr ack_delay_time_in_us))
             (fs_read ReadVarInt62 (\<lambda>ack_block_count.
                fs_read ReadVarInt62 (\<lambda>ack_block_value s.
                  let block_high = largest_acked + 1;
                      block_low = largest_acked - ack_block_value
                  in if ack_block_value + fr_first_sending_packet_number fr > largest_acked then (False, s)
                     else fs_report visitor (OnAckRange block_low block_high)
                            (ack_block_loop fr visitor frame_type ack_block_count block_low) s)))) s)"


subsection \<open>Reading a packet\<close>

definition IsIetfFrameTypeExpectedForEncryptionLevel :: "u64 \<Rightarrow> encryption_level \<Rightarrow> bool" where
  "IsIetfFrameTypeExpectedForEncryptionLevel frame_type level =
     (case level of
        ENCRYPTION_INITIAL \<Rightarrow> frame_type \<in> {IETF_CRYPTO, IETF_ACK, IETF_PING, IETF_PADDING, IETF_CONNECTION_CLOSE}
      | ENCRYPTION_HANDSHAKE \<Rightarrow> frame_type \<in> {IETF_CRYPTO, IETF_ACK, IETF_PING, IETF_PADDING, IETF_CONNECTION_CLOSE}
      | ENCRYPTION_ZERO_RTT \<Rightarrow>
          \<not> (frame_type \<in> {IETF_ACK, IETF_CRYPTO, IETF_HANDSHAKE_DONE, IETF_NEW_TOKEN, IETF_PATH_RESPONSE, IETF_RETIRE_CONNECTION_ID})
      | ENCRYPTION_FORWARD_SECURE \<Rightarrow> True)"

text \<open>The parser of a frame that is given to the visitor as a whole and the error it raises when it fails; padding,
  pings and handshake done frames cannot fail. Acks report to the visitor themselves. The switch is split in two.\<close>

type_synonym frame_parser = "data_reader \<Rightarrow> (quic_error + quic_frame) \<times> data_reader"

definition or_error :: "quic_error \<Rightarrow> (data_reader \<Rightarrow> quic_frame option \<times> data_reader) \<Rightarrow> frame_parser" where
  "or_error e f r = (case f r of (None, r) \<Rightarrow> (Inl e, r) | (Some frame, r) \<Rightarrow> (Inr frame, r))"

definition control_frame_parser :: "framer \<Rightarrow> encryption_level \<Rightarrow> u64 \<Rightarrow> frame_parser option" where
  "control_frame_parser fr header_level frame_type =
     (if frame_type = IETF_NEW_CONNECTION_ID then
        Some (or_error QUIC_INVALID_NEW_CONNECTION_ID_DATA (ProcessNewConnectionIdFrame fr))
      else if frame_type = IETF_RETIRE_CONNECTION_ID then
        Some (or_error QUIC_INVALID_RETIRE_CONNECTION_ID_DATA ProcessRetireConnectionIdFrame)
      else if frame_type = IETF_NEW_TOKEN then Some (or_error QUIC_INVALID_NEW_TOKEN ProcessNewTokenFrame)
      else if frame_type = IETF_STOP_SENDING then
        Some (or_error QUIC_INVALID_STOP_SENDING_FRAME_DATA ProcessStopSendingFrame)
      else if frame_type = IETF_PATH_CHALLENGE then
        Some (or_error QUIC_INVALID_PATH_CHALLENGE_DATA ProcessPathChallengeFrame)
      else if frame_type = IETF_PATH_RESPONSE then Some (or_error QUIC_INVALID_PATH_RESPONSE_DATA ProcessPathResponseFrame)
      else if frame_type = IETF_EXTENSION_MESSAGE_NO_LENGTH_V99 \<or> frame_type = IETF_EXTENSION_MESSAGE_V99 then
        Some (or_error QUIC_INVALID_MESSAGE_DATA (ProcessMessageFrame (frame_type = IETF_EXTENSION_MESSAGE_NO_LENGTH_V99)))
      else if frame_type = IETF_CRYPTO then Some (or_error QUIC_INVALID_FRAME_DATA (ProcessCryptoFrame header_level))
      else if frame_type = IETF_HANDSHAKE_DONE then Some (\<lambda>r. (Inr HandshakeDoneFrame, r))
      else if frame_type = IETF_ACK_FREQUENCY then Some (or_error QUIC_INVALID_FRAME_DATA ProcessAckFrequencyFrame)
      else None)"

definition frame_parser :: "framer \<Rightarrow> encryption_level \<Rightarrow> u64 \<Rightarrow> frame_parser option" where
  "frame_parser fr header_level frame_type =
     (if IS_IETF_STREAM_FRAME frame_type then
        Some (or_error QUIC_INVALID_STREAM_DATA (ProcessIetfStreamFrame (ucast frame_type)))
      else if frame_type = IETF_PADDING then
        Some (\<lambda>r. case ProcessPaddingFrame r of (n, r) \<Rightarrow> (Inr (PaddingFrame n), r))
      else if frame_type = IETF_RST_STREAM then Some (or_error QUIC_INVALID_RST_STREAM_DATA ProcessIetfResetStreamFrame)
      else if frame_type = IETF_APPLICATION_CLOSE \<or> frame_type = IETF_CONNECTION_CLOSE then
        Some (or_error QUIC_INVALID_CONNECTION_CLOSE_DATA
          (ProcessIetfConnectionCloseFrame fr
            (if frame_type = IETF_CONNECTION_CLOSE then IETF_QUIC_TRANSPORT_CONNECTION_CLOSE
             else IETF_QUIC_APPLICATION_CONNECTION_CLOSE)))
      else if frame_type = IETF_MAX_DATA then Some (or_error QUIC_INVALID_MAX_DATA_FRAME_DATA ProcessMaxDataFrame)
      else if frame_type = IETF_MAX_STREAM_DATA then
        Some (or_error QUIC_INVALID_MAX_STREAM_DATA_FRAME_DATA ProcessMaxStreamDataFrame)
      else if frame_type = IETF_MAX_STREAMS_BIDIRECTIONAL \<or> frame_type = IETF_MAX_STREAMS_UNIDIRECTIONAL then
        Some (or_error QUIC_MAX_STREAMS_DATA (ProcessMaxStreamsFrame frame_type))
      else if frame_type = IETF_PING then Some (\<lambda>r. (Inr PingFrame, r))
      else if frame_type = IETF_DATA_BLOCKED then Some (or_error QUIC_INVALID_BLOCKED_DATA ProcessDataBlockedFrame)
      else if frame_type = IETF_STREAM_DATA_BLOCKED then
        Some (or_error QUIC_INVALID_STREAM_BLOCKED_DATA ProcessStreamDataBlockedFrame)
      else if frame_type = IETF_STREAMS_BLOCKED_UNIDIRECTIONAL \<or> frame_type = IETF_STREAMS_BLOCKED_BIDIRECTIONAL then
        Some (or_error QUIC_STREAMS_BLOCKED_DATA (ProcessStreamsBlockedFrame frame_type))
      else control_frame_parser fr header_level frame_type)"

text \<open>One round of the loop ends the function with a result or goes on.\<close>

datatype 'v round = Return bool "'v framing" | Continue "'v framing"

definition returned :: "bool \<times> 'v framing \<Rightarrow> 'v round" where
  "returned x = Return (fst x) (snd x)"

definition process_payload :: "framer \<Rightarrow> 'v visitor \<Rightarrow> encryption_level \<Rightarrow> u64 \<Rightarrow> 'v framing \<Rightarrow> 'v round" where
  "process_payload fr visitor header_level frame_type s =
     (if frame_type = IETF_ACK_ECN \<or> frame_type = IETF_ACK then
        case ProcessIetfAckFrame fr visitor frame_type s of
          (ok, s) \<Rightarrow> if ok then Continue s else returned (RaiseError visitor QUIC_INVALID_ACK_DATA s)
      else
        case frame_parser fr header_level frame_type of
          None \<Rightarrow> returned (RaiseError visitor QUIC_INVALID_FRAME_DATA s)
        | Some parse \<Rightarrow>
            (case parse (fs_reader s) of
               (Inl e, r) \<Rightarrow> returned (RaiseError visitor e (s\<lparr>fs_reader := r\<rparr>))
             | (Inr frame, r) \<Rightarrow>
                 (case visitor (OnFrame frame) (fs_visitor s) of
                    (go, v) \<Rightarrow> let s = s\<lparr>fs_reader := r, fs_visitor := v\<rparr> in if go then Continue s else Return True s)))"

definition process_frame ::
  "framer \<Rightarrow> 'v visitor \<Rightarrow> encryption_level \<Rightarrow> encryption_level \<Rightarrow> 'v framing \<Rightarrow> 'v round" where
  "process_frame fr visitor header_level decrypted_level s =
     (case ReadVarInt62 (fs_reader s) of
        (None, r) \<Rightarrow> returned (RaiseError visitor QUIC_INVALID_FRAME_DATA (s\<lparr>fs_reader := r\<rparr>))
      | (Some frame_type, r) \<Rightarrow>
          let encoded_bytes = BytesRemaining (fs_reader s) - BytesRemaining r;
              s = s\<lparr>fs_reader := r\<rparr>
          in if fr_reject_unexpected fr \<and> \<not> IsIetfFrameTypeExpectedForEncryptionLevel frame_type decrypted_level
             then returned (RaiseError visitor IETF_QUIC_PROTOCOL_VIOLATION s)
             else
               let s = s\<lparr>fs_current_received_frame_type := frame_type\<rparr>
               in if encoded_bytes \<noteq> GetVarInt62Len frame_type
                  then returned (RaiseError visitor IETF_QUIC_PROTOCOL_VIOLATION s)
                  else process_payload fr visitor header_level frame_type s)"


text \<open>No read gives bytes back, and a frame takes at least the byte of its type.\<close>

definition shrinking :: "(data_reader \<Rightarrow> 'a \<times> data_reader) \<Rightarrow> bool" where
  "shrinking f \<longleftrightarrow> (\<forall>r. BytesRemaining (snd (f r)) \<le> BytesRemaining r)"

named_theorems shrink \<open>reads that give no bytes back\<close>

lemma shrinkingD: "shrinking f \<Longrightarrow> f r = (v, r') \<Longrightarrow> BytesRemaining r' \<le> BytesRemaining r"
  unfolding shrinking_def by (metis snd_conv)

lemma shrinking_bytes [shrink]: "shrinking (ReadBytes n)" "shrinking (ReadStringPiece n)" "shrinking ReadUInt8"
  "shrinking ReadRemainingPayload"
  by (auto simp: shrinking_def ReadBytes_def ReadStringPiece_def OnFailure_def BytesRemaining_def ReadUInt8_def read_map_def
    ReadRemainingPayload_def)

lemma ReadVarInt62_shrinks: "ReadVarInt62 r = (Some v, r') \<Longrightarrow> BytesRemaining r' < BytesRemaining r"
  by (auto simp: ReadVarInt62_def Let_def BytesRemaining_def AdvancePos_def split: if_splits)

lemma shrinking_varint [shrink]: "shrinking ReadVarInt62"
  by (auto simp: shrinking_def ReadVarInt62_def Let_def BytesRemaining_def AdvancePos_def)

lemma shrinking_connection_id [shrink]: "shrinking ReadLengthPrefixedConnectionId"
  unfolding shrinking_def
proof
  fix r
  show "BytesRemaining (snd (ReadLengthPrefixedConnectionId r)) \<le> BytesRemaining r"
    using shrinkingD [OF shrinking_bytes(3), of r]
    by (auto simp: ReadLengthPrefixedConnectionId_def ReadConnectionId_def ReadBytes_def OnFailure_def BytesRemaining_def
      split: prod.splits option.splits)
qed

lemma shrinking_done [shrink]: "shrinking (read_done v)" "shrinking read_fail" "shrinking (\<lambda>r. read_done (h r) r)"
  by (simp_all add: shrinking_def read_done_def read_fail_def)

lemma shrinking_bind [shrink]:
  "shrinking f \<Longrightarrow> (\<And>v. shrinking (g v)) \<Longrightarrow> shrinking (\<lambda>r. read_bind (f r) g)"
  unfolding shrinking_def
  by (auto simp: read_bind_def split: prod.split option.split) (metis order_trans snd_conv)+


lemma shrinking_if [shrink]: "(b \<Longrightarrow> shrinking f) \<Longrightarrow> (\<not> b \<Longrightarrow> shrinking g) \<Longrightarrow> shrinking (\<lambda>r. if b then f r else g r)"
  "(b \<Longrightarrow> shrinking f) \<Longrightarrow> (\<not> b \<Longrightarrow> shrinking g) \<Longrightarrow> shrinking (if b then f else g)"
  by (cases b; simp)+

lemma shrinking_padding: "BytesRemaining (snd (padding_loop n r)) \<le> BytesRemaining r"
proof (induction n r rule: padding_loop.induct)
  case (1 n r)
  have "BytesRemaining (snd (ReadBytes 1 r)) \<le> BytesRemaining r" using shrinking_bytes(1) by (simp add: shrinking_def)
  then show ?case using 1 by (subst padding_loop.simps) (auto split: if_splits)
qed

lemma shrinking_eta: "shrinking (\<lambda>r. f r) \<Longrightarrow> shrinking f"
  by simp

lemmas process_defs = ProcessIetfStreamFrame_def ProcessCryptoFrame_def
  ProcessAckFrequencyFrame_def ProcessNewTokenFrame_def ProcessMessageFrame_def ProcessIetfConnectionCloseFrame_def
  ProcessPathChallengeFrame_def ProcessPathResponseFrame_def ProcessIetfResetStreamFrame_def ProcessStopSendingFrame_def
  ProcessMaxDataFrame_def ProcessMaxStreamDataFrame_def ProcessMaxStreamsFrame_def ProcessDataBlockedFrame_def
  ProcessStreamDataBlockedFrame_def ProcessStreamsBlockedFrame_def ProcessNewConnectionIdFrame_def
  ProcessRetireConnectionIdFrame_def

lemma shrinking_stream_length [shrink]: "shrinking (stream_data_length b)"
  by (rule shrinking_eta, unfold stream_data_length_def) (intro shrink)

lemma shrinking_uint32 [shrink]: "shrinking ReadUint32FromVarint62"
  by (rule shrinking_eta, unfold ReadUint32FromVarint62_def) (intro shrink)

lemma shrinking_message [shrink]: "shrinking (ProcessMessageFrame b)"
proof (rule shrinking_eta, unfold ProcessMessageFrame_def, rule shrinking_if)
  show "shrinking (\<lambda>r. case ReadRemainingPayload r of (remaining, r) \<Rightarrow> read_done (MessageFrame (of_nat (length remaining)) [] remaining) r)"
    by (simp add: shrinking_def ReadRemainingPayload_def read_done_def BytesRemaining_def)
qed (intro shrink)

lemma shrinking_frames [shrink]:
  "shrinking (ProcessIetfStreamFrame t)" "shrinking (ProcessCryptoFrame l)" "shrinking ProcessAckFrequencyFrame"
  "shrinking ProcessNewTokenFrame" "shrinking (ProcessIetfConnectionCloseFrame fr ty)" "shrinking ProcessPathChallengeFrame"
  "shrinking ProcessPathResponseFrame" "shrinking ProcessIetfResetStreamFrame" "shrinking ProcessStopSendingFrame"
  "shrinking ProcessMaxDataFrame" "shrinking ProcessMaxStreamDataFrame" "shrinking (ProcessMaxStreamsFrame ft)"
  "shrinking ProcessDataBlockedFrame" "shrinking ProcessStreamDataBlockedFrame" "shrinking (ProcessStreamsBlockedFrame ft)"
  "shrinking (ProcessNewConnectionIdFrame fr)" "shrinking ProcessRetireConnectionIdFrame"
  by (rule shrinking_eta, simp only: process_defs, intro shrink)+


lemma fs_read_mono:
  assumes "shrinking f" "\<And>v s. BytesRemaining (fs_reader (snd (k v s))) \<le> BytesRemaining (fs_reader s)"
  shows "BytesRemaining (fs_reader (snd (fs_read f k s))) \<le> BytesRemaining (fs_reader s)"
proof (cases "f (fs_reader s)")
  case (Pair v r)
  then have "BytesRemaining r \<le> BytesRemaining (fs_reader s)" by (rule shrinkingD [OF assms(1)])
  then show ?thesis using Pair assms(2) [of _ "s\<lparr>fs_reader := r\<rparr>"]
    by (auto simp: fs_read_def split: option.split intro: order_trans)
qed

lemma fs_report_mono:
  assumes "\<And>s. BytesRemaining (fs_reader (snd (k s))) \<le> BytesRemaining (fs_reader s)"
  shows "BytesRemaining (fs_reader (snd (fs_report visitor ev k s))) \<le> BytesRemaining (fs_reader s)"
  using assms [of "s\<lparr>fs_visitor := snd (visitor ev (fs_visitor s))\<rparr>"] by (simp add: fs_report_def case_prod_beta)

lemma finish_ack_mono: "BytesRemaining (fs_reader (snd (finish_ack visitor t low s))) \<le> BytesRemaining (fs_reader s)"
  by (auto simp: finish_ack_def Let_def intro!: fs_read_mono fs_report_mono shrinking_varint)

lemma count_down:
  assumes "P 0" "\<And>n. n \<noteq> 0 \<Longrightarrow> P (n - 1) \<Longrightarrow> P n"
  shows "P (n :: u64)"
proof (induction "unat n" arbitrary: n)
  case 0
  then show ?case using assms(1) by (simp add: unat_eq_0)
next
  case (Suc k)
  then have n: "n \<noteq> 0" by auto
  then have "k = unat (n - 1)" using Suc.hyps(2) by (simp add: unat_minus_one)
  then show ?case using assms(2) [OF n] Suc.hyps(1) by blast
qed

lemma ack_block_loop_mono:
  "BytesRemaining (fs_reader (snd (ack_block_loop fr visitor t n low s))) \<le> BytesRemaining (fs_reader s)"
proof (induction n arbitrary: low s rule: count_down)
  case (2 n)
  show ?case
    by (subst ack_block_loop.simps) (auto simp: 2 Let_def intro!: fs_read_mono fs_report_mono shrinking_varint)
qed (simp add: ack_block_loop.simps finish_ack_mono)

lemma ProcessIetfAckFrame_mono:
  "BytesRemaining (fs_reader (snd (ProcessIetfAckFrame fr visitor t s))) \<le> BytesRemaining (fs_reader s)"
  by (auto simp: ProcessIetfAckFrame_def Let_def intro!: fs_read_mono fs_report_mono shrinking_varint ack_block_loop_mono)

lemma shrinking_or_error [shrink]: "shrinking f \<Longrightarrow> shrinking (or_error e f)"
  by (simp add: shrinking_def or_error_def split: prod.split option.split) (metis snd_conv)

lemma shrinking_frame_parser: "frame_parser fr l t = Some p \<Longrightarrow> shrinking p"
proof -
  have pad: "shrinking (\<lambda>r. case ProcessPaddingFrame r of (n, r) \<Rightarrow> (Inr (PaddingFrame n), r))"
    and const: "shrinking (\<lambda>r. (Inr x, r))" for x
    by (simp_all add: shrinking_def case_prod_beta ProcessPaddingFrame_def shrinking_padding)
  assume "frame_parser fr l t = Some p"
  then show ?thesis
    by (simp add: frame_parser_def control_frame_parser_def pad const shrink split: if_splits) (auto intro!: shrink pad const)
qed

lemma process_payload_mono:
  assumes "process_payload fr visitor l t s = Continue s'"
  shows "BytesRemaining (fs_reader s') \<le> BytesRemaining (fs_reader s)"
proof (cases "t = IETF_ACK_ECN \<or> t = IETF_ACK")
  case True
  then show ?thesis using assms ProcessIetfAckFrame_mono [of fr visitor t s]
    by (auto simp: process_payload_def returned_def case_prod_beta split: if_splits)
next
  case False
  then show ?thesis using assms
    by (auto simp: process_payload_def returned_def Let_def dest!: shrinking_frame_parser dest: shrinkingD
      split: option.splits prod.splits sum.splits if_splits)
qed

lemma process_frame_mono:
  assumes "process_frame fr visitor l d s = Continue s'"
  shows "BytesRemaining (fs_reader s') < BytesRemaining (fs_reader s)"
proof -
  obtain t r where r: "ReadVarInt62 (fs_reader s) = (Some t, r)"
    and "process_payload fr visitor l t (s\<lparr>fs_reader := r, fs_current_received_frame_type := t\<rparr>) = Continue s'"
    using assms by (auto simp: process_frame_def returned_def Let_def split: option.splits prod.splits if_splits)
  then have "BytesRemaining (fs_reader s') \<le> BytesRemaining r" using process_payload_mono by fastforce
  then show ?thesis using ReadVarInt62_shrinks [OF r] by simp
qed

function process_frames ::
  "framer \<Rightarrow> 'v visitor \<Rightarrow> encryption_level \<Rightarrow> encryption_level \<Rightarrow> 'v framing \<Rightarrow> bool \<times> 'v framing" where
  "process_frames fr visitor header_level decrypted_level s =
     (if \<not> IsDoneReading (fs_reader s) then
        case process_frame fr visitor header_level decrypted_level s of
          Return ok s' \<Rightarrow> (ok, s')
        | Continue s' \<Rightarrow> process_frames fr visitor header_level decrypted_level s'
      else (True, s))"
  by pat_completeness auto

termination process_frames
  by (relation "measure (\<lambda>(fr, visitor, l, d, s). BytesRemaining (fs_reader s))") (auto simp: process_frame_mono)

declare process_frames.simps [simp del]

definition ProcessIetfFrameData ::
  "framer \<Rightarrow> 'v visitor \<Rightarrow> encryption_level \<Rightarrow> encryption_level \<Rightarrow> 'v framing \<Rightarrow> bool \<times> 'v framing" where
  "ProcessIetfFrameData fr visitor header_level decrypted_level s =
     (if IsDoneReading (fs_reader s) then RaiseError visitor QUIC_MISSING_PAYLOAD s
      else process_frames fr visitor header_level decrypted_level s)"

end
