(* ===== verification/Ietf_Acks.thy ===== *)
theory Ietf_Acks
  imports Ietf_Reader
begin

text \<open>
  What ack frames look like on the wire. The encoding of an ack with its \<open>k\<close> highest ranges below the first one is a function
  of the frame; the writer produces such an encoding whatever room it has, and the reader reports the
  ranges of the encoding. For arbitrary bytes the ranges that are reported are in
  descending order, separated, and between the first packet number sent and the largest acked.
\<close>

subsection \<open>A framer with the documented string functions\<close>

fun split_on :: "u8 \<Rightarrow> bytes \<Rightarrow> bytes list" where
  "split_on c [] = [[]]"
| "split_on c (x # xs) = (if x = c then [] # split_on c xs else (x # hd (split_on c xs)) # tl (split_on c xs))"

definition digits_value :: "bytes \<Rightarrow> nat" where
  "digits_value s = foldl (\<lambda>n c. 10 * n + (unat c - 48)) 0 s"

definition plain_strings :: absl_strings where
  "plain_strings = \<lparr>ab_StrCat = concat, ab_StrSplit = \<lambda>s c. split_on c s,
     ab_SimpleAtoi = \<lambda>s. if s \<noteq> [] \<and> IsAllDigits s \<and> digits_value s < 2 ^ 64 then Some (of_nat (digits_value s)) else None\<rparr>"

definition plain_framer :: framer where
  "plain_framer = \<lparr>fr_first_sending_packet_number = 1, fr_peer_ack_delay_exponent = 3, fr_local_ack_delay_exponent = 3,
     fr_reject_unexpected = True, fr_variable_length_ids = True, fr_length_prefixed_ids = True, fr_producer = None,
     fr_absl = plain_strings\<rparr>"

definition sample_ack :: ack_frame where
  "sample_ack = \<lparr>af_largest_acked = 7, af_ack_delay_time = 100, af_received_packet_times = [],
     af_packets = [Interval 1 3, Interval 5 8], af_ecn_counters_populated = False, af_ect_0_count = 0, af_ect_1_count = 0,
     af_ecn_ce_count = 0\<rparr>"


subsection \<open>Reads that depend on what follows\<close>

definition reads_when :: "(bytes \<Rightarrow> bool) \<Rightarrow> endianness \<Rightarrow> (data_reader \<Rightarrow> 'a option \<times> data_reader) \<Rightarrow> bytes \<Rightarrow> 'a \<Rightarrow> bool" where
  "reads_when P e f bs v \<longleftrightarrow>
     (\<forall>r s. P s \<and> dr_ok r \<and> dr_endianness r = e \<and> dr_rest r = bs @ s \<longrightarrow>
        (\<exists>r'. f r = (Some v, r') \<and> dr_ok r' \<and> dr_rest r' = s \<and> dr_endianness r' = e))"

lemma reads_whenI: "reads e f bs v \<Longrightarrow> reads_when P e f bs v"
  by (simp add: reads_def reads_when_def)

lemma reads_whenD:
  "reads_when P e f bs v \<Longrightarrow> P s \<Longrightarrow> dr_ok r \<Longrightarrow> dr_endianness r = e \<Longrightarrow> dr_rest r = bs @ s \<Longrightarrow>
   \<exists>r'. f r = (Some v, r') \<and> dr_ok r' \<and> dr_rest r' = s \<and> dr_endianness r' = e"
  unfolding reads_when_def by blast

lemma reads_when_bind:
  assumes "reads e f as v" "reads_when P e (g v) bs u"
  shows "reads_when P e (\<lambda>r. read_bind (f r) g) (as @ bs) u"
  unfolding reads_when_def
proof (intro allI impI)
  fix r s
  assume r: "P s \<and> dr_ok r \<and> dr_endianness r = e \<and> dr_rest r = (as @ bs) @ s"
  then obtain r1 where "f r = (Some v, r1)" "dr_ok r1" "dr_rest r1 = bs @ s" "dr_endianness r1 = e"
    using readsD [OF assms(1), of r "bs @ s"] by auto
  then show "\<exists>r'. read_bind (f r) g = (Some u, r') \<and> dr_ok r' \<and> dr_rest r' = s \<and> dr_endianness r' = e"
    using reads_whenD [OF assms(2)] r by (auto simp: read_bind_def)
qed

lemma reads_done: "reads e (read_done v) [] v"
  by (simp add: reads_def read_done_def)

lemma reads_read_bind: "reads e f as v \<Longrightarrow> reads e (g v) bs u \<Longrightarrow> reads e (\<lambda>r. read_bind (f r) g) (as @ bs) u"
  by (rule reads_bind) (simp_all add: read_bind_def)

lemmas reads_bind_done = reads_read_bind [OF _ reads_done, simplified]

lemmas reads_when_bind_done = reads_when_bind [OF _ reads_whenI [OF reads_done], simplified]


subsection \<open>The encoding of an ack\<close>

fun ack_block_bytes :: "u64 \<Rightarrow> u64 interval list \<Rightarrow> bytes" where
  "ack_block_bytes prev [] = []"
| "ack_block_bytes prev (i # is) =
     varint_bytes (prev - iv_max i - 1) @ varint_bytes (iv_Length i - 1) @ ack_block_bytes (iv_min i) is"

definition ecn_bytes :: "ack_frame \<Rightarrow> bytes" where
  "ecn_bytes f =
     (if has_ecn f then varint_bytes (af_ect_0_count f) @ varint_bytes (af_ect_1_count f) @ varint_bytes (af_ecn_ce_count f) else [])"

definition ack_type :: "ack_frame \<Rightarrow> u64" where
  "ack_type f = (if has_ecn f then IETF_ACK_ECN else IETF_ACK)"

definition lower_ranges :: "ack_frame \<Rightarrow> u64 interval list" where
  "lower_ranges f = tl (rev (af_packets f))"

definition ack_payload :: "framer \<Rightarrow> ack_frame \<Rightarrow> nat \<Rightarrow> bytes" where
  "ack_payload fr f k =
     varint_bytes (LargestAcked f) @ varint_bytes (ack_delay_time_us fr f) @ varint_bytes (of_nat k) @
     varint_bytes (iv_Length (last (af_packets f)) - 1) @
     ack_block_bytes (iv_min (last (af_packets f))) (take k (lower_ranges f)) @ ecn_bytes f"

definition ack_bytes :: "framer \<Rightarrow> ack_frame \<Rightarrow> nat \<Rightarrow> bytes" where
  "ack_bytes fr f k = varint_bytes (ack_type f) @ ack_payload fr f k"

definition ack_valid :: "framer \<Rightarrow> ack_frame \<Rightarrow> bool" where
  "ack_valid fr f \<longleftrightarrow>
     af_packets f \<noteq> [] \<and> is_ok (af_packets f) \<and> pq_Max (af_packets f) = LargestAcked f \<and>
     unat (LargestAcked f) < 2 ^ 62 \<and> unat (ack_delay_time_us fr f) < 2 ^ 62 \<and> length (af_packets f) < 2 ^ 62 \<and>
     (has_ecn f \<longrightarrow> unat (af_ect_0_count f) < 2 ^ 62 \<and> unat (af_ect_1_count f) < 2 ^ 62 \<and> unat (af_ecn_ce_count f) < 2 ^ 62)"

text \<open>The ranges below a packet number, from the highest down.\<close>

fun blocks_ok :: "u64 \<Rightarrow> u64 interval list \<Rightarrow> bool" where
  "blocks_ok prev [] \<longleftrightarrow> True"
| "blocks_ok prev (i # is) \<longleftrightarrow> iv_max i < prev \<and> iv_min i < iv_max i \<and> blocks_ok (iv_min i) is"

lemma is_ok_blocks: "is_ok (xs @ [x]) \<Longrightarrow> blocks_ok (iv_min x) (rev xs)"
proof (induction xs arbitrary: x rule: rev_induct)
  case (snoc y xs)
  then show ?case by (auto simp: is_ok_append is_ok_Cons)
qed simp

lemma blocks_ok_take: "blocks_ok prev is \<Longrightarrow> blocks_ok prev (take k is)"
proof (induction "is" arbitrary: prev k)
  case (Cons i "is")
  then show ?case by (cases k) simp_all
qed simp

lemma unat_gap: "a < b \<Longrightarrow> unat (b - a - 1 :: u64) = unat b - unat a - 1"
proof -
  assume ab: "a < b"
  then have d: "unat (b - a) = unat b - unat a" by (simp add: unat_sub)
  then have "b - a \<noteq> 0" using ab by simp
  then show ?thesis using d by (simp add: unat_minus_one)
qed

lemma unat_Length: "iv_min i < iv_max i \<Longrightarrow> unat (iv_Length i - 1) = unat (iv_max i) - unat (iv_min i) - 1"
  using unat_gap [of "iv_min i" "iv_max i"] by (simp add: iv_Length_def flip: not_less)

lemma blocks_ok_bounds:
  assumes "blocks_ok prev (i # is)" "unat prev < 2 ^ 62"
  shows "unat (prev - iv_max i - 1) < 2 ^ 62" "unat (iv_Length i - 1) < 2 ^ 62" "unat (iv_min i) < 2 ^ 62"
proof -
  have l: "iv_max i < prev" "iv_min i < iv_max i" using assms(1) by simp_all
  then have n: "unat (iv_max i) < unat prev" "unat (iv_min i) < unat (iv_max i)" by (simp_all only: word_less_nat_alt)
  show "unat (prev - iv_max i - 1) < 2 ^ 62" using n assms(2) unat_gap [OF l(1)] by linarith
  show "unat (iv_Length i - 1) < 2 ^ 62" using n assms(2) unat_Length [OF l(2)] by linarith
  show "unat (iv_min i) < 2 ^ 62" using n assms(2) by linarith
qed


subsection \<open>Writing\<close>

lemma blocks_step_writes:
  assumes "blocks_ok prev (i # is)" "unat prev < 2 ^ 62"
  shows "writes e (\<lambda>w. and_then (WriteVarInt62 (prev - iv_max i - 1) w) (WriteVarInt62 (iv_Length i - 1)))
    (varint_bytes (prev - iv_max i - 1) @ varint_bytes (iv_Length i - 1))"
  using blocks_ok_bounds [OF assms] by (intro writes_and_then varint_writes)

lemma append_ack_blocks_spec:
  assumes "blocks_ok prev is" "unat prev < 2 ^ 62" "dw_ok w"
  shows "\<exists>k w'. k \<le> length is \<and> append_ack_blocks ecn prev is n w = (n + of_nat k, w') \<and>
    appended (ack_block_bytes prev (take k is)) w w' \<and>
    (length (ack_block_bytes prev is) + ecn \<le> dw_remaining w \<longrightarrow> k = length is) \<and>
    (ecn \<le> dw_remaining w \<longrightarrow> ecn \<le> dw_remaining w') \<and>
    (k < length is \<longrightarrow> dw_remaining w < length (ack_block_bytes prev (take (Suc k) is)) + ecn)"
  using assms
proof (induction ecn prev "is" n w rule: append_ack_blocks.induct)
  case (1 ecn prev n w)
  then show ?case by (intro exI [of _ 0] exI [of _ w]) (simp add: appended_def)
next
  case (2 ecn prev i "is" n w)
  let ?g = "prev - iv_max i - 1"
  let ?a = "iv_Length i - 1"
  note b = blocks_ok_bounds [OF "2.prems"(1,2)]
  have len: "GetVarInt62Len ?g = length (varint_bytes ?g)" "GetVarInt62Len ?a = length (varint_bytes ?a)"
    using b by (simp_all only: GetVarInt62Len_eq)
  show ?case
  proof (cases "dw_remaining w < ecn \<or> dw_remaining w - ecn < length (varint_bytes ?g) + length (varint_bytes ?a)")
    case True
    then show ?thesis using "2.prems" len
      by (intro exI [of _ 0] exI [of _ w]) (auto simp: appended_def Let_def)
  next
    case False
    then have fits: "length (varint_bytes ?g @ varint_bytes ?a) \<le> dw_remaining w" by auto
    from writes_fits [OF blocks_step_writes [OF "2.prems"(1,2)] "2.prems"(3) refl fits] obtain w1 where
      w1: "and_then (WriteVarInt62 ?g w) (WriteVarInt62 ?a) = (True, w1)" "appended (varint_bytes ?g @ varint_bytes ?a) w w1"
      by blast
    have w1': "snd (and_then (WriteVarInt62 ?g w) (WriteVarInt62 ?a)) = w1" "dw_ok w1"
      "dw_remaining w1 = dw_remaining w - length (varint_bytes ?g @ varint_bytes ?a)"
      using w1 appended_remaining [OF w1(2)] by (simp_all add: appended_def)
    obtain k w' where k: "k \<le> length is" "append_ack_blocks ecn (iv_min i) is (n + 1) w1 = (n + 1 + of_nat k, w')"
      "appended (ack_block_bytes (iv_min i) (take k is)) w1 w'"
      "length (ack_block_bytes (iv_min i) is) + ecn \<le> dw_remaining w1 \<longrightarrow> k = length is"
      "ecn \<le> dw_remaining w1 \<longrightarrow> ecn \<le> dw_remaining w'"
      "k < length is \<longrightarrow> dw_remaining w1 < length (ack_block_bytes (iv_min i) (take (Suc k) is)) + ecn"
      using "2.IH" [of ?g ?a] False len w1' b(3) "2.prems"(1) by auto
    have "append_ack_blocks ecn prev (i # is) n w = (n + of_nat (Suc k), w')"
      using False len w1'(1) k(2) by (simp add: Let_def add.assoc)
    moreover have "appended (ack_block_bytes prev (take (Suc k) (i # is))) w w'"
      using appended_trans [OF w1(2) k(3)] by simp
    ultimately show ?thesis using k False w1'(3) by (intro exI [of _ "Suc k"] exI [of _ w']) auto
  qed
qed

lemma rewrite_count_spec:
  assumes w: "dw_ok w" "dw_bytes w = bs @ varint_bytes c @ cs" "pos = length bs"
    and c: "unat c < 2 ^ 62" "n \<le> c"
  shows "if length (varint_bytes n) = length (varint_bytes c)
    then \<exists>w'. rewrite_count pos c n w = (True, w') \<and> dw_ok w' \<and> dw_bytes w' = bs @ varint_bytes n @ cs \<and>
      dw_capacity w' = dw_capacity w \<and> dw_endianness w' = dw_endianness w \<and> dw_length w' = dw_length w
    else rewrite_count pos c n w = (False, w)"
proof (cases "n = c")
  case True
  then show ?thesis using w by (simp add: rewrite_count_def)
next
  case False
  then have lt: "n < c" and n62: "unat n < 2 ^ 62" using c by (auto simp: less_le word_le_nat_alt)
  note len = GetVarInt62Len_eq [OF n62] GetVarInt62Len_eq [OF c(1)]
  show ?thesis
  proof (cases "length (varint_bytes n) = length (varint_bytes c)")
    case True
    let ?cw = "w\<lparr>dw_length := pos, dw_capacity := pos + GetVarInt62Len c\<rparr>"
    let ?m = "mem_copy pos (varint_bytes n) (dw_buffer w)"
    have "length (dw_bytes w) = dw_length w" using w(1) by (simp add: dw_bytes_def dw_ok_def)
    then have l: "dw_length w = length bs + length (varint_bytes c) + length cs" "dw_length w \<le> length (dw_buffer w)"
      using w by (simp_all add: dw_ok_def)
    have "WriteVarInt62 n ?cw = store_bytes (varint_bytes n) ?cw"
      using varint_masks [of n] n62 by (auto simp: WriteVarInt62_def varint_bytes_def)
    then have "rewrite_count pos c n w = (True, w\<lparr>dw_buffer := ?m\<rparr>)"
      using lt True len by (simp add: rewrite_count_def store_bytes_def dw_remaining_def)
    moreover have "take (dw_length w) ?m = bs @ varint_bytes n @ cs"
    proof -
      have "take (dw_length w) (dw_buffer w) = bs @ varint_bytes c @ cs" using w(2) by (simp add: dw_bytes_def)
      then have "take pos (dw_buffer w) = bs" "take (length cs) (drop (pos + length (varint_bytes n)) (dw_buffer w)) = cs"
        using w(3) l True by (metis append_eq_conv_conj le_add1 min.absorb1 take_take add.assoc,
          metis append_assoc append_eq_conv_conj drop_take add_diff_cancel_left' length_append)
      then show ?thesis using w(3) l(1) True by (simp add: mem_copy_def)
    qed
    moreover have "length ?m = length (dw_buffer w)" using l True w(3) by (simp add: mem_copy_def)
    ultimately show ?thesis using w(1) True by (auto simp: dw_ok_def dw_bytes_def)
  next
    case False
    then show ?thesis using lt len by (simp add: rewrite_count_def)
  qed
qed


lemma ecn_writes: "ack_valid fr f \<Longrightarrow> writes e (append_ecn f) (ecn_bytes f)"
proof (cases "has_ecn f")
  case True
  assume "ack_valid fr f"
  then have "writes e (\<lambda>w. and_then (and_then (WriteVarInt62 (af_ect_0_count f) w) (WriteVarInt62 (af_ect_1_count f)))
      (WriteVarInt62 (af_ecn_ce_count f)))
    ((varint_bytes (af_ect_0_count f) @ varint_bytes (af_ect_1_count f)) @ varint_bytes (af_ecn_ce_count f))"
    using True by (intro writes_and_then varint_writes) (simp_all add: ack_valid_def)
  then show ?thesis using True by (simp add: ecn_bytes_def append_ecn_def writes_def)
next
  case False
  then show ?thesis using writes_Nil [of e] by (simp add: ecn_bytes_def append_ecn_def writes_def)
qed

lemma ecn_size_eq: "ack_valid fr f \<Longrightarrow> ecn_size f = length (ecn_bytes f)"
  by (simp add: ecn_size_def ecn_bytes_def ack_valid_def GetVarInt62Len_eq)

lemma ack_valid_ranges:
  assumes "ack_valid fr f"
  shows "blocks_ok (iv_min (last (af_packets f))) (lower_ranges f)"
    and "iv_min (last (af_packets f)) < iv_max (last (af_packets f))"
    and "iv_max (last (af_packets f)) = LargestAcked f + 1"
    and "unat (iv_min (last (af_packets f))) < 2 ^ 62"
    and "unat (iv_Length (last (af_packets f)) - 1) < 2 ^ 62"
    and "(of_nat (pq_NumIntervals (af_packets f)) - 1 :: u64) = of_nat (length (lower_ranges f))"
    and "unat (of_nat (length (lower_ranges f)) :: u64) = length (lower_ranges f)"
    and "length (lower_ranges f) < 2 ^ 62"
proof -
  let ?h = "last (af_packets f)"
  have p: "af_packets f \<noteq> []" "is_ok (af_packets f)" and l: "iv_max ?h - 1 = LargestAcked f" "unat (LargestAcked f) < 2 ^ 62"
    and n: "length (af_packets f) < 2 ^ 62"
    using assms by (simp_all add: ack_valid_def pq_Max_def)
  then show "blocks_ok (iv_min ?h) (lower_ranges f)"
    using is_ok_blocks [of "butlast (af_packets f)" ?h]
    by (metis append_butlast_last_id butlast_rev lower_ranges_def rev_rev_ident)
  show m: "iv_min ?h < iv_max ?h" using is_ok_nonempty p last_in_set by blast
  show x: "iv_max ?h = LargestAcked f + 1" using l(1) by (simp add: algebra_simps)
  then have "unat (iv_max ?h) \<le> 2 ^ 62" using l(2) by (simp add: unat_word_ariths)
  moreover have "unat (iv_min ?h) < unat (iv_max ?h)" using m by (simp only: word_less_nat_alt)
  ultimately show "unat (iv_min ?h) < 2 ^ 62" "unat (iv_Length ?h - 1) < 2 ^ 62" using unat_Length [OF m] by linarith+
  have "length (af_packets f) = Suc (length (lower_ranges f))" using p(1) by (simp add: lower_ranges_def)
  then show "(of_nat (pq_NumIntervals (af_packets f)) - 1 :: u64) = of_nat (length (lower_ranges f))"
    and k: "length (lower_ranges f) < 2 ^ 62" using n by (simp_all add: pq_NumIntervals_def)
  show "unat (of_nat (length (lower_ranges f)) :: u64) = length (lower_ranges f)"
    using k by (intro unat_of_nat_less) simp
qed

definition ack_head :: "framer \<Rightarrow> ack_frame \<Rightarrow> bytes" where
  "ack_head fr f = varint_bytes (ack_type f) @ varint_bytes (LargestAcked f) @ varint_bytes (ack_delay_time_us fr f)"

definition ack_count :: "ack_frame \<Rightarrow> bytes" where
  "ack_count f = varint_bytes (of_nat (length (lower_ranges f)))"

definition ack_first :: "ack_frame \<Rightarrow> bytes" where
  "ack_first f = varint_bytes (iv_Length (last (af_packets f)) - 1)"

lemma ack_head_writes:
  assumes "ack_valid fr f"
  shows "writes e (\<lambda>w. and_then (and_then (WriteVarInt62 (if has_ecn f then IETF_ACK_ECN else IETF_ACK) w)
    (WriteVarInt62 (LargestAcked f))) (WriteVarInt62 (ack_delay_time_us fr f))) (ack_head fr f)"
proof -
  have "unat (ack_type f) < 2 ^ 62" by (simp add: ack_type_def)
  then have "writes e (\<lambda>w. and_then (and_then (WriteVarInt62 (ack_type f) w)
      (WriteVarInt62 (LargestAcked f))) (WriteVarInt62 (ack_delay_time_us fr f)))
    ((varint_bytes (ack_type f) @ varint_bytes (LargestAcked f)) @ varint_bytes (ack_delay_time_us fr f))"
    using assms by (intro writes_and_then varint_writes) (simp_all add: ack_valid_def)
  then show ?thesis by (simp add: ack_head_def ack_type_def)
qed

lemma ack_bytes_eq:
  "ack_bytes fr f k = ack_head fr f @ varint_bytes (of_nat k) @ ack_first f @
     ack_block_bytes (iv_min (last (af_packets f))) (take k (lower_ranges f)) @ ecn_bytes f"
  by (simp add: ack_bytes_def ack_payload_def ack_head_def ack_first_def)

lemma append_ack_ranges_spec:
  assumes v: "ack_valid fr f" and w: "dw_ok w" and room: "length (ack_count f @ ack_first f @ ecn_bytes f) \<le> dw_remaining w"
  shows "\<exists>k \<le> length (lower_ranges f).
    (length (ack_count f @ ack_first f @ ack_block_bytes (iv_min (last (af_packets f))) (lower_ranges f) @ ecn_bytes f)
       \<le> dw_remaining w \<longrightarrow> k = length (lower_ranges f)) \<and>
    (k < length (lower_ranges f) \<longrightarrow> dw_remaining w <
      length (ack_count f @ ack_first f @ ack_block_bytes (iv_min (last (af_packets f))) (take (Suc k) (lower_ranges f)) @ ecn_bytes f)) \<and>
    (if length (varint_bytes (of_nat k)) = length (ack_count f)
     then \<exists>w'. append_ack_ranges f w = (True, w') \<and>
       appended (varint_bytes (of_nat k) @ ack_first f @
         ack_block_bytes (iv_min (last (af_packets f))) (take k (lower_ranges f)) @ ecn_bytes f) w w'
     else \<not> fst (append_ack_ranges f w))"
proof -
  let ?h = "last (af_packets f)"
  let ?L = "lower_ranges f"
  let ?c = "of_nat (length ?L) :: u64"
  note r = ack_valid_ranges [OF v]
  have c: "unat ?c < 2 ^ 62" using r(7,8) by simp
  have g: "\<not> (pq_Empty (af_packets f) \<or> pq_Max (af_packets f) \<noteq> LargestAcked f)"
    using v by (simp add: ack_valid_def pq_Empty_def)
  have "writes (dw_endianness w) (\<lambda>w. and_then (WriteVarInt62 ?c w) (WriteVarInt62 (iv_Length ?h - 1))) (ack_count f @ ack_first f)"
    unfolding ack_count_def ack_first_def using c r(5) by (intro writes_and_then varint_writes)
  from writes_fits [OF this w refl] room obtain w1 where
    w1: "and_then (WriteVarInt62 ?c w) (WriteVarInt62 (iv_Length ?h - 1)) = (True, w1)" "appended (ack_count f @ ack_first f) w w1"
    by auto
  have w1': "dw_ok w1" "dw_remaining w1 = dw_remaining w - length (ack_count f @ ack_first f)"
    using appended_remaining [OF w1(2)] w1(2) by (simp_all add: appended_def)
  obtain k w2 where k: "k \<le> length ?L" "append_ack_blocks (ecn_size f) (iv_min ?h) ?L 0 w1 = (of_nat k, w2)"
    "appended (ack_block_bytes (iv_min ?h) (take k ?L)) w1 w2"
    "length (ack_block_bytes (iv_min ?h) ?L) + ecn_size f \<le> dw_remaining w1 \<longrightarrow> k = length ?L"
    "ecn_size f \<le> dw_remaining w1 \<longrightarrow> ecn_size f \<le> dw_remaining w2"
    "k < length ?L \<longrightarrow> dw_remaining w1 < length (ack_block_bytes (iv_min ?h) (take (Suc k) ?L)) + ecn_size f"
    using append_ack_blocks_spec [OF r(1,4) w1'(1), of "ecn_size f" 0] by auto
  have body: "append_ack_ranges f w = and_then (rewrite_count (dw_length w) ?c (of_nat k) w2) (append_ecn f)"
    using g w1(1) k(2) by (simp add: append_ack_ranges_def Let_def r(6) lower_ranges_def [symmetric] and_then_def)
  have a2: "appended (ack_count f @ ack_first f @ ack_block_bytes (iv_min ?h) (take k ?L)) w w2"
    using appended_trans [OF w1(2) k(3)] by simp
  then have b2: "dw_bytes w2 = dw_bytes w @ varint_bytes ?c @ (ack_first f @ ack_block_bytes (iv_min ?h) (take k ?L))"
    and ok2: "dw_ok w2" by (simp_all add: appended_def ack_count_def)
  have l2: "dw_length w = length (dw_bytes w)" using w by (simp add: dw_bytes_def dw_ok_def)
  have kc: "(of_nat k :: u64) \<le> ?c"
    using k(1) r(7,8) by (simp add: word_le_nat_alt unat_of_nat_less)
  note rw = rewrite_count_spec [OF ok2 b2 l2 c kc]
  have more: "k < length ?L \<longrightarrow> dw_remaining w <
      length (ack_count f @ ack_first f @ ack_block_bytes (iv_min ?h) (take (Suc k) ?L) @ ecn_bytes f)"
    using k(6) w1'(2) ecn_size_eq [OF v] by auto
  have full: "length (ack_count f @ ack_first f @ ack_block_bytes (iv_min ?h) ?L @ ecn_bytes f) \<le> dw_remaining w \<longrightarrow> k = length ?L"
    using k(4) w1'(2) ecn_size_eq [OF v] by auto
  show ?thesis
  proof (cases "length (varint_bytes (of_nat k)) = length (ack_count f)")
    case True
    then obtain w3 where w3: "rewrite_count (dw_length w) ?c (of_nat k) w2 = (True, w3)" "dw_ok w3"
      "dw_bytes w3 = dw_bytes w @ varint_bytes (of_nat k) @ ack_first f @ ack_block_bytes (iv_min ?h) (take k ?L)"
      "dw_capacity w3 = dw_capacity w2" "dw_endianness w3 = dw_endianness w2" "dw_length w3 = dw_length w2"
      using rw by (auto simp: ack_count_def)
    then have a3: "appended (varint_bytes (of_nat k) @ ack_first f @ ack_block_bytes (iv_min ?h) (take k ?L)) w w3"
      using a2 True by (simp add: appended_def)
    have "length (ecn_bytes f) \<le> dw_remaining w3"
      using w3(4,6) k(5) room w1'(2) ecn_size_eq [OF v] by (auto simp: dw_remaining_def)
    then obtain w4 where "append_ecn f w3 = (True, w4)" "appended (ecn_bytes f) w3 w4"
      using writes_fits [OF ecn_writes [OF v] w3(2) refl] by blast
    then have "append_ack_ranges f w = (True, w4) \<and>
       appended (varint_bytes (of_nat k) @ ack_first f @ ack_block_bytes (iv_min ?h) (take k ?L) @ ecn_bytes f) w w4"
      using body w3(1) appended_trans [OF a3] by (simp add: and_then_def)
    then show ?thesis using k(1) full more True by auto
  next
    case False
    then have "\<not> fst (append_ack_ranges f w)" using rw body by (simp add: ack_count_def and_then_def)
    then show ?thesis using k(1) full more False by auto
  qed
qed

text \<open>An ack is written with a prefix of its ranges, all of them if they fit.\<close>

lemma append_ack_spec:
  assumes v: "ack_valid fr f" and w: "dw_ok w"
    and room: "length (ack_head fr f @ ack_count f @ ack_first f @ ecn_bytes f) \<le> dw_remaining w"
  shows "\<exists>k \<le> length (lower_ranges f).
    (length (ack_bytes fr f (length (lower_ranges f))) \<le> dw_remaining w \<longrightarrow> k = length (lower_ranges f)) \<and>
    (k < length (lower_ranges f) \<longrightarrow> dw_remaining w < length (ack_head fr f @ ack_count f @ ack_first f @
       ack_block_bytes (iv_min (last (af_packets f))) (take (Suc k) (lower_ranges f)) @ ecn_bytes f)) \<and>
    (if length (varint_bytes (of_nat k)) = length (ack_count f)
     then \<exists>w'. AppendIetfAckFrameAndTypeByte fr f w = (True, w') \<and> appended (ack_bytes fr f k) w w'
     else \<not> fst (AppendIetfAckFrameAndTypeByte fr f w))"
proof -
  from writes_fits [OF ack_head_writes [OF v] w refl] room obtain w1 where
    w1: "and_then (and_then (WriteVarInt62 (if has_ecn f then IETF_ACK_ECN else IETF_ACK) w)
      (WriteVarInt62 (LargestAcked f))) (WriteVarInt62 (ack_delay_time_us fr f)) = (True, w1)" "appended (ack_head fr f) w w1"
    by auto
  have w1': "dw_ok w1" "dw_remaining w1 = dw_remaining w - length (ack_head fr f)"
    using appended_remaining [OF w1(2)] w1(2) by (simp_all add: appended_def)
  have "AppendIetfAckFrameAndTypeByte fr f w = append_ack_ranges f w1"
    using w1(1) by (simp add: AppendIetfAckFrameAndTypeByte_def and_then_def)
  moreover have "length (ack_count f @ ack_first f @ ecn_bytes f) \<le> dw_remaining w1" using w1'(2) room by simp
  from append_ack_ranges_spec [OF v w1'(1) this] obtain k where k: "k \<le> length (lower_ranges f)"
    "length (ack_count f @ ack_first f @ ack_block_bytes (iv_min (last (af_packets f))) (lower_ranges f) @ ecn_bytes f)
       \<le> dw_remaining w1 \<longrightarrow> k = length (lower_ranges f)"
    "k < length (lower_ranges f) \<longrightarrow> dw_remaining w1 <
      length (ack_count f @ ack_first f @ ack_block_bytes (iv_min (last (af_packets f))) (take (Suc k) (lower_ranges f)) @ ecn_bytes f)"
    "if length (varint_bytes (of_nat k)) = length (ack_count f)
     then \<exists>w'. append_ack_ranges f w1 = (True, w') \<and>
       appended (varint_bytes (of_nat k) @ ack_first f @
         ack_block_bytes (iv_min (last (af_packets f))) (take k (lower_ranges f)) @ ecn_bytes f) w1 w'
     else \<not> fst (append_ack_ranges f w1)" by blast
  ultimately show ?thesis
    using w1'(2) room appended_trans [OF w1(2)]
    by (intro exI [of _ k] conjI) (auto simp: ack_bytes_eq ack_count_def split: if_splits)
qed


subsection \<open>Reading what was written\<close>

text \<open>A visitor that never stops the packet, and what it makes of a sequence of events.\<close>

definition accepts :: "'v visitor \<Rightarrow> bool" where
  "accepts visitor \<longleftrightarrow> (\<forall>ev v. fst (visitor ev v))"

definition deliver :: "'v visitor \<Rightarrow> frame_event list \<Rightarrow> 'v \<Rightarrow> 'v" where
  "deliver visitor evs v = fold (\<lambda>ev v. snd (visitor ev v)) evs v"

lemma deliver_simps [simp]:
  "deliver visitor [] v = v" "deliver visitor (ev # evs) v = deliver visitor evs (snd (visitor ev v))"
  "deliver visitor (evs @ evs') v = deliver visitor evs' (deliver visitor evs v)"
  by (simp_all add: deliver_def)

lemma fs_report_accepts:
  "accepts visitor \<Longrightarrow> fs_report visitor ev k s = k (s\<lparr>fs_visitor := deliver visitor [ev] (fs_visitor s)\<rparr>)"
  by (simp add: fs_report_def accepts_def case_prod_beta)

lemma fs_read_reads:
  "reads e f bs v \<Longrightarrow> dr_ok (fs_reader s) \<Longrightarrow> dr_endianness (fs_reader s) = e \<Longrightarrow> dr_rest (fs_reader s) = bs @ t \<Longrightarrow>
   \<exists>r. fs_read f k s = k v (s\<lparr>fs_reader := r\<rparr>) \<and> dr_ok r \<and> dr_rest r = t \<and> dr_endianness r = e"
  by (drule readsD [where r = "fs_reader s" and s = t]) (auto simp: fs_read_def)

definition range_event :: "u64 interval \<Rightarrow> frame_event" where
  "range_event i = OnAckRange (iv_min i) (iv_max i)"

definition lowest :: "u64 \<Rightarrow> u64 interval list \<Rightarrow> u64" where
  "lowest low is = (if is = [] then low else iv_min (last is))"

lemma lowest_Cons [simp]: "lowest low [] = low" "lowest low (i # is) = lowest (iv_min i) is"
  by (simp_all add: lowest_def)

lemma block_arith:
  fixes first low lo hi :: u64
  assumes "hi < low" "lo < hi" "first \<le> lo"
  shows "\<not> low < low - hi - 1 + 2" "low - 1 - (low - hi - 1) = hi" "\<not> hi - 1 < hi - lo - 1 + first" "hi - 1 - (hi - lo - 1) = lo"
proof -
  show "low - 1 - (low - hi - 1) = hi" "hi - 1 - (hi - lo - 1) = lo" by simp_all
  have n: "unat hi < unat low" "unat lo < unat hi" "unat first \<le> unat lo"
    using assms by (simp_all only: word_less_nat_alt word_le_nat_alt)
  have g: "unat (low - hi - 1) = unat low - unat hi - 1" "unat (hi - lo - 1) = unat hi - unat lo - 1"
    using assms(1,2) by (simp_all only: unat_gap)
  have b: "unat low < 2 ^ 64" "unat hi < 2 ^ 64" using unat_bound [of low] unat_bound [of hi] by simp_all
  have "unat (low - hi - 1) + unat (2::u64) < 2 ^ LENGTH(64)" using g n b by simp
  then have "unat (low - hi - 1 + 2) = unat (low - hi - 1) + unat (2::u64)" by (simp only: unat_add_lem)
  then have "unat (low - hi - 1 + 2) = unat low - unat hi - 1 + 2" using g(1) by simp
  then show "\<not> low < low - hi - 1 + 2" using n unfolding word_less_nat_alt by linarith
  have "unat (hi - lo - 1) + unat first < 2 ^ LENGTH(64)" using g n b by simp
  then have "unat (hi - lo - 1 + first) = unat (hi - lo - 1) + unat first" by (simp only: unat_add_lem)
  then have "unat (hi - lo - 1 + first) = unat hi - unat lo - 1 + unat first" by (simp only: g)
  moreover have "unat (hi - 1) = unat hi - 1" using n(2) by (intro unat_minus_one) auto
  ultimately show "\<not> hi - 1 < hi - lo - 1 + first" using n unfolding word_less_nat_alt by linarith
qed

lemma ack_blocks_read:
  assumes "accepts visitor" "blocks_ok low is" "unat low < 2 ^ 62" "\<forall>i\<in>set is. fr_first_sending_packet_number fr \<le> iv_min i"
    "length is < 2 ^ 62" "dr_ok (fs_reader s)" "dr_rest (fs_reader s) = ack_block_bytes low is @ t"
  shows "\<exists>r. ack_block_loop fr visitor ty (of_nat (length is)) low s =
      finish_ack visitor ty (lowest low is)
        (s\<lparr>fs_reader := r, fs_visitor := deliver visitor (map range_event is) (fs_visitor s)\<rparr>) \<and>
    dr_ok r \<and> dr_rest r = t \<and> dr_endianness r = dr_endianness (fs_reader s)"
  using assms(2-)
proof (induction "is" arbitrary: low s)
  case Nil
  have "s = s\<lparr>fs_reader := fs_reader s, fs_visitor := fs_visitor s\<rparr>" by simp
  then show ?case using Nil by (intro exI [of _ "fs_reader s"]) (simp add: ack_block_loop.simps)
next
  case (Cons i "is")
  let ?g = "low - iv_max i - 1"
  let ?a = "iv_Length i - 1"
  let ?e = "dr_endianness (fs_reader s)"
  have c: "of_nat (length (i # is)) \<noteq> (0::u64)" "of_nat (length (i # is)) - 1 = (of_nat (length is) :: u64)"
  proof -
    have "unat (of_nat (length (i # is)) :: u64) = length (i # is)" using Cons.prems(4) by (intro unat_of_nat_less) simp
    then show "of_nat (length (i # is)) \<noteq> (0::u64)" by (metis length_Suc_conv nat.simps(3) unat_0)
  qed simp
  note b = blocks_ok_bounds [OF Cons.prems(1,2)]
  have lt: "iv_max i < low" "iv_min i < iv_max i" "fr_first_sending_packet_number fr \<le> iv_min i" using Cons.prems by simp_all
  have a: "?a = iv_max i - iv_min i - 1" using lt(2) by (simp add: iv_Length_def flip: not_less)
  note ar = block_arith [OF lt]
  have rest: "dr_rest (fs_reader s) = varint_bytes ?g @ (varint_bytes ?a @ ack_block_bytes (iv_min i) is @ t)"
    using Cons.prems(6) by simp
  from fs_read_reads [OF varint_reads [OF b(1)] Cons.prems(5) refl rest] obtain r1 where
    r1: "\<And>k. fs_read ReadVarInt62 k s = k ?g (s\<lparr>fs_reader := r1\<rparr>)"
    and r1': "dr_ok r1" "dr_rest r1 = varint_bytes ?a @ ack_block_bytes (iv_min i) is @ t" "dr_endianness r1 = ?e"
    using readsD [OF varint_reads [OF b(1)] Cons.prems(5) refl rest] by (auto simp: fs_read_def)
  let ?s1 = "s\<lparr>fs_reader := r1\<rparr>"
  from readsD [OF varint_reads [OF b(2)], of r1 ?e "ack_block_bytes (iv_min i) is @ t"] r1' obtain r2 where
    r2: "\<And>k. fs_read ReadVarInt62 k ?s1 = k ?a (s\<lparr>fs_reader := r2\<rparr>)"
    and r2': "dr_ok r2" "dr_rest r2 = ack_block_bytes (iv_min i) is @ t" "dr_endianness r2 = ?e"
    by (auto simp: fs_read_def)
  let ?s2 = "s\<lparr>fs_reader := r2, fs_visitor := deliver visitor [range_event i] (fs_visitor s)\<rparr>"
  have step: "ack_block_loop fr visitor ty (of_nat (length (i # is))) low s = ack_block_loop fr visitor ty (of_nat (length is)) (iv_min i) ?s2"
    using c by (subst ack_block_loop.simps)
      (simp add: r1 r2 a ar ar(1) [simplified] Let_def fs_report_accepts [OF assms(1)] range_event_def del: of_nat_Suc)
  obtain r where "ack_block_loop fr visitor ty (of_nat (length is)) (iv_min i) ?s2 =
      finish_ack visitor ty (lowest (iv_min i) is) (?s2\<lparr>fs_reader := r, fs_visitor := deliver visitor (map range_event is) (fs_visitor ?s2)\<rparr>)"
    "dr_ok r" "dr_rest r = t" "dr_endianness r = ?e"
    using Cons.IH [of "iv_min i" ?s2] Cons.prems(1,3,4) b(3) r2' by auto
  then show ?case using step by (intro exI [of _ r]) simp
qed

definition ack_events :: "framer \<Rightarrow> framer \<Rightarrow> ack_frame \<Rightarrow> nat \<Rightarrow> frame_event list" where
  "ack_events fw fr f k =
     [OnAckFrameStart (LargestAcked f) (received_ack_delay fr (ack_delay_time_us fw f))] @
     map range_event (last (af_packets f) # take k (lower_ranges f)) @
     [OnAckFrameEnd (lowest (iv_min (last (af_packets f))) (take k (lower_ranges f)))]"


lemma finish_ack_read:
  assumes "accepts visitor" "ack_valid fw f" "dr_ok (fs_reader s)" "dr_rest (fs_reader s) = ecn_bytes f @ t"
  shows "\<exists>r. finish_ack visitor (ack_type f) low s =
      (True, s\<lparr>fs_reader := r, fs_visitor := deliver visitor [OnAckFrameEnd low] (fs_visitor s)\<rparr>) \<and>
    dr_ok r \<and> dr_rest r = t \<and> dr_endianness r = dr_endianness (fs_reader s)"
proof (cases "has_ecn f")
  case True
  let ?e = "dr_endianness (fs_reader s)"
  have v: "unat (af_ect_0_count f) < 2 ^ 62" "unat (af_ect_1_count f) < 2 ^ 62" "unat (af_ecn_ce_count f) < 2 ^ 62"
    using assms(2) True by (simp_all add: ack_valid_def)
  from readsD [OF varint_reads [OF v(1)] assms(3) refl] assms(4) True obtain r1 where
    r1: "ReadVarInt62 (fs_reader s) = (Some (af_ect_0_count f), r1)" "dr_ok r1" "dr_endianness r1 = ?e"
    "dr_rest r1 = varint_bytes (af_ect_1_count f) @ varint_bytes (af_ecn_ce_count f) @ t" by (auto simp: ecn_bytes_def)
  from readsD [OF varint_reads [OF v(2)] r1(2-4)] obtain r2 where
    r2: "ReadVarInt62 r1 = (Some (af_ect_1_count f), r2)" "dr_ok r2" "dr_endianness r2 = ?e"
    "dr_rest r2 = varint_bytes (af_ecn_ce_count f) @ t" by auto
  from readsD [OF varint_reads [OF v(3)] r2(2-4)] obtain r3 where
    r3: "ReadVarInt62 r2 = (Some (af_ecn_ce_count f), r3)" "dr_ok r3" "dr_endianness r3 = ?e" "dr_rest r3 = t" by auto
  then show ?thesis using True r1(1) r2(1)
    by (intro exI [of _ r3]) (simp add: finish_ack_def fs_read_def ack_type_def fs_report_accepts [OF assms(1)])
next
  case False
  have "s\<lparr>fs_visitor := v\<rparr> = s\<lparr>fs_reader := fs_reader s, fs_visitor := v\<rparr>" for v by simp
  then show ?thesis using False assms(3,4)
    by (intro exI [of _ "fs_reader s"])
       (simp add: finish_ack_def ack_type_def fs_report_accepts [OF assms(1)] ecn_bytes_def)
qed

lemma first_block_arith:
  fixes first lo largest :: u64
  assumes "lo \<le> largest" "first \<le> lo" "unat largest < 2 ^ 62"
  shows "\<not> largest < largest - lo + first" "largest - (largest - lo) = lo" "\<not> largest < first"
proof -
  have n: "unat lo \<le> unat largest" "unat first \<le> unat lo" using assms by (simp_all only: word_le_nat_alt)
  have g: "unat (largest - lo) = unat largest - unat lo" using assms(1) by (simp add: unat_sub)
  then have "unat (largest - lo) + unat first < 2 ^ LENGTH(64)" using n assms(3) by simp
  then have "unat (largest - lo + first) = unat (largest - lo) + unat first" by (simp only: unat_add_lem)
  then have "unat (largest - lo + first) = unat largest - unat lo + unat first" by (simp only: g)
  then show "\<not> largest < largest - lo + first" using n unfolding word_less_nat_alt by linarith
  show "largest - (largest - lo) = lo" by simp
  show "\<not> largest < first" using assms by simp
qed

lemma ack_read:
  assumes acc: "accepts visitor" and v: "ack_valid fw f" and k: "k \<le> length (lower_ranges f)"
    and first: "\<forall>i\<in>set (af_packets f). fr_first_sending_packet_number fr \<le> iv_min i"
    and s: "dr_ok (fs_reader s)" "dr_rest (fs_reader s) = ack_payload fw f k @ t"
  shows "\<exists>r. ProcessIetfAckFrame fr visitor (ack_type f) s =
      (True, s\<lparr>fs_reader := r, fs_visitor := deliver visitor (ack_events fw fr f k) (fs_visitor s)\<rparr>) \<and>
    dr_ok r \<and> dr_rest r = t \<and> dr_endianness r = dr_endianness (fs_reader s)"
proof -
  let ?h = "last (af_packets f)"
  let ?L = "take k (lower_ranges f)"
  let ?e = "dr_endianness (fs_reader s)"
  note r = ack_valid_ranges [OF v]
  have kk: "unat (of_nat k :: u64) = k" "k < 2 ^ 62" using k r(8) by (auto intro!: unat_of_nat_less)
  have largest: "unat (LargestAcked f) < 2 ^ 62" "unat (ack_delay_time_us fw f) < 2 ^ 62" using v by (simp_all add: ack_valid_def)
  have in_set: "\<forall>i\<in>set ?L. fr_first_sending_packet_number fr \<le> iv_min i" "fr_first_sending_packet_number fr \<le> iv_min ?h"
    using first v in_set_takeD [of _ k "lower_ranges f"] list.set_sel(2) [of "rev (af_packets f)"]
    by (auto simp: lower_ranges_def ack_valid_def)
  have "unat (LargestAcked f + 1) = unat (LargestAcked f) + 1" using largest(1) by (simp add: unat_word_ariths)
  then have le: "iv_min ?h \<le> LargestAcked f" using r(2,3) by (simp add: word_less_nat_alt word_le_nat_alt)
  have len: "iv_Length ?h - 1 = LargestAcked f - iv_min ?h" using r(2,3) by (simp add: iv_Length_def flip: not_less)
  note ar = first_block_arith [OF le in_set(2) largest(1)]
  from readsD [OF varint_reads [OF largest(1)] s(1) refl] s(2) obtain r1 where
    r1: "ReadVarInt62 (fs_reader s) = (Some (LargestAcked f), r1)" "dr_ok r1" "dr_endianness r1 = ?e"
    "dr_rest r1 = varint_bytes (ack_delay_time_us fw f) @ varint_bytes (of_nat k) @ varint_bytes (iv_Length ?h - 1) @
      ack_block_bytes (iv_min ?h) ?L @ ecn_bytes f @ t" by (auto simp: ack_payload_def)
  from readsD [OF varint_reads [OF largest(2)] r1(2-4)] obtain r2 where
    r2: "ReadVarInt62 r1 = (Some (ack_delay_time_us fw f), r2)" "dr_ok r2" "dr_endianness r2 = ?e"
    "dr_rest r2 = varint_bytes (of_nat k) @ varint_bytes (iv_Length ?h - 1) @ ack_block_bytes (iv_min ?h) ?L @ ecn_bytes f @ t" by auto
  from readsD [OF varint_reads r2(2-4)] kk obtain r3 where
    r3: "ReadVarInt62 r2 = (Some (of_nat k), r3)" "dr_ok r3" "dr_endianness r3 = ?e"
    "dr_rest r3 = varint_bytes (iv_Length ?h - 1) @ ack_block_bytes (iv_min ?h) ?L @ ecn_bytes f @ t" by auto
  from readsD [OF varint_reads [OF r(5)] r3(2-4)] obtain r4 where
    r4: "ReadVarInt62 r3 = (Some (iv_Length ?h - 1), r4)" "dr_ok r4" "dr_endianness r4 = ?e"
    "dr_rest r4 = ack_block_bytes (iv_min ?h) ?L @ ecn_bytes f @ t" by auto
  let ?ev = "[OnAckFrameStart (LargestAcked f) (received_ack_delay fr (ack_delay_time_us fw f)), range_event ?h]"
  let ?s4 = "s\<lparr>fs_reader := r4, fs_visitor := deliver visitor ?ev (fs_visitor s)\<rparr>"
  have "ProcessIetfAckFrame fr visitor (ack_type f) s = ack_block_loop fr visitor (ack_type f) (of_nat k) (iv_min ?h) ?s4"
    using r1(1) r2(1) r3(1) r4(1) ar r(3)
    by (simp add: ProcessIetfAckFrame_def fs_read_def fs_report_accepts [OF acc] len range_event_def Let_def)
  moreover have "length ?L = k" using k by simp
  ultimately obtain r5 where r5: "ProcessIetfAckFrame fr visitor (ack_type f) s = finish_ack visitor (ack_type f) (lowest (iv_min ?h) ?L)
      (?s4\<lparr>fs_reader := r5, fs_visitor := deliver visitor (map range_event ?L) (fs_visitor ?s4)\<rparr>)"
    "dr_ok r5" "dr_rest r5 = ecn_bytes f @ t" "dr_endianness r5 = ?e"
    using ack_blocks_read [OF acc blocks_ok_take [OF r(1)] r(4) in_set(1), of ?s4 "ecn_bytes f @ t" "ack_type f"] kk r4(2-) by auto
  from finish_ack_read [OF acc v, of "?s4\<lparr>fs_reader := r5, fs_visitor := deliver visitor (map range_event ?L) (fs_visitor ?s4)\<rparr>" t]
  show ?thesis using r5 by (auto simp: ack_events_def)
qed


subsection \<open>Reading arbitrary bytes\<close>

lemma u8_mask: "unat ((b::u8) AND 0x3f) < 64"
proof -
  have "b AND 0x3f = take_bit 6 b" by (simp add: take_bit_eq_mask mask_eq_exp_minus_1)
  then show ?thesis by (simp only: unsigned_take_bit_eq) (simp add: take_bit_eq_mod)
qed

lemma le_value_top:
  "unat c < 64 \<Longrightarrow> le_value [b7, b6, b5, b4, b3, b2, b1, c] < 0x4000000000000000"
  "unat c < 64 \<Longrightarrow> le_value [b3, b2, b1, c] < 0x4000000000000000" "unat c < 64 \<Longrightarrow> le_value [b1, c] < 0x4000000000000000"
  using unat_bound [of b1] unat_bound [of b2] unat_bound [of b3] unat_bound [of b4] unat_bound [of b5] unat_bound [of b6]
    unat_bound [of b7] by simp_all

lemma ReadVarInt62_bound: "ReadVarInt62 r = (Some v, r') \<Longrightarrow> unat v < 2 ^ 62"
proof -
  have w: "unat (of_nat n :: u64) < 0x4000000000000000" if "n < 0x4000000000000000" for n
    using that by (subst unat_of_nat_less) simp_all
  have one: "unat (ucast (b AND 0x3f :: u8) :: u64) < 0x4000000000000000" for b
    using u8_mask [of b] by (simp add: unsigned_ucast_eq take_bit_nat_eq_self)
  assume "ReadVarInt62 r = (Some v, r')"
  then show ?thesis
    by (auto simp: ReadVarInt62_def Let_def next_byte_def ucast_and be_word8 be_word4 be_word2
      intro!: w le_value_top u8_mask one simp del: le_value.simps split: if_splits)
qed

text \<open>A visitor that keeps the events and stops where a predicate says so.\<close>

definition logging :: "(frame_event \<Rightarrow> frame_event list \<Rightarrow> bool) \<Rightarrow> frame_event list visitor" where
  "logging p ev evs = (p ev evs, evs @ [ev])"

definition ack_end :: "bool \<Rightarrow> u64 \<Rightarrow> u64 interval list \<Rightarrow> frame_event list \<Rightarrow> bool" where
  "ack_end ok low rs evs \<longleftrightarrow> evs = [] \<and> \<not> ok \<or> evs = [OnAckFrameEnd (lowest low rs)]"

lemma read_arith:
  fixes first low gap a :: u64
  assumes "\<not> low < gap + 2" "\<not> low - 1 - gap - 1 < a + first" "unat gap < 2 ^ 62" "unat a < 2 ^ 62" "unat first < 2 ^ 62"
  shows "low - 1 - gap < low" "low - 1 - gap - 1 - a < low - 1 - gap" "first \<le> low - 1 - gap - 1 - a"
proof -
  let ?hi = "low - 1 - gap"
  have "unat gap + unat (2::u64) < 2 ^ LENGTH(64)" using assms(3) by simp
  then have "unat (gap + 2) = unat gap + unat (2::u64)" by (simp only: unat_add_lem)
  then have g: "unat gap + 2 \<le> unat low" using assms(1) by (simp add: word_less_nat_alt)
  then have "gap < low" "low - gap - 1 = ?hi" by (simp_all add: word_less_nat_alt)
  then have hi: "unat ?hi = unat low - unat gap - 1" using unat_gap [of gap low] by metis
  have "unat a + unat first < 2 ^ LENGTH(64)" using assms(4,5) by simp
  then have "unat (a + first) = unat a + unat first" by (simp only: unat_add_lem)
  moreover have "unat (?hi - 1) = unat ?hi - 1" using hi g by (intro unat_minus_one) auto
  ultimately have f: "unat a + unat first \<le> unat ?hi - 1" using assms(2) by (simp add: word_less_nat_alt)
  then have "a < ?hi" "?hi - a - 1 = ?hi - 1 - a" using hi g by (simp_all add: word_less_nat_alt)
  then have lo: "unat (?hi - 1 - a) = unat ?hi - unat a - 1" using unat_gap [of a ?hi] by metis
  show "?hi < low" "?hi - 1 - a < ?hi" "first \<le> ?hi - 1 - a"
    unfolding word_less_nat_alt word_le_nat_alt lo using hi g f by linarith+
qed

lemma first_read_arith:
  fixes first largest a :: u64
  assumes "\<not> largest < a + first" "unat a < 2 ^ 62" "unat first < 2 ^ 62" "unat largest < 2 ^ 62"
  shows "largest + 1 < largest + 2" "largest - a < largest + 1" "first \<le> largest - a"
proof -
  have "unat a + unat first < 2 ^ LENGTH(64)" using assms(2,3) by simp
  then have "unat (a + first) = unat a + unat first" by (simp only: unat_add_lem)
  then have f: "unat a + unat first \<le> unat largest" using assms(1) by (simp add: word_less_nat_alt)
  have "unat (largest + 1) = unat largest + 1" "unat (largest + 2) = unat largest + 2"
    using assms(4) by (simp_all add: unat_word_ariths)
  moreover have "unat (largest - a) = unat largest - unat a" using f by (intro unat_sub) (simp add: word_le_nat_alt)
  ultimately show "largest + 1 < largest + 2" "largest - a < largest + 1" "first \<le> largest - a"
    unfolding word_less_nat_alt word_le_nat_alt using f by linarith+
qed

lemma finish_ack_events:
  "\<exists>evs. fs_visitor (snd (finish_ack (logging p) t low s)) = fs_visitor s @ evs \<and>
     ack_end (fst (finish_ack (logging p) t low s)) low [] evs"
  by (auto simp: finish_ack_def fs_read_def fs_report_def logging_def ack_end_def Let_def split: prod.splits option.splits)

lemma ack_loop_events:
  assumes "unat (fr_first_sending_packet_number fr) < 2 ^ 62"
  shows "\<exists>rs evs. fs_visitor (snd (ack_block_loop fr (logging p) t n low s)) = fs_visitor s @ map range_event rs @ evs \<and>
    blocks_ok low rs \<and> (\<forall>i\<in>set rs. fr_first_sending_packet_number fr \<le> iv_min i) \<and>
    ack_end (fst (ack_block_loop fr (logging p) t n low s)) low rs evs"
proof (induction n arbitrary: low s rule: count_down)
  case 1
  obtain evs where "fs_visitor (snd (finish_ack (logging p) t low s)) = fs_visitor s @ evs"
    "ack_end (fst (finish_ack (logging p) t low s)) low [] evs" using finish_ack_events by blast
  then show ?case by (intro exI [of _ "[]"] exI [of _ evs]) (simp add: ack_block_loop.simps)
next
  case (2 n)
  have stop: ?case if "ack_block_loop fr (logging p) t n low s = (False, s')" "fs_visitor s' = fs_visitor s" for s'
    using that by (intro exI [of _ "[]"]) (simp add: ack_end_def)
  show ?case
  proof (cases "ReadVarInt62 (fs_reader s)")
    case (Pair g r)
    show ?thesis
    proof (cases "g = None \<or> low < the g + 2")
      case True
      then show ?thesis using Pair \<open>n \<noteq> 0\<close>
        by (intro stop [of "s\<lparr>fs_reader := r\<rparr>"]) (auto simp: ack_block_loop.simps fs_read_def split: option.split)
    next
      case False
      then obtain gap where gap: "ReadVarInt62 (fs_reader s) = (Some gap, r)" "\<not> low < gap + 2" using Pair by auto
      show ?thesis
      proof (cases "ReadVarInt62 r")
        case (Pair a r')
        show ?thesis
        proof (cases "a = None \<or> low - 1 - gap - 1 < the a + fr_first_sending_packet_number fr")
          case True
          then show ?thesis using Pair \<open>n \<noteq> 0\<close> gap
            by (intro stop [of "s\<lparr>fs_reader := r'\<rparr>"]) (auto simp: ack_block_loop.simps [of _ _ _ n] fs_read_def Let_def split: option.split)
        next
          case False
          then obtain a' where a: "ReadVarInt62 r = (Some a', r')" "\<not> low - 1 - gap - 1 < a' + fr_first_sending_packet_number fr"
            using Pair by auto
          note ar = read_arith [OF gap(2) a(2) ReadVarInt62_bound [OF gap(1)] ReadVarInt62_bound [OF a(1)] assms]
          let ?hi = "low - 1 - gap"
          let ?lo = "low - 1 - gap - 1 - a'"
          let ?ev = "OnAckRange ?lo ?hi"
          let ?s = "s\<lparr>fs_reader := r', fs_visitor := fs_visitor s @ [?ev]\<rparr>"
          have step: "ack_block_loop fr (logging p) t n low s =
              (if p ?ev (fs_visitor s) then ack_block_loop fr (logging p) t (n - 1) ?lo ?s else (False, ?s))"
            using gap a \<open>n \<noteq> 0\<close> by (subst ack_block_loop.simps) (simp add: fs_read_def fs_report_def logging_def Let_def)
          show ?thesis
          proof (cases "p ?ev (fs_visitor s)")
            case True
            obtain rs evs where "fs_visitor (snd (ack_block_loop fr (logging p) t (n - 1) ?lo ?s)) = fs_visitor ?s @ map range_event rs @ evs"
              "blocks_ok ?lo rs" "\<forall>i\<in>set rs. fr_first_sending_packet_number fr \<le> iv_min i"
              "ack_end (fst (ack_block_loop fr (logging p) t (n - 1) ?lo ?s)) ?lo rs evs"
              using "2.IH" [of ?lo ?s] by blast
            then show ?thesis using True step ar
              by (intro exI [of _ "Interval ?lo ?hi # rs"] exI [of _ evs]) (simp add: range_event_def ack_end_def)
          next
            case False
            then show ?thesis using step ar
              by (intro exI [of _ "[Interval ?lo ?hi]"] exI [of _ "[]"]) (simp add: range_event_def ack_end_def)
          qed
        qed
      qed
    qed
  qed
qed


lemma ack_first_events:
  assumes "unat (fr_first_sending_packet_number fr) < 2 ^ 62" "fr_first_sending_packet_number fr \<le> largest" "unat largest < 2 ^ 62"
  shows "\<exists>rs evs. fs_visitor (snd (fs_read ReadVarInt62 (\<lambda>n. fs_read ReadVarInt62 (\<lambda>a s.
         if a + fr_first_sending_packet_number fr > largest then (False, s)
         else fs_report (logging p) (OnAckRange (largest - a) (largest + 1)) (ack_block_loop fr (logging p) t n (largest - a)) s)) s)) =
       fs_visitor s @ map range_event rs @ evs \<and>
     blocks_ok (largest + 2) rs \<and> (\<forall>i\<in>set rs. fr_first_sending_packet_number fr \<le> iv_min i) \<and>
     (evs = [] \<and> \<not> fst (fs_read ReadVarInt62 (\<lambda>n. fs_read ReadVarInt62 (\<lambda>a s.
         if a + fr_first_sending_packet_number fr > largest then (False, s)
         else fs_report (logging p) (OnAckRange (largest - a) (largest + 1)) (ack_block_loop fr (logging p) t n (largest - a)) s)) s) \<or>
      rs \<noteq> [] \<and> evs = [OnAckFrameEnd (iv_min (last rs))])"
    (is "\<exists>rs evs. fs_visitor (snd ?X) = _ \<and> _")
proof -
  have stop: ?thesis if "?X = (False, s1)" "fs_visitor s1 = fs_visitor s" for s1
    using that by (intro exI [of _ "[]"]) simp
  obtain n r where n: "ReadVarInt62 (fs_reader s) = (n, r)" by (cases "ReadVarInt62 (fs_reader s)")
  obtain a r2 where a: "ReadVarInt62 r = (a, r2)" by (cases "ReadVarInt62 r")
  show ?thesis
  proof (cases "n = None \<or> a = None \<or> largest < the a + fr_first_sending_packet_number fr")
    case True
    then show ?thesis using n a
      by (intro stop [of "s\<lparr>fs_reader := if n = None then r else r2\<rparr>"]) (auto simp: fs_read_def split: option.split)
  next
    case False
    then obtain n' a' where na: "n = Some n'" "a = Some a'" "\<not> largest < a' + fr_first_sending_packet_number fr" by auto
    have ar: "largest + 1 < largest + 2" "largest - a' < largest + 1" "fr_first_sending_packet_number fr \<le> largest - a'"
      using first_read_arith [OF na(3) _ assms(1,3)] ReadVarInt62_bound a na(2) by blast+
    let ?lo = "largest - a'"
    let ?ev = "OnAckRange ?lo (largest + 1)"
    let ?s = "s\<lparr>fs_reader := r2, fs_visitor := fs_visitor s @ [?ev]\<rparr>"
    have step: "?X = (if p ?ev (fs_visitor s) then ack_block_loop fr (logging p) t n' ?lo ?s else (False, ?s))"
      using n a na by (simp add: fs_read_def fs_report_def logging_def)
    show ?thesis
    proof (cases "p ?ev (fs_visitor s)")
      case True
      obtain rs evs where "fs_visitor (snd (ack_block_loop fr (logging p) t n' ?lo ?s)) = fs_visitor ?s @ map range_event rs @ evs"
        "blocks_ok ?lo rs" "\<forall>i\<in>set rs. fr_first_sending_packet_number fr \<le> iv_min i"
        "ack_end (fst (ack_block_loop fr (logging p) t n' ?lo ?s)) ?lo rs evs"
        using ack_loop_events [OF assms(1)] by blast
      then show ?thesis using True step ar
        by (intro exI [of _ "Interval ?lo (largest + 1) # rs"] exI [of _ evs]) (auto simp: range_event_def ack_end_def lowest_def)
    next
      case False
      then show ?thesis using step ar
        by (intro exI [of _ "[Interval ?lo (largest + 1)]"] exI [of _ "[]"]) (simp add: range_event_def)
    qed
  qed
qed


lemma ack_truncates:
  assumes v: "ack_valid fw f" and d: "0 \<le> af_ack_delay_time f" "af_ack_delay_time f < 2 ^ 62" and w: "dw_ok w"
    and room: "GetMinAckFrameSize fw f \<le> dw_remaining w" and n: "pq_NumIntervals (af_packets f) \<le> 64"
    and first: "\<forall>i\<in>set (af_packets f). fr_first_sending_packet_number fr \<le> iv_min i" and acc: "accepts visitor"
  shows "\<exists>k w'. AppendIetfAckFrameAndTypeByte fw f w = (True, w') \<and> k \<le> length (lower_ranges f) \<and>
    appended (ack_bytes fw f k) w w' \<and>
    (k < length (lower_ranges f) \<longrightarrow> dw_remaining w < length (ack_bytes fw f (Suc k))) \<and>
    (\<forall>s t. dr_ok (fs_reader s) \<and> dr_rest (fs_reader s) = tl (ack_bytes fw f k) @ t \<longrightarrow>
      (\<exists>s'. ProcessIetfAckFrame fr visitor (ack_type f) s = (True, s') \<and> dr_rest (fs_reader s') = t \<and>
         fs_visitor s' = deliver visitor (ack_events fw fr f k) (fs_visitor s)))"
proof -
  note r = ack_valid_ranges [OF v]
  have one: "length (varint_bytes (of_nat k)) = 1" if "k < 64" for k
  proof -
    have "unat (of_nat k :: u64) = k" using that by (intro unat_of_nat_less) simp
    then show ?thesis using that by (simp add: varint_bytes_def varint1_bytes_def)
  qed
  have l: "length (lower_ranges f) < 64" using n v by (simp add: lower_ranges_def pq_NumIntervals_def ack_valid_def)
  have c: "length (ack_count f) = 1" using one [OF l] by (simp add: ack_count_def)
  have t: "varint_bytes (ack_type f) = [ucast (ack_type f)]"
    by (simp add: ack_type_def varint_bytes_def varint1_bytes_def)
  have delay: "ack_delay_time_us fw f = of_int (drop_bit (fr_local_ack_delay_exponent fw) (af_ack_delay_time f))"
  proof -
    obtain x where x: "af_ack_delay_time f = int x" "x < 2 ^ 62" using d by (cases "af_ack_delay_time f") auto
    have "(drop_bit e (of_nat x) :: u64) = of_nat (drop_bit e x)" for e
    proof -
      have "drop_bit e x < 2 ^ 62" using x(2) div_le_dividend [of x "2 ^ e"] unfolding drop_bit_eq_div by linarith
      then have "unat (of_nat (drop_bit e x) :: u64) = drop_bit e x" by (intro unat_of_nat_less) simp
      moreover have "unat (of_nat x :: u64) = x" using x(2) by (intro unat_of_nat_less) simp
      ultimately show ?thesis unfolding word_unat_eq_iff unat_drop by (simp add: drop_bit_eq_div)
    qed
    then have "(drop_bit e (of_int (af_ack_delay_time f)) :: u64) = of_int (drop_bit e (af_ack_delay_time f))" for e
      by (simp add: x(1) drop_bit_of_nat)
    then show ?thesis using d by (simp add: ack_delay_time_us_def Delta_Infinite_def)
  qed
  have "length (ack_head fw f @ ack_count f @ ack_first f @ ecn_bytes f) = GetMinAckFrameSize fw f"
    using v r(5) c t one [of 0] ecn_size_eq [OF v]
    by (simp add: GetMinAckFrameSize_def ack_head_def ack_first_def delay [symmetric] GetVarInt62Len_eq ack_valid_def pq_Empty_def
      kQuicFrameTypeSize_def ecn_size_def)
  with append_ack_spec [OF v w] room obtain k where k: "k \<le> length (lower_ranges f)"
    "k < length (lower_ranges f) \<longrightarrow> dw_remaining w < length (ack_head fw f @ ack_count f @ ack_first f @
       ack_block_bytes (iv_min (last (af_packets f))) (take (Suc k) (lower_ranges f)) @ ecn_bytes f)"
    "if length (varint_bytes (of_nat k)) = length (ack_count f)
     then \<exists>w'. AppendIetfAckFrameAndTypeByte fw f w = (True, w') \<and> appended (ack_bytes fw f k) w w'
     else \<not> fst (AppendIetfAckFrameAndTypeByte fw f w)" by auto
  moreover have "length (varint_bytes (of_nat k)) = length (ack_count f)" using one [of k] k(1) l c by simp
  moreover have "k < length (lower_ranges f) \<longrightarrow> dw_remaining w < length (ack_bytes fw f (Suc k))"
    using k(2) one [of "Suc k"] l c by (auto simp: ack_bytes_eq simp del: of_nat_Suc)
  moreover have "\<exists>s'. ProcessIetfAckFrame fr visitor (ack_type f) s = (True, s') \<and> dr_rest (fs_reader s') = t' \<and>
      fs_visitor s' = deliver visitor (ack_events fw fr f k) (fs_visitor s)"
    if "dr_ok (fs_reader s) \<and> dr_rest (fs_reader s) = tl (ack_bytes fw f k) @ t'" for s t'
    using ack_read [OF acc v k(1) first, of s t'] that t by (auto simp: ack_bytes_def)
  ultimately show ?thesis by (metis (no_types, lifting))
qed

subsection \<open>Properties\<close>



text \<open>C4: whatever bytes arrive, an ack is reported consistently. The events are the largest packet, then ranges and at the end the lowest packet;
  every range is non-empty and lies between the first packet number that was sent and the largest one, each lies below the one before with a
  gap between them, and the end is reported if and only if the whole frame was processed or the visitor itself refused the end.\<close>

theorem ack_ranges_safe:
  assumes "unat (fr_first_sending_packet_number fr) < 2 ^ 62" "fs_visitor s = []"
    "ProcessIetfAckFrame fr (logging p) t s = (ok, s')"
  shows "fs_visitor s' = [] \<and> \<not> ok \<or>
    (\<exists>largest delay rs evs. fs_visitor s' = OnAckFrameStart largest delay # map range_event rs @ evs \<and>
       blocks_ok (largest + 2) rs \<and> (\<forall>i\<in>set rs. fr_first_sending_packet_number fr \<le> iv_min i) \<and>
       (evs = [] \<and> \<not> ok \<or> rs \<noteq> [] \<and> evs = [OnAckFrameEnd (iv_min (last rs))]))"
proof -
  let ?v = "logging p"
  have stop: ?thesis if "ProcessIetfAckFrame fr ?v t s = (False, s1)" "fs_visitor s1 = []" for s1
    using that assms(3) by simp
  obtain l r where l: "ReadVarInt62 (fs_reader s) = (l, r)" by (cases "ReadVarInt62 (fs_reader s)")
  show ?thesis
  proof (cases "l = None \<or> the l < fr_first_sending_packet_number fr")
    case True
    then show ?thesis using l assms(2) by (intro stop [of "s\<lparr>fs_reader := r\<rparr>"]) (auto simp: ProcessIetfAckFrame_def fs_read_def split: option.split)
  next
    case False
    then obtain largest where largest: "ReadVarInt62 (fs_reader s) = (Some largest, r)" "\<not> largest < fr_first_sending_packet_number fr"
      using l by auto
    have b: "unat largest < 2 ^ 62" using ReadVarInt62_bound [OF largest(1)] .
    obtain d r2 where d: "ReadVarInt62 r = (d, r2)" by (cases "ReadVarInt62 r")
    show ?thesis
    proof (cases d)
      case None
      then show ?thesis using largest d assms(2) by (intro stop [of "s\<lparr>fs_reader := r2\<rparr>"]) (auto simp: ProcessIetfAckFrame_def fs_read_def)
    next
      case (Some delay)
      let ?ev = "OnAckFrameStart largest (received_ack_delay fr delay)"
      let ?k = "fs_read ReadVarInt62 (\<lambda>ack_block_count. fs_read ReadVarInt62 (\<lambda>ack_block_value s.
         if ack_block_value + fr_first_sending_packet_number fr > largest then (False, s)
         else fs_report ?v (OnAckRange (largest - ack_block_value) (largest + 1))
           (ack_block_loop fr ?v t ack_block_count (largest - ack_block_value)) s))"
      let ?s = "s\<lparr>fs_reader := r2, fs_visitor := [?ev]\<rparr>"
      define K where "K = ?k ?s"
      have "ProcessIetfAckFrame fr ?v t s = (if p ?ev [] then K else (False, ?s))"
        unfolding K_def using largest d Some assms(2)
        by (simp add: ProcessIetfAckFrame_def fs_read_def fs_report_def logging_def Let_def)
      then have X: "(ok, s') = (if p ?ev [] then K else (False, ?s))" using assms(3) by simp
      show ?thesis
      proof (cases "p ?ev []")
        case True
        then have K: "ok = fst K" "s' = snd K" using X by (cases K; simp)+
        show ?thesis using ack_first_events [OF assms(1) leI [OF largest(2)] b, of p t ?s, folded K_def] unfolding K
          by (intro disjI2 exI [of _ largest] exI [of _ "received_ack_delay fr delay"]) simp
      next
        case False
        then show ?thesis using X
          by (intro disjI2 exI [of _ largest] exI [of _ "received_ack_delay fr delay"] exI [of _ "[]"]) simp
      qed
    qed
  qed
qed


theorem ack_ranges_safe_witness:
  "\<exists>largest delay rs. fs_visitor (snd (ProcessIetfAckFrame plain_framer (logging (\<lambda>ev evs. True)) IETF_ACK
       \<lparr>fs_reader = DataReader_new [7, 12, 1, 2, 1, 1] NETWORK_BYTE_ORDER, fs_visitor = [], fs_current_received_frame_type = 2, fs_error = None\<rparr>)) =
     OnAckFrameStart largest delay # map range_event rs @ [OnAckFrameEnd (iv_min (last rs))] \<and> blocks_ok (largest + 2) rs"
proof -
  let ?s = "\<lparr>fs_reader = DataReader_new [7, 12, 1, 2, 1, 1] NETWORK_BYTE_ORDER, fs_visitor = [], fs_current_received_frame_type = 2, fs_error = None\<rparr>"
  let ?s' = "\<lparr>fs_reader = OnFailure (DataReader_new [7, 12, 1, 2, 1, 1] NETWORK_BYTE_ORDER),
    fs_visitor = [OnAckFrameStart 7 96, OnAckRange 5 8, OnAckRange 1 3, OnAckFrameEnd 1], fs_current_received_frame_type = 2, fs_error = None\<rparr>"
  have run: "ProcessIetfAckFrame plain_framer (logging (\<lambda>ev evs. True)) IETF_ACK ?s = (True, ?s')" by code_simp
  have "unat (fr_first_sending_packet_number plain_framer) < 2 ^ 62" by (simp add: plain_framer_def)
  from ack_ranges_safe [OF this _ run] show ?thesis unfolding run by fastforce
qed

end
