(* ===== verification/Ietf_Codec.thy ===== *)
theory Ietf_Codec
  imports Ietf_Acks
begin

text \<open>
  Packets of frames: what \<open>AppendIetfFrames\<close> writes, \<open>ProcessIetfFrameData\<close> reads. The encoding of a
  frame is a function of the frame; the size functions give its length, the \<open>Append\<close> functions write it, and the
  \<open>Process\<close> functions give the frame back. Two framers take part, since the exponents of the ack
  delay and the version of the two ends are their own.
\<close>

subsection \<open>Encodings\<close>

definition frame_type :: "bool \<Rightarrow> quic_frame \<Rightarrow> u64" where
  "frame_type final frame =
     (case frame of
        PaddingFrame _ \<Rightarrow> IETF_PADDING
      | StreamFrame f \<Rightarrow> IETF_STREAM + (if \<not> final then 2 else 0) + (if sf_offset f \<noteq> 0 then 4 else 0) + (if sf_fin f then 1 else 0)
      | AckFrame f \<Rightarrow> ack_type f
      | MtuDiscoveryFrame \<Rightarrow> IETF_PING
      | PingFrame \<Rightarrow> IETF_PING
      | RstStreamFrame _ _ _ _ \<Rightarrow> IETF_RST_STREAM
      | ConnectionCloseFrame f \<Rightarrow>
          if cc_close_type f = IETF_QUIC_TRANSPORT_CONNECTION_CLOSE then IETF_CONNECTION_CLOSE else IETF_APPLICATION_CLOSE
      | WindowUpdateFrame stream_id _ \<Rightarrow> if stream_id = GetInvalidStreamId then IETF_MAX_DATA else IETF_MAX_STREAM_DATA
      | BlockedFrame stream_id _ \<Rightarrow> if stream_id = GetInvalidStreamId then IETF_DATA_BLOCKED else IETF_STREAM_DATA_BLOCKED
      | MaxStreamsFrame _ uni \<Rightarrow> if uni then IETF_MAX_STREAMS_UNIDIRECTIONAL else IETF_MAX_STREAMS_BIDIRECTIONAL
      | StreamsBlockedFrame _ uni \<Rightarrow> if uni then IETF_STREAMS_BLOCKED_UNIDIRECTIONAL else IETF_STREAMS_BLOCKED_BIDIRECTIONAL
      | NewConnectionIdFrame _ _ _ _ \<Rightarrow> IETF_NEW_CONNECTION_ID
      | RetireConnectionIdFrame _ \<Rightarrow> IETF_RETIRE_CONNECTION_ID
      | NewTokenFrame _ \<Rightarrow> IETF_NEW_TOKEN
      | StopSendingFrame _ _ _ \<Rightarrow> IETF_STOP_SENDING
      | PathChallengeFrame _ \<Rightarrow> IETF_PATH_CHALLENGE
      | PathResponseFrame _ \<Rightarrow> IETF_PATH_RESPONSE
      | MessageFrame _ _ _ \<Rightarrow> if final then IETF_EXTENSION_MESSAGE_NO_LENGTH_V99 else IETF_EXTENSION_MESSAGE_V99
      | CryptoFrame _ \<Rightarrow> IETF_CRYPTO
      | HandshakeDoneFrame \<Rightarrow> IETF_HANDSHAKE_DONE
      | AckFrequencyFrame _ _ _ _ \<Rightarrow> IETF_ACK_FREQUENCY
      | StopWaitingFrame \<Rightarrow> 0
      | GoAwayFrame _ \<Rightarrow> 0)"

definition payload :: "framer \<Rightarrow> bool \<Rightarrow> quic_frame \<Rightarrow> bytes" where
  "payload fr final frame =
     (case frame of
        PaddingFrame n \<Rightarrow> replicate (nat (n - 1)) 0
      | StreamFrame f \<Rightarrow>
          varint_bytes (ucast (sf_stream_id f)) @ (if sf_offset f \<noteq> 0 then varint_bytes (sf_offset f) else []) @
          (if \<not> final then varint_bytes (ucast (sf_data_length f)) else []) @ sf_data_buffer f
      | AckFrame f \<Rightarrow> ack_payload fr f (length (lower_ranges f))
      | RstStreamFrame stream_id err off _ \<Rightarrow> varint_bytes (ucast stream_id) @ varint_bytes err @ varint_bytes off
      | ConnectionCloseFrame f \<Rightarrow>
          (let phrase = GenerateErrorString fr (cc_error_details f) (cc_quic_error_code f) in
           varint_bytes (cc_wire_error_code f) @
           (if cc_close_type f = IETF_QUIC_TRANSPORT_CONNECTION_CLOSE then varint_bytes (cc_transport_close_frame_type f) else []) @
           varint_bytes (of_nat (length phrase)) @ phrase)
      | WindowUpdateFrame stream_id max_data \<Rightarrow>
          (if stream_id = GetInvalidStreamId then [] else varint_bytes (ucast stream_id)) @ varint_bytes max_data
      | BlockedFrame stream_id offset \<Rightarrow>
          (if stream_id = GetInvalidStreamId then [] else varint_bytes (ucast stream_id)) @ varint_bytes offset
      | MaxStreamsFrame n _ \<Rightarrow> varint_bytes (ucast n)
      | StreamsBlockedFrame n _ \<Rightarrow> varint_bytes (ucast n)
      | NewConnectionIdFrame seq ret cid token \<Rightarrow> varint_bytes seq @ varint_bytes ret @ (of_nat (length cid) # cid) @ token
      | RetireConnectionIdFrame seq \<Rightarrow> varint_bytes seq
      | NewTokenFrame token \<Rightarrow> varint_bytes (of_nat (length token)) @ token
      | StopSendingFrame stream_id err _ \<Rightarrow> varint_bytes (ucast stream_id) @ varint_bytes err
      | PathChallengeFrame data \<Rightarrow> data
      | PathResponseFrame data \<Rightarrow> data
      | MessageFrame len slices _ \<Rightarrow> (if final then [] else varint_bytes (ucast len)) @ concat slices
      | CryptoFrame f \<Rightarrow> varint_bytes (cf_offset f) @ varint_bytes (ucast (cf_data_length f)) @ the (cf_data_buffer f)
      | AckFrequencyFrame seq tol delay ignore \<Rightarrow>
          varint_bytes seq @ varint_bytes tol @ varint_bytes (of_int delay) @ [if ignore then 1 else 0]
      | _ \<Rightarrow> [])"

definition frame_bytes :: "framer \<Rightarrow> bool \<Rightarrow> quic_frame \<Rightarrow> bytes" where
  "frame_bytes fr final frame = varint_bytes (frame_type final frame) @ payload fr final frame"

text \<open>What an end may send: the fields are in range, buffers have the length the frame says, and the version of the receiver allows
  the connection id. The error code of a reset follows from its wire code.\<close>

definition close_valid :: "framer \<Rightarrow> connection_close_frame \<Rightarrow> bool" where
  "close_valid fw f \<longleftrightarrow>
     cc_close_type f \<noteq> GOOGLE_QUIC_CONNECTION_CLOSE \<and> unat (cc_wire_error_code f) < 2 ^ 62 \<and>
     length (GenerateErrorString fw (cc_error_details f) (cc_quic_error_code f)) \<le> kMaxErrorStringLength \<and>
     (if cc_close_type f = IETF_QUIC_TRANSPORT_CONNECTION_CLOSE then unat (cc_transport_close_frame_type f) < 2 ^ 62
      else cc_transport_close_frame_type f = 0) \<and>
     (cc_quic_error_code f = QUIC_IETF_GQUIC_ERROR_MISSING \<longrightarrow>
        (58 \<notin> set (cc_error_details f) \<or> \<not> IsAllDigits (takeWhile (\<lambda>c. c \<noteq> 58) (cc_error_details f))) \<and>
        \<not> (cc_close_type f = IETF_QUIC_TRANSPORT_CONNECTION_CLOSE \<and> cc_wire_error_code f = 0))"

definition frame_valid :: "framer \<Rightarrow> framer \<Rightarrow> encryption_level \<Rightarrow> quic_frame \<Rightarrow> bool" where
  "frame_valid fw fr level frame \<longleftrightarrow>
     (case frame of
        PaddingFrame n \<Rightarrow> 0 < n
      | StreamFrame f \<Rightarrow> unat (sf_offset f) < 2 ^ 62 \<and> length (sf_data_buffer f) = unat (sf_data_length f)
      | AckFrame f \<Rightarrow> ack_valid fw f \<and> (\<forall>i\<in>set (af_packets f). fr_first_sending_packet_number fr \<le> iv_min i)
      | RstStreamFrame stream_id err off code \<Rightarrow>
          unat err < 2 ^ 62 \<and> unat off < 2 ^ 62 \<and> code = IetfResetStreamErrorCodeToRstStreamErrorCode err
      | ConnectionCloseFrame f \<Rightarrow> close_valid fw f
      | WindowUpdateFrame _ max_data \<Rightarrow> unat max_data < 2 ^ 62
      | BlockedFrame _ offset \<Rightarrow> unat offset < 2 ^ 62
      | StreamsBlockedFrame n _ \<Rightarrow> n \<le> GetMaxStreamCount
      | NewConnectionIdFrame seq ret cid token \<Rightarrow>
          unat seq < 2 ^ 62 \<and> ret \<le> seq \<and> IsConnectionIdLengthValidForVersion fr (length cid) \<and> length token = 16
      | RetireConnectionIdFrame seq \<Rightarrow> unat seq < 2 ^ 62
      | NewTokenFrame token \<Rightarrow> length token \<le> kMaxNewTokenTokenLength
      | StopSendingFrame _ err code \<Rightarrow> unat err < 2 ^ 62 \<and> code = IetfResetStreamErrorCodeToRstStreamErrorCode err
      | PathChallengeFrame data \<Rightarrow> length data = kQuicPathFrameBufferSize
      | PathResponseFrame data \<Rightarrow> length data = kQuicPathFrameBufferSize
      | MessageFrame len slices _ \<Rightarrow> length (concat slices) = unat len
      | CryptoFrame f \<Rightarrow> unat (cf_offset f) < 2 ^ 62 \<and> cf_level f = level \<and>
          (\<exists>data. cf_data_buffer f = Some data \<and> length data = unat (cf_data_length f))
      | AckFrequencyFrame seq tol delay _ \<Rightarrow> unat seq < 2 ^ 62 \<and> unat tol < 2 ^ 62 \<and> tol \<noteq> 0 \<and> 0 \<le> delay \<and> delay \<le> 2 ^ 24
      | StopWaitingFrame \<Rightarrow> False
      | GoAwayFrame _ \<Rightarrow> False
      | _ \<Rightarrow> True)"

text \<open>What the visitor of the receiver sees of a frame.\<close>

definition frame_events :: "framer \<Rightarrow> framer \<Rightarrow> quic_frame \<Rightarrow> frame_event list" where
  "frame_events fw fr frame =
     (case frame of
        AckFrame f \<Rightarrow> ack_events fw fr f (length (lower_ranges f))
      | MtuDiscoveryFrame \<Rightarrow> [OnFrame PingFrame]
      | MessageFrame len slices _ \<Rightarrow> [OnFrame (MessageFrame len [] (concat slices))]
      | _ \<Rightarrow> [OnFrame frame])"

text \<open>The string functions of absl, as documented, where the framer uses them.\<close>

definition strings_ok :: "absl_strings \<Rightarrow> bool" where
  "strings_ok a \<longleftrightarrow>
     (\<forall>ss. ab_StrCat a ss = concat ss) \<and>
     (\<forall>s c. ab_StrSplit a s c \<noteq> [] \<and> hd (ab_StrSplit a s c) = takeWhile (\<lambda>x. x \<noteq> c) s \<and> (length (ab_StrSplit a s c) \<ge> 2 \<longleftrightarrow> c \<in> set s)) \<and>
     (\<forall>n. n < 2 ^ 64 \<longrightarrow> ab_SimpleAtoi a (decimal n) = Some (of_nat n))"



subsection \<open>Writing\<close>

lemma writes_if:
  "(b \<Longrightarrow> writes e f as) \<Longrightarrow> (\<not> b \<Longrightarrow> writes e g bs) \<Longrightarrow> writes e (\<lambda>w. if b then f w else g w) (if b then as else bs)"
  by (cases b; simp)

lemma writes_chain: "writes e f as \<Longrightarrow> writes e g bs \<Longrightarrow> cs = as @ bs \<Longrightarrow> writes e (\<lambda>w. and_then (f w) g) cs"
  using writes_and_then by blast

lemma writes_eta: "writes e (\<lambda>w. f w) bs \<Longrightarrow> writes e f bs"
  by simp

lemma writes_padding: "writes e (WritePaddingBytes n) (replicate n 0)"
  by (rule writes_cong [OF writes_WriteBytes])
     (simp add: WritePaddingBytes_def WriteRepeatedByte_def WriteBytes_def split: option.split)

lemma unat_u32: "unat (ucast (x::u32) :: u64) = unat x"
  by (simp add: unsigned_ucast_eq take_bit_nat_eq_self less_trans [OF unat_bound])

lemma unat_u16: "unat (ucast (x::u16) :: u64) = unat x"
  by (simp add: unsigned_ucast_eq take_bit_nat_eq_self less_trans [OF unat_bound])

lemma narrow_62 [simp]: "unat (ucast (x::u32) :: u64) < 2 ^ 62" "unat (ucast (y::u16) :: u64) < 2 ^ 62"
  using unat_bound [of x] unat_bound [of y] by (simp_all add: unat_u32 unat_u16)

lemma narrow_writes: "writes e (WriteVarInt62 (ucast (x::u32))) (varint_bytes (ucast x))" "writes e (WriteVarInt62 (ucast (y::u16))) (varint_bytes (ucast y))"
  by (rule varint_writes, rule narrow_62)+

lemma write_all_bytes: "writes e (write_all WriteBytes ss) (concat ss)"
proof (induction ss)
  case Nil
  show ?case using writes_cong [OF writes_Nil] by simp
next
  case (Cons s ss)
  have "writes e (\<lambda>w. and_then (WriteBytes s w) (write_all WriteBytes ss)) (concat (s # ss))"
    by (rule writes_chain [OF writes_WriteBytes Cons]) simp
  then show ?case by (simp add: writes_def)
qed

lemma uint8_writes: "writes e (WriteUInt8 x) [x]"
  using uint_writes(1) [of e x] by simp

text \<open>Frames whose type and payload are written one after the other.\<close>

definition plain :: "quic_frame \<Rightarrow> bool" where
  "plain frame \<longleftrightarrow> (case frame of AckFrame _ \<Rightarrow> False | MessageFrame _ _ _ \<Rightarrow> False | _ \<Rightarrow> True)"

lemma stream_type_byte:
  "ucast (GetIetfStreamFrameTypeByte f final) = frame_type final (StreamFrame f)"
  by (simp add: GetIetfStreamFrameTypeByte_def frame_type_def IETF_STREAM_FRAME_LEN_BIT_def IETF_STREAM_FRAME_OFF_BIT_def
    IETF_STREAM_FRAME_FIN_BIT_def)

lemma frame_type_62: "unat (frame_type final frame) < 2 ^ 62"
  by (cases frame) (simp_all add: frame_type_def ack_type_def)

lemma type_written:
  "frame_valid fw fr l frame \<Longrightarrow> plain frame \<Longrightarrow> AppendIetfFrameType frame final w = (None, WriteVarInt62 (frame_type final frame) w)"
  by (cases frame)
     (simp_all add: AppendIetfFrameType_def plain_def stream_type_byte frame_valid_def close_valid_def frame_type_def
       split: close_type.split)


lemma stream_payload_writes:
  assumes "fr_producer fw = None" "unat (sf_offset f) < 2 ^ 62" "length (sf_data_buffer f) = unat (sf_data_length f)"
  shows "writes e (AppendIetfStreamFrame fw f final) (payload fw final (StreamFrame f))"
proof (rule writes_eta, unfold AppendIetfStreamFrame_def, rule writes_chain, rule writes_chain, rule writes_chain)
  have "sf_data_buffer f = []" if "sf_data_length f = 0" using assms(3) that by simp
  then show "writes e (write_stream_data fw f) (sf_data_buffer f)"
    using assms writes_WriteBytes [of e "sf_data_buffer f"] writes_Nil [of e]
    by (cases "sf_data_length f = 0") (simp_all add: write_stream_data_def writes_def)
  show "writes e (WriteVarInt62 (ucast (sf_stream_id f))) (varint_bytes (ucast (sf_stream_id f)))" by (rule narrow_writes)
  show "writes e (\<lambda>w. if sf_offset f \<noteq> 0 then WriteVarInt62 (sf_offset f) w else (True, w)) (if sf_offset f \<noteq> 0 then varint_bytes (sf_offset f) else [])"
    using assms(2) by (intro writes_if varint_writes writes_Nil)
  show "writes e (\<lambda>w. if \<not> final then WriteVarInt62 (ucast (sf_data_length f)) w else (True, w))
    (if \<not> final then varint_bytes (ucast (sf_data_length f)) else [])"
    by (intro writes_if narrow_writes writes_Nil)
qed (simp_all add: payload_def)

lemma crypto_payload_writes:
  assumes "fr_producer fw = None" "unat (cf_offset f) < 2 ^ 62" "cf_data_buffer f = Some data" "length data = unat (cf_data_length f)"
  shows "writes e (AppendCryptoFrame fw f) (payload fw final (CryptoFrame f))"
proof (rule writes_eta, unfold AppendCryptoFrame_def, rule writes_chain, rule writes_chain)
  show "writes e (\<lambda>w. case fr_producer fw of None \<Rightarrow> (case cf_data_buffer f of None \<Rightarrow> (False, w)
      | Some data \<Rightarrow> WriteBytes (take (unat (cf_data_length f)) data) w)
    | Some (_, WriteCryptoData) \<Rightarrow> WriteCryptoData (cf_level f) (cf_offset f) (cf_data_length f) w) data"
    using assms writes_WriteBytes [of e data] by simp
qed (use assms in \<open>auto simp: payload_def intro: varint_writes narrow_writes\<close>)

lemma close_payload_writes:
  assumes "close_valid fw f"
  shows "writes e (AppendIetfConnectionCloseFrame fw f) (payload fw final (ConnectionCloseFrame f))"
proof -
  let ?p = "GenerateErrorString fw (cc_error_details f) (cc_quic_error_code f)"
  let ?t = "cc_close_type f = IETF_QUIC_TRANSPORT_CONNECTION_CLOSE"
  have p: "TruncateErrorString ?p = ?p" "length ?p < 2 ^ 62"
    using assms by (simp_all add: close_valid_def TruncateErrorString_def kMaxErrorStringLength_def)
  have t: "?t \<or> cc_close_type f = IETF_QUIC_APPLICATION_CONNECTION_CLOSE"
    using assms by (cases "cc_close_type f") (simp_all add: close_valid_def)
  have w: "writes e (WriteVarInt62 (cc_wire_error_code f)) (varint_bytes (cc_wire_error_code f))"
    using assms by (intro varint_writes) (simp add: close_valid_def)
  have c: "writes e (\<lambda>w. if ?t then WriteVarInt62 (cc_transport_close_frame_type f) w else (True, w))
    (if ?t then varint_bytes (cc_transport_close_frame_type f) else [])"
    using assms by (intro writes_if varint_writes writes_Nil) (simp add: close_valid_def)
  have d: "writes e (WriteStringPieceVarInt62 (TruncateErrorString ?p)) (varint_bytes (of_nat (length ?p)) @ ?p)"
    using string_varint_codec(1) [OF p(2)] by (simp add: p(1))
  show ?thesis
    by (rule writes_cong [OF writes_chain [OF writes_and_then [OF w c] d]])
       (use t in \<open>auto simp: payload_def Let_def AppendIetfConnectionCloseFrame_def\<close>)
qed

lemma connection_id_payload_writes:
  assumes "frame_valid fw fr l (NewConnectionIdFrame seq ret cid token)"
  shows "writes e (AppendNewConnectionIdFrame seq ret cid token) (payload fw final (NewConnectionIdFrame seq ret cid token))"
proof -
  have v: "unat seq < 2 ^ 62" "unat ret < 2 ^ 62" "length cid < 2 ^ 8"
    using assms by (auto simp: frame_valid_def IsConnectionIdLengthValidForVersion_def word_le_nat_alt split: if_splits)
  have "writes e (AppendNewConnectionIdFrame seq ret cid token)
    (((varint_bytes seq @ varint_bytes ret) @ of_nat (length cid) # cid) @ token)"
    using v by (rule_tac writes_eta, unfold AppendNewConnectionIdFrame_def)
      (intro writes_and_then varint_writes connection_id_codec(1) writes_WriteBytes)
  then show ?thesis by (simp add: payload_def)
qed

text \<open>Every frame but acks and messages.\<close>

lemma payload_writes:
  assumes v: "frame_valid fw fr l frame" and p: "fr_producer fw = None" and "plain frame"
  shows "\<exists>P. (\<forall>w. append_payload fw frame final w = (None, P w)) \<and> writes e P (payload fw final frame)"
proof -
  have *: ?thesis if "\<And>w. append_payload fw frame final w = (None, P w)" "writes e P (payload fw final frame)" for P
    using that by blast
  have n: "writes e (\<lambda>w. (True, w)) []" by (rule writes_Nil)
  show ?thesis
  proof (cases frame)
    case (PaddingFrame k)
    then show ?thesis using v writes_padding [of e "nat (k - 1)"]
      by (intro * [of "WritePaddingBytes (nat (k - 1))"]) (simp_all add: append_payload_def payload_def frame_valid_def AppendPaddingFrame_def)
  next
    case (StreamFrame f)
    then show ?thesis using v p stream_payload_writes
      by (intro * [of "AppendIetfStreamFrame fw f final"]) (simp_all add: append_payload_def frame_valid_def)
  next
    case (RstStreamFrame sid err off c)
    have "writes e (\<lambda>w. and_then (and_then (WriteVarInt62 (ucast sid) w) (WriteVarInt62 err)) (WriteVarInt62 off))
      ((varint_bytes (ucast sid) @ varint_bytes err) @ varint_bytes off)"
      using v RstStreamFrame by (intro writes_and_then varint_writes narrow_62) (simp_all add: frame_valid_def)
    then show ?thesis using RstStreamFrame by (intro *) (auto simp: append_payload_def payload_def AppendIetfResetStreamFrame_def)
  next
    case (ConnectionCloseFrame f)
    then show ?thesis using v close_payload_writes
      by (intro * [of "AppendIetfConnectionCloseFrame fw f"]) (simp_all add: append_payload_def frame_valid_def)
  next
    case (WindowUpdateFrame sid m)
    have "writes e (\<lambda>w. and_then (WriteVarInt62 (ucast sid) w) (WriteVarInt62 m)) (varint_bytes (ucast sid) @ varint_bytes m)"
      "writes e (WriteVarInt62 m) (varint_bytes m)"
      using v WindowUpdateFrame by (auto intro!: writes_and_then varint_writes narrow_62 simp: frame_valid_def)
    then show ?thesis using WindowUpdateFrame
      by (cases "sid = GetInvalidStreamId"; intro *) (auto simp: append_payload_def payload_def AppendMaxDataFrame_def AppendMaxStreamDataFrame_def)
  next
    case (BlockedFrame sid m)
    have "writes e (\<lambda>w. and_then (WriteVarInt62 (ucast sid) w) (WriteVarInt62 m)) (varint_bytes (ucast sid) @ varint_bytes m)"
      "writes e (WriteVarInt62 m) (varint_bytes m)"
      using v BlockedFrame by (auto intro!: writes_and_then varint_writes narrow_62 simp: frame_valid_def)
    then show ?thesis using BlockedFrame
      by (cases "sid = GetInvalidStreamId"; intro *)
         (auto simp: append_payload_def payload_def AppendBlockedFrame_def AppendDataBlockedFrame_def AppendStreamDataBlockedFrame_def)
  next
    case (MaxStreamsFrame k uni)
    then show ?thesis using narrow_writes(1) [of e k]
      by (intro * [of "WriteVarInt62 (ucast k)"]) (simp_all add: append_payload_def payload_def AppendMaxStreamsFrame_def)
  next
    case (StreamsBlockedFrame k uni)
    then show ?thesis using narrow_writes(1) [of e k]
      by (intro * [of "WriteVarInt62 (ucast k)"]) (simp_all add: append_payload_def payload_def AppendStreamsBlockedFrame_def)
  next
    case (NewConnectionIdFrame seq ret cid token)
    then show ?thesis using v connection_id_payload_writes
      by (intro * [of "AppendNewConnectionIdFrame seq ret cid token"]) (simp_all add: append_payload_def)
  next
    case (RetireConnectionIdFrame seq)
    then show ?thesis using v varint_writes [of seq e]
      by (intro * [of "WriteVarInt62 seq"]) (simp_all add: append_payload_def payload_def AppendRetireConnectionIdFrame_def frame_valid_def)
  next
    case (NewTokenFrame token)
    then have "unat (of_nat (length token) :: u64) < 2 ^ 62"
      using v by (subst unat_of_nat_less) (simp_all add: frame_valid_def kMaxNewTokenTokenLength_def)
    then have "writes e (\<lambda>w. and_then (WriteVarInt62 (of_nat (length token)) w) (WriteBytes token)) (varint_bytes (of_nat (length token)) @ token)"
      by (intro writes_and_then varint_writes writes_WriteBytes)
    then show ?thesis using NewTokenFrame by (intro *) (auto simp: append_payload_def payload_def AppendNewTokenFrame_def)
  next
    case (StopSendingFrame sid err c)
    have "writes e (\<lambda>w. and_then (WriteVarInt62 (ucast sid) w) (WriteVarInt62 err)) (varint_bytes (ucast sid) @ varint_bytes err)"
      using v StopSendingFrame by (intro writes_and_then varint_writes narrow_62) (simp_all add: frame_valid_def)
    then show ?thesis using StopSendingFrame by (intro *) (auto simp: append_payload_def payload_def AppendStopSendingFrame_def)
  next
    case (PathChallengeFrame data)
    then show ?thesis by (intro * [of "WriteBytes data"]) (simp_all add: append_payload_def payload_def AppendPathChallengeFrame_def writes_WriteBytes)
  next
    case (PathResponseFrame data)
    then show ?thesis by (intro * [of "WriteBytes data"]) (simp_all add: append_payload_def payload_def AppendPathResponseFrame_def writes_WriteBytes)
  next
    case (CryptoFrame f)
    then show ?thesis using v p crypto_payload_writes
      by (intro * [of "AppendCryptoFrame fw f"]) (auto simp: append_payload_def frame_valid_def)
  next
    case (AckFrequencyFrame seq tol d ign)
    have "unat (of_int d :: u64) < 2 ^ 62"
      using v AckFrequencyFrame by (cases d) (auto simp: frame_valid_def unat_of_nat_less)
    then have "writes e (\<lambda>w. and_then (and_then (and_then (WriteVarInt62 seq w) (WriteVarInt62 tol)) (WriteVarInt62 (of_int d)))
        (WriteUInt8 (if ign then 1 else 0)))
      (((varint_bytes seq @ varint_bytes tol) @ varint_bytes (of_int d)) @ [if ign then 1 else 0])"
      using v AckFrequencyFrame by (intro writes_and_then varint_writes uint8_writes) (simp_all add: frame_valid_def)
    then show ?thesis using AckFrequencyFrame by (intro *) (auto simp: append_payload_def payload_def AppendAckFrequencyFrame_def)
  qed (use assms n in \<open>auto simp: append_payload_def payload_def plain_def frame_valid_def intro: *\<close>)
qed


subsection \<open>Reading\<close>

text \<open>The last stream or message frame takes all that follows it, padding takes the zeros that follow it.\<close>

definition follows :: "bool \<Rightarrow> quic_frame \<Rightarrow> bytes \<Rightarrow> bool" where
  "follows final frame s \<longleftrightarrow>
     (case frame of
        PaddingFrame _ \<Rightarrow> s = [] \<or> hd s \<noteq> 0
      | StreamFrame _ \<Rightarrow> final \<longrightarrow> s = []
      | MessageFrame _ _ _ \<Rightarrow> final \<longrightarrow> s = []
      | _ \<Rightarrow> True)"

lemma follows_eq:
  "follows final (PaddingFrame n) = (\<lambda>s. s = [] \<or> hd s \<noteq> 0)" "follows final (StreamFrame f) = (\<lambda>s. final \<longrightarrow> s = [])"
  "follows final (MessageFrame len slices d) = (\<lambda>s. final \<longrightarrow> s = [])"
  by (simp_all add: follows_def fun_eq_iff)

definition parses :: "(bytes \<Rightarrow> bool) \<Rightarrow> endianness \<Rightarrow> frame_parser \<Rightarrow> bytes \<Rightarrow> quic_frame \<Rightarrow> bool" where
  "parses P e p bs v \<longleftrightarrow>
     (\<forall>r s. P s \<and> dr_ok r \<and> dr_endianness r = e \<and> dr_rest r = bs @ s \<longrightarrow>
        (\<exists>r'. p r = (Inr v, r') \<and> dr_ok r' \<and> dr_rest r' = s \<and> dr_endianness r' = e))"

lemma parses_or_error: "reads_when P e f bs v \<Longrightarrow> parses P e (or_error q f) bs v"
  unfolding parses_def reads_when_def or_error_def by fastforce

lemmas parses_reads = parses_or_error [OF reads_whenI]

lemma reads_cong: "reads e f bs v \<Longrightarrow> bs = bs' \<Longrightarrow> reads e f bs' v"
  by simp

lemma reads_if: "reads e (if b then f else g) bs v \<longleftrightarrow> (if b then reads e f bs v else reads e g bs v)"
  by simp

lemma u32_u64: "ucast (ucast (x::u32) :: u64) = x" "(of_nat (unat x) :: u64) = ucast x"
proof -
  show "ucast (ucast x :: u64) = x" by (rule bit_word_eqI) (auto simp: bit_simps)
  have "unat x < 2 ^ 64" using unat_bound [of x] by simp
  then show "(of_nat (unat x) :: u64) = ucast x" by (simp add: word_unat_eq_iff unat_u32 unat_of_nat_less)
qed

lemma uint32_reads: "reads e ReadUint32FromVarint62 (varint_bytes (ucast (x::u32))) x"
proof -
  have "\<not> (ucast x :: u64) > ucast kMaxQuicStreamId"
    using unat_bound [of x] by (simp add: word_less_nat_alt unat_u32 kMaxQuicStreamId_def)
  then have "reads e (\<lambda>r. read_bind (ReadVarInt62 r)
      (\<lambda>temp. if temp > ucast kMaxQuicStreamId then read_fail else read_done (ucast temp))) (varint_bytes (ucast x) @ []) x"
    using reads_done [of e x] by (intro reads_read_bind [OF varint_reads [OF narrow_62(1)]]) (simp add: u32_u64)
  then show ?thesis by (simp add: ReadUint32FromVarint62_def reads_def)
qed

lemma string_reads: "length bs = n \<Longrightarrow> reads e (ReadStringPiece n) bs bs"
  using reads_ReadBytes [of e bs] by (auto simp: reads_def ReadBytes_def ReadStringPiece_def)


lemma reads_guard: "\<not> b \<Longrightarrow> reads e g bs v \<Longrightarrow> reads e (if b then read_fail else g) bs v"
  "\<not> b \<Longrightarrow> reads e (\<lambda>r. g r) bs v \<Longrightarrow> reads e (\<lambda>r. if b then read_fail r else g r) bs v"
  by simp_all

lemma u16_u64: "ucast (ucast (y::u16) :: u64) = y" "\<not> (0xffff :: u64) < ucast y"
proof -
  show "ucast (ucast y :: u64) = y" by (rule bit_word_eqI) (auto simp: bit_simps)
  show "\<not> (0xffff :: u64) < ucast y" using unat_bound [of y] by (simp add: word_less_nat_alt unat_u16)
qed

lemma reads_eta: "reads e (\<lambda>r. f r) bs v \<Longrightarrow> reads e f bs v"
  by simp

lemma crypto_reads:
  assumes "unat (cf_offset f) < 2 ^ 62" "cf_level f = level" "cf_data_buffer f = Some data" "length data = unat (cf_data_length f)"
  shows "reads e (ProcessCryptoFrame level) (payload fw final (CryptoFrame f)) (CryptoFrame f)"
proof -
  let ?v = "\<lambda>d. CryptoFrame \<lparr>cf_level = level, cf_offset = cf_offset f, cf_data_length = cf_data_length f, cf_data_buffer = Some d\<rparr>"
  have d: "reads e (\<lambda>r. read_bind (ReadStringPiece (unat (cf_data_length f)) r) (\<lambda>d. read_done (?v d))) data (?v data)"
    by (rule reads_bind_done [OF string_reads [OF assms(4)]])
  have "reads e (ProcessCryptoFrame level) (varint_bytes (cf_offset f) @ varint_bytes (ucast (cf_data_length f)) @ data) (?v data)"
    by (rule reads_eta, unfold ProcessCryptoFrame_def,
        rule reads_read_bind [OF varint_reads [OF assms(1)]], rule reads_read_bind [OF varint_reads [OF narrow_62(2)]])
       (use d in \<open>simp add: u16_u64\<close>)
  then show ?thesis using assms by (cases f) (simp add: payload_def)
qed

lemma new_token_reads:
  assumes "length token \<le> kMaxNewTokenTokenLength"
  shows "reads e ProcessNewTokenFrame (varint_bytes (of_nat (length token)) @ token) (NewTokenFrame token)"
proof -
  have n: "unat (of_nat (length token) :: u64) = length token"
    using assms by (intro unat_of_nat_less) (simp add: kMaxNewTokenTokenLength_def)
  then have v: "unat (of_nat (length token) :: u64) < 2 ^ 62" using assms by (simp add: kMaxNewTokenTokenLength_def)
  have d: "reads e (\<lambda>r. read_bind (ReadStringPiece (length token) r) (\<lambda>d. read_done (NewTokenFrame d))) token (NewTokenFrame token)"
    by (rule reads_bind_done [OF string_reads [OF refl]])
  show ?thesis
    by (rule reads_eta, unfold ProcessNewTokenFrame_def, rule reads_read_bind [OF varint_reads [OF v]])
       (use d n assms in simp)
qed

lemma ack_frequency_reads:
  assumes "unat seq < 2 ^ 62" "unat tol < 2 ^ 62" "tol \<noteq> 0" "0 \<le> delay" "delay \<le> 2 ^ 24"
  shows "reads e ProcessAckFrequencyFrame (varint_bytes seq @ varint_bytes tol @ varint_bytes (of_int delay) @ [if ignore then 1 else 0])
    (AckFrequencyFrame seq tol delay ignore)"
proof -
  obtain n where n: "delay = int n" "n \<le> 2 ^ 24" using assms(4,5) by (cases delay) auto
  have u: "unat (of_int delay :: u64) = n" using n by (simp add: unat_of_nat_less)
  then have v: "unat (of_int delay :: u64) < 2 ^ 62" "\<not> kMaxAckDelayUsBound < (of_int delay :: u64)"
    using n(2) by (simp_all add: kMaxAckDelayUsBound_def word_less_nat_alt)
  have same: "int (unat (of_int delay :: u64)) = delay" using u n(1) by simp
  let ?i = "(if ignore then 1 else 0) :: u8"
  have i: "reads e (\<lambda>r. read_bind (ReadUInt8 r) (\<lambda>i. if i > 1 then read_fail else read_done (AckFrequencyFrame seq tol (int (unat (of_int delay :: u64))) (i \<noteq> 0))))
      ([?i] @ []) (AckFrequencyFrame seq tol delay ignore)"
    by (rule reads_read_bind [OF uint_reads(1)], cases ignore) (use same in \<open>simp_all add: reads_done\<close>)
  have d: "reads e (\<lambda>r. read_bind (ReadVarInt62 r) (\<lambda>max_ack_delay_us r. if max_ack_delay_us > kMaxAckDelayUsBound then read_fail r
         else read_bind (ReadUInt8 r) (\<lambda>ignore_order. if ignore_order > 1 then read_fail
           else read_done (AckFrequencyFrame seq tol (int (unat max_ack_delay_us)) (ignore_order \<noteq> 0)))))
      (varint_bytes (of_int delay) @ [?i]) (AckFrequencyFrame seq tol delay ignore)"
    by (rule reads_read_bind [OF varint_reads [OF v(1)]]) (use i v(2) in simp)
  show ?thesis
    by (rule reads_eta, unfold ProcessAckFrequencyFrame_def, rule reads_read_bind [OF varint_reads [OF assms(1)]],
        rule reads_read_bind [OF varint_reads [OF assms(2)]])
       (use d assms(3) in simp)
qed

lemma connection_id_reads:
  assumes "unat seq < 2 ^ 62" "ret \<le> seq" "IsConnectionIdLengthValidForVersion fr (length cid)" "length token = 16"
  shows "reads e (ProcessNewConnectionIdFrame fr) (varint_bytes seq @ varint_bytes ret @ (of_nat (length cid) # cid) @ token)
    (NewConnectionIdFrame seq ret cid token)"
proof -
  have v: "unat ret < 2 ^ 62" using assms(1,2) by (simp add: word_le_nat_alt)
  have c: "length cid < 2 ^ 8" using assms(3) by (auto simp: IsConnectionIdLengthValidForVersion_def split: if_splits)
  have t: "reads e (\<lambda>r. read_bind (ReadBytes 16 r) (\<lambda>t. read_done (NewConnectionIdFrame seq ret cid t))) token
      (NewConnectionIdFrame seq ret cid token)"
    using reads_bind_done [OF reads_ReadBytes [of e token]] assms(4) by simp
  have d: "reads e (\<lambda>r. read_bind (ReadLengthPrefixedConnectionId r) (\<lambda>c r.
         if \<not> IsConnectionIdLengthValidForVersion fr (length c) then read_fail r
         else read_bind (ReadBytes 16 r) (\<lambda>t. read_done (NewConnectionIdFrame seq ret c t))))
      ((of_nat (length cid) # cid) @ token) (NewConnectionIdFrame seq ret cid token)"
    by (rule reads_read_bind [OF connection_id_codec(2) [OF c]]) (use t assms(3) in simp)
  show ?thesis
    by (rule reads_eta, unfold ProcessNewConnectionIdFrame_def, rule reads_read_bind [OF varint_reads [OF assms(1)]],
        rule reads_read_bind [OF varint_reads [OF v]])
       (use d leD [OF assms(2)] in simp)
qed


lemma pairs_read:
  assumes "unat a < 2 ^ 62" "unat b < 2 ^ 62"
  shows "reads e ProcessIetfResetStreamFrame (varint_bytes (ucast sid) @ varint_bytes a @ varint_bytes b)
      (RstStreamFrame sid a b (IetfResetStreamErrorCodeToRstStreamErrorCode a))"
    "reads e ProcessStopSendingFrame (varint_bytes (ucast sid) @ varint_bytes a)
      (StopSendingFrame sid a (IetfResetStreamErrorCodeToRstStreamErrorCode a))"
    "reads e ProcessMaxStreamDataFrame (varint_bytes (ucast sid) @ varint_bytes a) (WindowUpdateFrame sid a)"
    "reads e ProcessStreamDataBlockedFrame (varint_bytes (ucast sid) @ varint_bytes a) (BlockedFrame sid a)"
    "reads e ProcessMaxDataFrame (varint_bytes a) (WindowUpdateFrame GetInvalidStreamId a)"
    "reads e ProcessDataBlockedFrame (varint_bytes a) (BlockedFrame GetInvalidStreamId a)"
    "reads e ProcessRetireConnectionIdFrame (varint_bytes a) (RetireConnectionIdFrame a)"
  by (rule reads_eta, simp only: process_defs,
      (rule reads_bind_done reads_read_bind | rule uint32_reads | rule varint_reads [OF assms(1)] varint_reads [OF assms(2)])+)+

lemma streams_read:
  "reads e (ProcessMaxStreamsFrame t) (varint_bytes (ucast n)) (MaxStreamsFrame n (t = IETF_MAX_STREAMS_UNIDIRECTIONAL))"
  "n \<le> GetMaxStreamCount \<Longrightarrow> reads e (ProcessStreamsBlockedFrame t) (varint_bytes (ucast n)) (StreamsBlockedFrame n (t = IETF_STREAMS_BLOCKED_UNIDIRECTIONAL))"
proof -
  show "reads e (ProcessMaxStreamsFrame t) (varint_bytes (ucast n)) (MaxStreamsFrame n (t = IETF_MAX_STREAMS_UNIDIRECTIONAL))"
    by (rule reads_eta, simp only: process_defs, rule reads_bind_done, rule uint32_reads)
  assume n: "n \<le> GetMaxStreamCount"
  have "reads e (ProcessStreamsBlockedFrame t) (varint_bytes (ucast n) @ []) (StreamsBlockedFrame n (t = IETF_STREAMS_BLOCKED_UNIDIRECTIONAL))"
    by (rule reads_eta, simp only: process_defs, rule reads_read_bind [OF uint32_reads]) (use leD [OF n] reads_done in simp)
  then show "reads e (ProcessStreamsBlockedFrame t) (varint_bytes (ucast n)) (StreamsBlockedFrame n (t = IETF_STREAMS_BLOCKED_UNIDIRECTIONAL))" by simp
qed

lemma path_reads:
  assumes "length data = kQuicPathFrameBufferSize"
  shows "reads e ProcessPathChallengeFrame data (PathChallengeFrame data)" "reads e ProcessPathResponseFrame data (PathResponseFrame data)"
  using reads_ReadBytes [of e data] assms
  by (rule_tac reads_eta, simp only: process_defs, rule_tac reads_bind_done, simp)+


lemma remaining_rest: "dr_ok r \<Longrightarrow> BytesRemaining r = length (dr_rest r)"
  by (auto simp: BytesRemaining_def dr_rest_def dr_ok_def min_def)

lemma reads_when_plain: "reads_when (\<lambda>s. b \<longrightarrow> s = []) e f bs v \<Longrightarrow> \<not> b \<Longrightarrow> reads e f bs v"
  by (simp add: reads_when_def reads_def)

lemma stream_tail_reads:
  assumes "length data = unat (n::u16)"
  shows "reads_when (\<lambda>s. final \<longrightarrow> s = []) e (\<lambda>r. read_bind (stream_data_length (\<not> final) r) (\<lambda>n r. read_bind (ReadStringPiece (unat n) r) (\<lambda>d. read_done (v n d))))
    ((if final then [] else varint_bytes (ucast n)) @ data) (v n data)"
proof -
  have d: "reads e (\<lambda>r. read_bind (ReadStringPiece (unat n) r) (\<lambda>d. read_done (v n d))) data (v n data)"
    by (rule reads_bind_done [OF string_reads [OF assms]])
  show ?thesis
  proof (cases final)
    case True
    have n: "of_nat (length data) = n" using assms by simp
    show ?thesis unfolding reads_when_def
    proof (intro allI impI)
      fix r s
      assume "(final \<longrightarrow> s = []) \<and> dr_ok r \<and> dr_endianness r = e \<and> dr_rest r = ((if final then [] else varint_bytes (ucast n)) @ data) @ s"
      then have r: "s = []" "dr_ok r" "dr_endianness r = e" "dr_rest r = data @ s" using True by simp_all
      then have "stream_data_length (\<not> final) r = (Some n, r)"
        using True n by (simp add: stream_data_length_def read_done_def remaining_rest)
      then show "\<exists>r'. read_bind (stream_data_length (\<not> final) r) (\<lambda>n r. read_bind (ReadStringPiece (unat n) r) (\<lambda>d. read_done (v n d))) =
          (Some (v n data), r') \<and> dr_ok r' \<and> dr_rest r' = s \<and> dr_endianness r' = e"
        using readsD [OF d r(2-4)] by (simp add: read_bind_def)
    qed
  next
    case False
    have "reads e (stream_data_length True) (varint_bytes (ucast n) @ []) n"
      by (rule reads_eta, unfold stream_data_length_def if_True, rule reads_read_bind [OF varint_reads [OF narrow_62(2)]])
         (simp add: u16_u64 reads_done)
    then have "reads e (stream_data_length True) (varint_bytes (ucast n)) n" by simp
    then show ?thesis using False
      by (simp add: reads_whenI reads_read_bind [where g = "\<lambda>n r. read_bind (ReadStringPiece (unat n) r) (\<lambda>d. read_done (v n d))", OF _ d])
  qed
qed

lemma stream_reads:
  assumes "unat (sf_offset f) < 2 ^ 62" "length (sf_data_buffer f) = unat (sf_data_length f)"
  shows "reads_when (\<lambda>s. final \<longrightarrow> s = []) e (ProcessIetfStreamFrame (ucast (frame_type final (StreamFrame f))))
    (payload fw final (StreamFrame f)) (StreamFrame f)"
proof -
  let ?t = "ucast (frame_type final (StreamFrame f)) :: u8"
  have bits: "(?t AND IETF_STREAM_FRAME_OFF_BIT \<noteq> 0) = (sf_offset f \<noteq> 0)" "(?t AND IETF_STREAM_FRAME_LEN_BIT \<noteq> 0) = (\<not> final)"
    "(?t AND IETF_STREAM_FRAME_FIN_BIT \<noteq> 0) = sf_fin f"
    by (cases final; cases "sf_fin f"; cases "sf_offset f = 0";
        simp add: frame_type_def IETF_STREAM_FRAME_OFF_BIT_def IETF_STREAM_FRAME_LEN_BIT_def IETF_STREAM_FRAME_FIN_BIT_def)+
  let ?v = "\<lambda>off n d. StreamFrame \<lparr>sf_stream_id = sf_stream_id f, sf_fin = sf_fin f, sf_offset = off, sf_data_length = n, sf_data_buffer = d\<rparr>"
  let ?o = "if sf_offset f \<noteq> 0 then varint_bytes (sf_offset f) else []"
  have o: "reads e (\<lambda>r. if sf_offset f \<noteq> 0 then ReadVarInt62 r else read_done 0 r) ?o (sf_offset f)"
    using varint_reads [OF assms(1)] reads_done [of e "0::u64"] by (cases "sf_offset f = 0") simp_all
  have "reads_when (\<lambda>s. final \<longrightarrow> s = []) e (ProcessIetfStreamFrame ?t)
      (varint_bytes (ucast (sf_stream_id f)) @ ?o @ (if final then [] else varint_bytes (ucast (sf_data_length f))) @ sf_data_buffer f)
      (?v (sf_offset f) (sf_data_length f) (sf_data_buffer f))"
    unfolding ProcessIetfStreamFrame_def bits
    by (rule reads_when_bind [OF uint32_reads], rule reads_when_bind [OF o], rule stream_tail_reads [OF assms(2)])
  moreover have "?v (sf_offset f) (sf_data_length f) (sf_data_buffer f) = StreamFrame f" by simp
  moreover have "payload fw final (StreamFrame f) = varint_bytes (ucast (sf_stream_id f)) @ ?o @
      (if final then [] else varint_bytes (ucast (sf_data_length f))) @ sf_data_buffer f"
    by (cases final) (simp_all add: payload_def)
  ultimately show ?thesis by metis
qed

lemma message_reads:
  assumes "length (concat slices) = unat (len::u16)"
  shows "reads_when (\<lambda>s. final \<longrightarrow> s = []) e (ProcessMessageFrame final) (payload fw final (MessageFrame len slices d))
    (MessageFrame len [] (concat slices))"
proof (cases final)
  case True
  have n: "of_nat (length (concat slices)) = len" using assms by simp
  then show ?thesis using True unfolding reads_when_def
    by (auto simp: ProcessMessageFrame_def ReadRemainingPayload_def read_done_def payload_def dr_rest_def dr_ok_def PeekRemainingPayload_def)
next
  case False
  have "reads e (ProcessMessageFrame False) (varint_bytes (ucast len) @ concat slices) (MessageFrame (ucast (ucast len :: u64)) [] (concat slices))"
    by (rule reads_eta, unfold ProcessMessageFrame_def if_False, rule reads_read_bind [OF varint_reads [OF narrow_62(2)]],
        rule reads_bind_done, rule string_reads) (simp add: assms unat_u16)
  then show ?thesis using False by (intro reads_whenI) (simp add: payload_def u16_u64)
qed


lemma done_rest: "dr_ok r \<Longrightarrow> IsDoneReading r \<longleftrightarrow> dr_rest r = []"
  by (auto simp: IsDoneReading_def dr_rest_def dr_ok_def)

lemma peek_rest: "dr_ok r \<Longrightarrow> dr_rest r \<noteq> [] \<Longrightarrow> PeekByte r = Inr (hd (dr_rest r))"
  by (auto simp: PeekByte_def dr_rest_def dr_ok_def hd_drop_conv_nth)

lemma padding_reads:
  assumes "dr_ok r" "dr_rest r = replicate k 0 @ s" "s = [] \<or> hd s \<noteq> 0"
  shows "\<exists>r'. padding_loop n r = (n + int k, r') \<and> dr_ok r' \<and> dr_rest r' = s \<and> dr_endianness r' = dr_endianness r"
  using assms
proof (induction k arbitrary: n r)
  case 0
  then have "padding_loop n r = (n, r)" using done_rest [of r] peek_rest [of r] by (subst padding_loop.simps) auto
  then show ?case using 0 by simp
next
  case (Suc k)
  from readsD [OF reads_ReadBytes [of "dr_endianness r" "[0]"] Suc.prems(1) refl, of "replicate k 0 @ s"] Suc.prems(2) obtain r1 where
    r1: "snd (ReadBytes 1 r) = r1" "dr_ok r1" "dr_rest r1 = replicate k 0 @ s" "dr_endianness r1 = dr_endianness r" by auto
  have "padding_loop n r = padding_loop (n + 1) r1"
    using Suc.prems done_rest [of r] peek_rest [of r] r1(1) by (subst padding_loop.simps) simp
  then show ?case using Suc.IH [OF r1(2,3) Suc.prems(3), of "n + 1"] r1(4) by (auto simp: algebra_simps)
qed

lemma padding_parses:
  assumes "0 < n"
  shows "parses (\<lambda>s. s = [] \<or> hd s \<noteq> 0) e (\<lambda>r. case ProcessPaddingFrame r of (n, r) \<Rightarrow> (Inr (PaddingFrame n), r))
    (replicate (nat (n - 1)) 0) (PaddingFrame n)"
  unfolding parses_def
proof (intro allI impI)
  fix r s
  assume r: "(s = [] \<or> hd s \<noteq> 0) \<and> dr_ok r \<and> dr_endianness r = e \<and> dr_rest r = replicate (nat (n - 1)) 0 @ s"
  then obtain r' where "padding_loop 1 r = (1 + int (nat (n - 1)), r')" "dr_ok r'" "dr_rest r' = s" "dr_endianness r' = e"
    using padding_reads [of r "nat (n - 1)" s 1] by auto
  moreover have "1 + int (nat (n - 1)) = n" using assms by simp
  ultimately show "\<exists>r'. (case ProcessPaddingFrame r of (n, r) \<Rightarrow> (Inr (PaddingFrame n), r)) = (Inr (PaddingFrame n), r') \<and>
      dr_ok r' \<and> dr_rest r' = s \<and> dr_endianness r' = e"
    by (simp add: ProcessPaddingFrame_def)
qed

lemma decimal_digits: "IsAllDigits (decimal n)"
proof (induction n rule: decimal.induct)
  case (1 n)
  have d: "48 \<le> (of_nat (48 + m) :: u8) \<and> (of_nat (48 + m) :: u8) \<le> 57" if "m < 10" for m :: nat
  proof -
    have "unat (of_nat (48 + m) :: u8) = 48 + m" using that by (intro unat_of_nat_less) simp
    then show ?thesis using that by (simp add: word_le_nat_alt)
  qed
  show ?case using 1 d [of n] d [of "n mod 10"] by (subst decimal.simps) (auto simp: IsAllDigits_def)
qed

lemma digits_no_colon: "IsAllDigits s \<Longrightarrow> takeWhile (\<lambda>c. c \<noteq> 58) (s @ 58 # t) = s"
  by (induction s) (auto simp: IsAllDigits_def)

lemma close_extracted:
  assumes "close_valid fw f" "strings_ok (fr_absl fw)" "strings_ok (fr_absl fr)"
  shows "MaybeExtractQuicErrorCode fr \<lparr>cc_close_type = cc_close_type f, cc_wire_error_code = cc_wire_error_code f,
      cc_quic_error_code = QUIC_NO_ERROR, cc_error_details = GenerateErrorString fw (cc_error_details f) (cc_quic_error_code f),
      cc_transport_close_frame_type = cc_transport_close_frame_type f\<rparr> = f"
proof (cases "cc_quic_error_code f = QUIC_IETF_GQUIC_ERROR_MISSING")
  case True
  let ?ed = "ab_StrSplit (fr_absl fr) (cc_error_details f) 58"
  have "?ed \<noteq> []" "hd ?ed = takeWhile (\<lambda>x. x \<noteq> 58) (cc_error_details f)" "length ?ed \<ge> 2 \<longleftrightarrow> 58 \<in> set (cc_error_details f)"
    using assms(3) by (simp_all add: strings_ok_def)
  moreover have "58 \<notin> set (cc_error_details f) \<or> \<not> IsAllDigits (takeWhile (\<lambda>c. c \<noteq> 58) (cc_error_details f))"
    "\<not> (cc_close_type f = IETF_QUIC_TRANSPORT_CONNECTION_CLOSE \<and> cc_wire_error_code f = 0)"
    using assms(1) True by (simp_all add: close_valid_def)
  ultimately have "length ?ed < 2 \<or> \<not> IsAllDigits (?ed ! 0)" by (auto simp: hd_conv_nth)
  then show ?thesis using True \<open>\<not> (_ \<and> _)\<close> by (cases f) (auto simp: MaybeExtractQuicErrorCode_def GenerateErrorString_def)
next
  case False
  let ?n = "unat (cc_quic_error_code f)"
  let ?p = "decimal ?n @ 58 # cc_error_details f"
  let ?ed = "ab_StrSplit (fr_absl fr) ?p 58"
  have p: "GenerateErrorString fw (cc_error_details f) (cc_quic_error_code f) = ?p"
    using False assms(2) by (simp add: GenerateErrorString_def strings_ok_def)
  have "?ed \<noteq> []" "hd ?ed = decimal ?n" "length ?ed \<ge> 2"
    using assms(3) digits_no_colon [OF decimal_digits] by (simp_all add: strings_ok_def)
  then have ed: "\<not> length ?ed < 2" "?ed ! 0 = decimal ?n" by (simp_all add: hd_conv_nth)
  have "?n < 2 ^ 64" using unat_bound [of "cc_quic_error_code f"] by simp
  then have "ab_SimpleAtoi (fr_absl fr) (decimal ?n) = Some (of_nat ?n)" using assms(3) by (simp add: strings_ok_def)
  moreover have "ucast (of_nat ?n :: u64) = cc_quic_error_code f" by (simp only: u32_u64)
  ultimately show ?thesis using ed p decimal_digits by (cases f) (simp add: MaybeExtractQuicErrorCode_def)
qed

lemma close_reads:
  assumes "close_valid fw f" "strings_ok (fr_absl fw)" "strings_ok (fr_absl fr)"
  shows "reads e (ProcessIetfConnectionCloseFrame fr (cc_close_type f)) (payload fw final (ConnectionCloseFrame f)) (ConnectionCloseFrame f)"
proof -
  let ?p = "GenerateErrorString fw (cc_error_details f) (cc_quic_error_code f)"
  let ?t = "cc_close_type f = IETF_QUIC_TRANSPORT_CONNECTION_CLOSE"
  let ?v = "\<lambda>w t p. ConnectionCloseFrame (MaybeExtractQuicErrorCode fr \<lparr>cc_close_type = cc_close_type f, cc_wire_error_code = w,
      cc_quic_error_code = QUIC_NO_ERROR, cc_error_details = p, cc_transport_close_frame_type = t\<rparr>)"
  have w: "unat (cc_wire_error_code f) < 2 ^ 62" and l: "length ?p < 2 ^ 62"
    using assms(1) by (simp_all add: close_valid_def kMaxErrorStringLength_def)
  then have n: "unat (of_nat (length ?p) :: u64) = length ?p" by (intro unat_of_nat_less) simp
  have t: "reads e (\<lambda>r. if ?t then ReadVarInt62 r else read_done 0 r)
      (if ?t then varint_bytes (cc_transport_close_frame_type f) else []) (cc_transport_close_frame_type f)"
    using assms(1) varint_reads reads_done [of e "0::u64"] by (cases ?t) (simp_all add: close_valid_def)
  have "reads e (ProcessIetfConnectionCloseFrame fr (cc_close_type f))
      (varint_bytes (cc_wire_error_code f) @ (if ?t then varint_bytes (cc_transport_close_frame_type f) else []) @
       varint_bytes (of_nat (length ?p)) @ ?p) (?v (cc_wire_error_code f) (cc_transport_close_frame_type f) ?p)"
    unfolding ProcessIetfConnectionCloseFrame_def
    by (rule reads_read_bind [OF varint_reads [OF w]], rule reads_read_bind [OF t], rule reads_read_bind [OF varint_reads],
        use n l in simp, rule reads_bind_done, rule string_reads, use n in simp)
  then show ?thesis by (simp only: close_extracted [OF assms] payload_def quic_frame.case Let_def)
qed


text \<open>What the visitor is given.\<close>

definition seen :: "quic_frame \<Rightarrow> quic_frame" where
  "seen frame =
     (case frame of
        MtuDiscoveryFrame \<Rightarrow> PingFrame
      | MessageFrame len slices _ \<Rightarrow> MessageFrame len [] (concat slices)
      | _ \<Rightarrow> frame)"

lemma parses_any: "parses (\<lambda>_. True) e p bs v \<Longrightarrow> parses P e p bs v"
  by (simp add: parses_def)

lemma const_parses: "parses P e (\<lambda>r. (Inr v, r)) [] v"
  by (simp add: parses_def)

lemma stream_type_cases: "IS_IETF_STREAM_FRAME (frame_type final (StreamFrame f))"
  by (cases final; cases "sf_fin f"; cases "sf_offset f = 0"; simp add: frame_type_def IS_IETF_STREAM_FRAME_def)

lemma frame_parses:
  assumes v: "frame_valid fw fr l frame" and a: "strings_ok (fr_absl fw)" "strings_ok (fr_absl fr)"
    and na: "\<And>f. frame \<noteq> AckFrame f"
  shows "\<exists>p. frame_parser fr l (frame_type final frame) = Some p \<and>
    parses (follows final frame) e p (payload fw final frame) (seen frame)"
proof -
  have *: ?thesis if "frame_parser fr l (frame_type final frame) = Some p" "parses (follows final frame) e p (payload fw final frame) (seen frame)" for p
    using that by blast
  note d = frame_parser_def control_frame_parser_def IS_IETF_STREAM_FRAME_def frame_type_def payload_def seen_def frame_valid_def
  show ?thesis
  proof (cases frame)
    case (StreamFrame f)
    then show ?thesis using v stream_type_cases [of final f] stream_reads [of f final e fw]
      by (intro * [OF _ parses_or_error]) (simp_all add: frame_parser_def frame_valid_def follows_eq seen_def)
  next
    case (PaddingFrame n)
    then show ?thesis using v padding_parses [of n e] by (intro *) (simp_all add: d follows_eq)
  next
    case (MessageFrame len slices dd)
    have "reads_when (follows final frame) e (ProcessMessageFrame final) (payload fw final frame) (seen frame)"
      using message_reads [of slices len final e fw dd] v MessageFrame by (simp add: frame_valid_def seen_def follows_eq)
    from parses_or_error [OF this] show ?thesis using MessageFrame
      by (intro * [where p = "or_error QUIC_INVALID_MESSAGE_DATA (ProcessMessageFrame final)"], cases final)
         (simp_all add: frame_parser_def control_frame_parser_def IS_IETF_STREAM_FRAME_def frame_type_def)
  next
    case (ConnectionCloseFrame f)
    then have c: "close_valid fw f" using v by (simp add: frame_valid_def)
    have "seen frame = frame" using ConnectionCloseFrame by (simp add: seen_def)
    then show ?thesis using close_reads [OF c a, of e final] c ConnectionCloseFrame
      by (intro * [where p = "or_error QUIC_INVALID_CONNECTION_CLOSE_DATA (ProcessIetfConnectionCloseFrame fr (cc_close_type f))"],
          cases "cc_close_type f") (simp_all add: close_valid_def frame_parser_def IS_IETF_STREAM_FRAME_def frame_type_def parses_reads)
  next
    case (CryptoFrame f)
    then show ?thesis using v crypto_reads
      by (intro * [OF _ parses_reads]) (auto simp: frame_parser_def control_frame_parser_def IS_IETF_STREAM_FRAME_def frame_type_def frame_valid_def seen_def)
  next
    case (WindowUpdateFrame sid m)
    then show ?thesis using v pairs_read(3,5) [of m 0]
      by (cases "sid = GetInvalidStreamId"; intro * [OF _ parses_reads]) (simp_all add: d)
  next
    case (BlockedFrame sid m)
    then show ?thesis using v pairs_read(4,6) [of m 0]
      by (cases "sid = GetInvalidStreamId"; intro * [OF _ parses_reads]) (simp_all add: d)
  next
    case (MaxStreamsFrame n uni)
    have "reads e (ProcessMaxStreamsFrame (frame_type final frame)) (payload fw final frame) (seen frame)"
      using v streams_read(1) [of e "frame_type final frame" n] MaxStreamsFrame by (cases uni) (simp_all add: payload_def seen_def frame_type_def frame_valid_def)
    then show ?thesis using MaxStreamsFrame
      by (intro * [OF _ parses_reads [where q = QUIC_MAX_STREAMS_DATA]], cases uni)
         (simp_all add: frame_parser_def IS_IETF_STREAM_FRAME_def frame_type_def)
  next
    case (StreamsBlockedFrame n uni)
    have "reads e (ProcessStreamsBlockedFrame (frame_type final frame)) (payload fw final frame) (seen frame)"
      using v streams_read(2) [of n e "frame_type final frame"] StreamsBlockedFrame by (cases uni) (simp_all add: payload_def seen_def frame_type_def frame_valid_def)
    then show ?thesis using StreamsBlockedFrame
      by (intro * [OF _ parses_reads [where q = QUIC_STREAMS_BLOCKED_DATA]], cases uni)
         (simp_all add: frame_parser_def IS_IETF_STREAM_FRAME_def frame_type_def)
  next
    case (AckFrame f)
    then show ?thesis using na by simp
  next
    case MtuDiscoveryFrame
    then show ?thesis using const_parses [of "follows final frame" e PingFrame] by (intro *) (simp_all add: d)
  next
    case PingFrame
    show ?thesis using const_parses [of "follows final frame" e frame] PingFrame by (intro *) (simp_all add: d)
  next
    case HandshakeDoneFrame
    show ?thesis using const_parses [of "follows final frame" e frame] HandshakeDoneFrame by (intro *) (simp_all add: d)
  next
    case (RstStreamFrame sid err off c)
    then show ?thesis using v pairs_read(1) [of err off e sid] by (intro * [OF _ parses_reads]) (simp_all add: d)
  next
    case (StopSendingFrame sid err c)
    then show ?thesis using v pairs_read(2) [of err 0 e sid] by (intro * [OF _ parses_reads]) (simp_all add: d)
  next
    case (RetireConnectionIdFrame seq)
    then show ?thesis using v pairs_read(7) [of seq 0 e] by (intro * [OF _ parses_reads]) (simp_all add: d)
  next
    case (NewConnectionIdFrame seq ret cid token)
    then show ?thesis using v connection_id_reads [of seq ret fr cid token e] by (intro * [OF _ parses_reads]) (simp_all add: d)
  next
    case (NewTokenFrame token)
    then show ?thesis using v new_token_reads [of token e] by (intro * [OF _ parses_reads]) (simp_all add: d)
  next
    case (PathChallengeFrame data)
    then show ?thesis using v path_reads(1) [of data e] by (intro * [OF _ parses_reads]) (simp_all add: d)
  next
    case (PathResponseFrame data)
    then show ?thesis using v path_reads(2) [of data e] by (intro * [OF _ parses_reads]) (simp_all add: d)
  next
    case (AckFrequencyFrame seq tol delay ign)
    then have "reads e ProcessAckFrequencyFrame (payload fw final frame) frame"
      using v ack_frequency_reads [of seq tol delay e ign] by (simp add: frame_valid_def payload_def)
    then show ?thesis using AckFrequencyFrame
      by (intro * [OF _ parses_reads]) (simp_all add: frame_parser_def control_frame_parser_def IS_IETF_STREAM_FRAME_def frame_type_def seen_def)
  qed (use v in \<open>simp_all add: frame_valid_def\<close>)
qed



subsection \<open>Packets\<close>

lemma message_writes:
  assumes "length (concat slices) = unat (len::u16)"
  shows "writes e (AppendMessageFrameAndTypeByte len slices final) (frame_bytes fw final (MessageFrame len slices d))"
proof -
  have t: "varint_bytes (frame_type final (MessageFrame len slices d)) =
      [ucast (if final then IETF_EXTENSION_MESSAGE_NO_LENGTH_V99 else IETF_EXTENSION_MESSAGE_V99)]"
    by (simp add: frame_type_def varint_bytes_def varint1_bytes_def)
  have "writes e (\<lambda>w. and_then (and_then (WriteUInt8 (ucast (if final then IETF_EXTENSION_MESSAGE_NO_LENGTH_V99 else IETF_EXTENSION_MESSAGE_V99)) w)
      (\<lambda>w. if \<not> final then WriteVarInt62 (ucast len) w else (True, w))) (write_all WriteBytes slices))
    (([ucast (if final then IETF_EXTENSION_MESSAGE_NO_LENGTH_V99 else IETF_EXTENSION_MESSAGE_V99)] @
      (if \<not> final then varint_bytes (ucast len) else [])) @ concat slices)"
    by (intro writes_and_then uint8_writes writes_if narrow_writes writes_Nil write_all_bytes)
  moreover have "frame_bytes fw final (MessageFrame len slices d) =
      ([ucast (if final then IETF_EXTENSION_MESSAGE_NO_LENGTH_V99 else IETF_EXTENSION_MESSAGE_V99)] @
       (if \<not> final then varint_bytes (ucast len) else [])) @ concat slices"
    unfolding frame_bytes_def t by (simp add: payload_def)
  ultimately show ?thesis by (simp only: writes_def AppendMessageFrameAndTypeByte_def)
qed

lemma append_frame_fits:
  assumes v: "frame_valid fw fr l frame" and p: "fr_producer fw = None" and w: "dw_ok w"
    and room: "length (frame_bytes fw final frame) \<le> dw_remaining w"
  shows "\<exists>w'. append_frame fw frame final w = (None, True, w') \<and> appended (frame_bytes fw final frame) w w'"
proof (cases "plain frame")
  case True
  obtain P where P: "\<And>w. append_payload fw frame final w = (None, P w)" "writes (dw_endianness w) P (payload fw final frame)"
    using payload_writes [OF v p True] by blast
  have "writes (dw_endianness w) (\<lambda>w. and_then (WriteVarInt62 (frame_type final frame) w) P) (frame_bytes fw final frame)"
    unfolding frame_bytes_def by (rule writes_and_then [OF varint_writes [OF frame_type_62] P(2)])
  from writes_fits [OF this w refl room] show ?thesis
    by (auto simp: append_frame_def type_written [OF v True] P(1) and_then_def split: prod.splits if_splits)
next
  case False
  then consider (ack) f where "frame = AckFrame f" | (message) len slices d where "frame = MessageFrame len slices d"
    by (auto simp: plain_def split: quic_frame.splits)
  then show ?thesis
  proof cases
    case ack
    let ?n = "length (lower_ranges f)"
    have a: "ack_valid fw f" and b: "frame_bytes fw final frame = ack_bytes fw f ?n"
      using v ack by (simp_all add: frame_valid_def frame_bytes_def payload_def ack_bytes_def frame_type_def)
    have r: "length (ack_head fw f @ ack_count f @ ack_first f @ ecn_bytes f) \<le> dw_remaining w"
      using room b by (simp add: ack_bytes_eq ack_count_def)
    from append_ack_spec [OF a w r] room b obtain w' where
      "AppendIetfAckFrameAndTypeByte fw f w = (True, w')" "appended (ack_bytes fw f ?n) w w'"
      by (auto simp: ack_count_def split: if_splits)
    then show ?thesis using ack b by (simp add: append_frame_def AppendIetfFrameType_def append_payload_def)
  next
    case message
    then have "length (concat slices) = unat len" using v by (simp add: frame_valid_def)
    from writes_fits [OF message_writes [OF this] w refl] room message show ?thesis
      by (auto simp: append_frame_def AppendIetfFrameType_def append_payload_def)
  qed
qed

text \<open>The bytes of a packet, and what a packet of frames must satisfy: padding is not followed by padding, and the types are those the
  receiver expects at the level of the packet.\<close>

fun packet_bytes :: "framer \<Rightarrow> quic_frame list \<Rightarrow> bytes" where
  "packet_bytes fw [] = []"
| "packet_bytes fw (frame # frames) = frame_bytes fw (frames = []) frame @ packet_bytes fw frames"

definition is_padding :: "quic_frame \<Rightarrow> bool" where
  "is_padding frame \<longleftrightarrow> (case frame of PaddingFrame _ \<Rightarrow> True | _ \<Rightarrow> False)"

fun packet_valid :: "framer \<Rightarrow> framer \<Rightarrow> encryption_level \<Rightarrow> encryption_level \<Rightarrow> quic_frame list \<Rightarrow> bool" where
  "packet_valid fw fr header_level decrypted_level [] \<longleftrightarrow> True"
| "packet_valid fw fr header_level decrypted_level (frame # frames) \<longleftrightarrow>
     frame_valid fw fr header_level frame \<and>
     (fr_reject_unexpected fr \<longrightarrow> IsIetfFrameTypeExpectedForEncryptionLevel (frame_type (frames = []) frame) decrypted_level) \<and>
     (is_padding frame \<and> frames \<noteq> [] \<longrightarrow> \<not> is_padding (hd frames)) \<and>
     packet_valid fw fr header_level decrypted_level frames"

lemma append_frames_fit:
  assumes "packet_valid fw fr l d frames" "fr_producer fw = None" "dw_ok w" "length (packet_bytes fw frames) \<le> dw_remaining w"
  shows "\<exists>w'. append_frames fw frames w = (None, True, w') \<and> appended (packet_bytes fw frames) w w'"
  using assms
proof (induction frames arbitrary: w)
  case Nil
  then show ?case by (simp add: appended_def)
next
  case (Cons frame frames)
  have "length (frame_bytes fw (frames = []) frame) \<le> dw_remaining w" using Cons.prems(4) by simp
  from append_frame_fits [OF _ Cons.prems(2,3) this] Cons.prems(1) obtain w1 where
    w1: "append_frame fw frame (frames = []) w = (None, True, w1)" "appended (frame_bytes fw (frames = []) frame) w w1" by auto
  have "dw_ok w1" "packet_valid fw fr l d frames" "length (packet_bytes fw frames) \<le> dw_remaining w1"
    using w1(2) appended_remaining [OF w1(2)] Cons.prems(1,4) by (simp_all add: appended_def)
  then obtain w2 where "append_frames fw frames w1 = (None, True, w2)" "appended (packet_bytes fw frames) w1 w2"
    using Cons.IH [of w1] Cons.prems(2) by blast
  then show ?case using w1 appended_trans [OF w1(2)] by simp
qed

lemma hd_frame_bytes: "frame_bytes fw final frame \<noteq> []" "hd (frame_bytes fw final frame) = 0 \<longrightarrow> frame_type final frame = 0"
proof -
  have "varint_bytes (frame_type final frame) \<noteq> [] \<and> (hd (varint_bytes (frame_type final frame)) = 0 \<longrightarrow> frame_type final frame = 0)"
    by (cases frame) (simp_all add: frame_type_def ack_type_def varint_bytes_def varint1_bytes_def varint2_bytes_def)
  then show "frame_bytes fw final frame \<noteq> []" "hd (frame_bytes fw final frame) = 0 \<longrightarrow> frame_type final frame = 0"
    by (simp_all add: frame_bytes_def)
qed

lemma type_zero: "frame_valid fw fr l frame \<Longrightarrow> frame_type final frame = 0 \<longleftrightarrow> is_padding frame"
  by (cases frame) (simp_all add: frame_type_def ack_type_def is_padding_def frame_valid_def)

lemma follows_packet:
  "packet_valid fw fr l d (frame # frames) \<Longrightarrow> follows (frames = []) frame (packet_bytes fw frames)"
proof -
  assume v: "packet_valid fw fr l d (frame # frames)"
  have "packet_bytes fw frames = [] \<or> hd (packet_bytes fw frames) \<noteq> 0" if "is_padding frame"
  proof (cases frames)
    case (Cons g gs)
    then show ?thesis using v that hd_frame_bytes [of fw "gs = []" g] type_zero [of fw fr l g "gs = []"] by auto
  qed simp
  then show ?thesis by (cases frame) (auto simp: follows_def is_padding_def)
qed


lemma frame_events_seen: "\<nexists>f. frame = AckFrame f \<Longrightarrow> frame_events fw fr frame = [OnFrame (seen frame)]"
  by (cases frame) (simp_all add: frame_events_def seen_def)

lemma payload_read:
  assumes v: "frame_valid fw fr l frame" and a: "strings_ok (fr_absl fw)" "strings_ok (fr_absl fr)" and acc: "accepts visitor"
    and s: "dr_ok (fs_reader s)" "dr_rest (fs_reader s) = payload fw final frame @ t" "follows final frame t"
  shows "\<exists>r. process_payload fr visitor l (frame_type final frame) s =
      Continue (s\<lparr>fs_reader := r, fs_visitor := deliver visitor (frame_events fw fr frame) (fs_visitor s)\<rparr>) \<and>
    dr_ok r \<and> dr_rest r = t \<and> dr_endianness r = dr_endianness (fs_reader s)"
proof (cases "\<exists>f. frame = AckFrame f")
  case True
  then obtain f where f: "frame = AckFrame f" by blast
  have "ack_valid fw f" "\<forall>i\<in>set (af_packets f). fr_first_sending_packet_number fr \<le> iv_min i"
    and r: "dr_rest (fs_reader s) = ack_payload fw f (length (lower_ranges f)) @ t"
    using v s(2) f by (simp_all add: frame_valid_def payload_def)
  from ack_read [OF acc this(1) le_refl this(2) s(1) r] obtain r' where
    "ProcessIetfAckFrame fr visitor (ack_type f) s = (True, s\<lparr>fs_reader := r', fs_visitor := deliver visitor
      (ack_events fw fr f (length (lower_ranges f))) (fs_visitor s)\<rparr>)"
    "dr_ok r'" "dr_rest r' = t" "dr_endianness r' = dr_endianness (fs_reader s)" by blast
  moreover have "frame_type final frame = ack_type f" "ack_type f = IETF_ACK_ECN \<or> ack_type f = IETF_ACK"
    using f by (simp_all add: frame_type_def ack_type_def)
  ultimately show ?thesis using f by (intro exI [of _ r']) (simp add: process_payload_def frame_events_def)
next
  case False
  then have na: "\<And>f. frame \<noteq> AckFrame f" by blast
  from frame_parses [OF v a na] obtain p where p: "frame_parser fr l (frame_type final frame) = Some p"
    "parses (follows final frame) (dr_endianness (fs_reader s)) p (payload fw final frame) (seen frame)" by blast
  then obtain r where r: "p (fs_reader s) = (Inr (seen frame), r)" "dr_ok r" "dr_rest r = t" "dr_endianness r = dr_endianness (fs_reader s)"
    using s unfolding parses_def by blast
  have "frame_type final frame \<noteq> IETF_ACK_ECN \<and> frame_type final frame \<noteq> IETF_ACK"
    using False v by (cases frame) (simp_all add: frame_type_def frame_valid_def)
  then have "process_payload fr visitor l (frame_type final frame) s =
      Continue (s\<lparr>fs_reader := r, fs_visitor := snd (visitor (OnFrame (seen frame)) (fs_visitor s))\<rparr>)"
    using p(1) r(1) acc by (simp add: process_payload_def accepts_def Let_def case_prod_beta)
  then show ?thesis using r by (intro exI [of _ r]) (simp add: frame_events_seen [OF False])
qed

lemma frame_read:
  assumes v: "frame_valid fw fr l frame" and a: "strings_ok (fr_absl fw)" "strings_ok (fr_absl fr)" and acc: "accepts visitor"
    and x: "fr_reject_unexpected fr \<longrightarrow> IsIetfFrameTypeExpectedForEncryptionLevel (frame_type final frame) d"
    and s: "dr_ok (fs_reader s)" "dr_rest (fs_reader s) = frame_bytes fw final frame @ t" "follows final frame t"
  shows "\<exists>r. process_frame fr visitor l d s = Continue (s\<lparr>fs_reader := r, fs_current_received_frame_type := frame_type final frame,
      fs_visitor := deliver visitor (frame_events fw fr frame) (fs_visitor s)\<rparr>) \<and> dr_ok r \<and> dr_rest r = t"
proof -
  let ?t = "frame_type final frame"
  from readsD [OF varint_reads [OF frame_type_62] s(1) refl, of final frame "payload fw final frame @ t"] s(2) obtain r where
    r: "ReadVarInt62 (fs_reader s) = (Some ?t, r)" "dr_ok r" "dr_rest r = payload fw final frame @ t"
    by (auto simp: frame_bytes_def)
  let ?s = "s\<lparr>fs_reader := r, fs_current_received_frame_type := ?t\<rparr>"
  have "BytesRemaining (fs_reader s) - BytesRemaining r = GetVarInt62Len ?t"
    using s(1,2) r by (simp add: remaining_rest frame_bytes_def GetVarInt62Len_eq [OF frame_type_62])
  then have "process_frame fr visitor l d s = process_payload fr visitor l ?t ?s"
    using r(1) x by (cases "fr_reject_unexpected fr") (simp_all add: process_frame_def Let_def)
  moreover obtain ra where "process_payload fr visitor l ?t ?s = Continue (?s\<lparr>fs_reader := ra, fs_visitor := deliver visitor
      (frame_events fw fr frame) (fs_visitor ?s)\<rparr>)" "dr_ok ra" "dr_rest ra = t"
    using payload_read [OF v a acc, of ?s final t] r s(3) by auto
  ultimately show ?thesis by (intro exI [of _ ra]) simp
qed

lemma frames_read:
  assumes "packet_valid fw fr l d frames" and a: "strings_ok (fr_absl fw)" "strings_ok (fr_absl fr)" and acc: "accepts visitor"
    and "dr_ok (fs_reader s)" "dr_rest (fs_reader s) = packet_bytes fw frames"
  shows "\<exists>s'. process_frames fr visitor l d s = (True, s') \<and> IsDoneReading (fs_reader s') \<and> fs_error s' = fs_error s \<and>
    fs_visitor s' = deliver visitor (concat (map (frame_events fw fr) frames)) (fs_visitor s)"
  using assms(1,5,6)
proof (induction frames arbitrary: s)
  case Nil
  then show ?case by (subst process_frames.simps) (simp add: done_rest)
next
  case (Cons frame frames)
  have v: "frame_valid fw fr l frame" "packet_valid fw fr l d frames"
    "fr_reject_unexpected fr \<longrightarrow> IsIetfFrameTypeExpectedForEncryptionLevel (frame_type (frames = []) frame) d"
    using Cons.prems(1) by simp_all
  have rest: "dr_rest (fs_reader s) = frame_bytes fw (frames = []) frame @ packet_bytes fw frames" using Cons.prems(3) by simp
  from frame_read [OF v(1) a acc v(3) Cons.prems(2) rest follows_packet [OF Cons.prems(1)]] obtain r where
    r: "process_frame fr visitor l d s = Continue (s\<lparr>fs_reader := r, fs_current_received_frame_type := frame_type (frames = []) frame,
      fs_visitor := deliver visitor (frame_events fw fr frame) (fs_visitor s)\<rparr>)" "dr_ok r" "dr_rest r = packet_bytes fw frames" by blast
  have "\<not> IsDoneReading (fs_reader s)" using rest hd_frame_bytes(1) Cons.prems(2) by (simp add: done_rest)
  then show ?case using r Cons.IH [OF v(2), of "s\<lparr>fs_reader := r, fs_current_received_frame_type := frame_type (frames = []) frame,
      fs_visitor := deliver visitor (frame_events fw fr frame) (fs_visitor s)\<rparr>"]
    by (subst process_frames.simps) simp
qed



subsection \<open>Sizes\<close>

lemma ack_blocks_size_eq: "blocks_ok prev is \<Longrightarrow> unat prev < 2 ^ 62 \<Longrightarrow> ack_blocks_size prev is = length (ack_block_bytes prev is)"
proof (induction prev "is" rule: ack_blocks_size.induct)
  case (2 prev i "is")
  note b = blocks_ok_bounds [OF "2.prems"]
  show ?case using "2.IH" "2.prems"(1) b(3) GetVarInt62Len_eq [OF b(1)] GetVarInt62Len_eq [OF b(2)] by (simp add: add.assoc)
qed simp


definition finite_delay :: "quic_frame \<Rightarrow> bool" where
  "finite_delay frame \<longleftrightarrow> (case frame of AckFrame f \<Rightarrow> \<not> Delta_IsInfinite (af_ack_delay_time f) | _ \<Rightarrow> True)"

lemma one_byte_type:
  "frame_type final frame \<noteq> IETF_ACK_FREQUENCY \<Longrightarrow> length (varint_bytes (frame_type final frame)) = kQuicFrameTypeSize"
  by (cases frame) (simp_all add: frame_type_def ack_type_def varint_bytes_def varint1_bytes_def kQuicFrameTypeSize_def)

lemma ack_size_eq:
  assumes v: "ack_valid fw f" and d: "\<not> Delta_IsInfinite (af_ack_delay_time f)"
  shows "GetIetfAckFrameSize fw f = length (ack_bytes fw f (length (lower_ranges f)))"
proof -
  note r = ack_valid_ranges [OF v]
  have e: "\<not> (pq_Empty (af_packets f) \<or> pq_Max (af_packets f) \<noteq> LargestAcked f)"
    using v by (simp add: ack_valid_def pq_Empty_def)
  have "unat (LargestAcked f) < 2 ^ 62" "unat (ack_delay_time_us fw f) < 2 ^ 62" using v by (simp_all add: ack_valid_def)
  moreover have "ack_delay_time_us fw f = drop_bit (fr_local_ack_delay_exponent fw) (of_int (af_ack_delay_time f))"
    using d by (simp add: ack_delay_time_us_def Delta_IsInfinite_def)
  moreover have "unat (of_nat (length (lower_ranges f)) :: u64) < 2 ^ 62" using r(7,8) by simp
  ultimately show ?thesis
    using e r(5,6) ecn_size_eq [OF v] ack_blocks_size_eq [OF r(1,4)] one_byte_type [of False "AckFrame f"]
    by (simp add: GetIetfAckFrameSize_def ack_bytes_def ack_payload_def Let_def GetVarInt62Len_eq lower_ranges_def [symmetric]
      ecn_size_def frame_type_def ack_type_def)
qed


lemma frame_size_eq:
  assumes v: "frame_valid fw fr l frame" and p: "\<not> is_padding frame" and d: "finite_delay frame"
  shows "ComputeFrameLength fw frame final n = length (frame_bytes fw final frame)"
proof -
  note t = one_byte_type [of final frame]
  note u = GetVarInt62Len_eq [OF narrow_62(1)] GetVarInt62Len_eq [OF narrow_62(2)]
  note c = ComputeFrameLength_def GetRetransmittableControlFrameSize_def frame_bytes_def payload_def
  show ?thesis
  proof (cases frame)
    case (AckFrame f)
    then show ?thesis using v d ack_size_eq [of fw f]
      by (simp add: ComputeFrameLength_def frame_valid_def finite_delay_def frame_bytes_def payload_def ack_bytes_def frame_type_def)
  next
    case (StreamFrame f)
    have "frame_type final frame \<noteq> IETF_ACK_FREQUENCY" using StreamFrame by (simp add: frame_type_def)
    then show ?thesis using t v StreamFrame GetVarInt62Len_eq [of "sf_offset f"]
      by (simp add: c GetMinStreamFrameSize_def frame_valid_def u)
  next
    case (CryptoFrame f)
    then show ?thesis using t v GetVarInt62Len_eq [of "cf_offset f"]
      by (auto simp: c GetMinCryptoFrameSize_def frame_valid_def u frame_type_def)
  next
    case (MessageFrame len slices dd)
    then show ?thesis using t v by (simp add: c GetMessageFrameSize_def frame_valid_def u frame_type_def unat_u16)
  next
    case (ConnectionCloseFrame f)
    let ?p = "GenerateErrorString fw (cc_error_details f) (cc_quic_error_code f)"
    have cv: "close_valid fw f" using v ConnectionCloseFrame by (simp add: frame_valid_def)
    then have l: "length ?p \<le> 256" by (simp add: close_valid_def kMaxErrorStringLength_def)
    then have "unat (of_nat (length ?p) :: u64) < 2 ^ 62" by (subst unat_of_nat_less) simp_all
    then have n: "GetVarInt62Len (of_nat (length ?p)) = length (varint_bytes (of_nat (length ?p)))" by (rule GetVarInt62Len_eq)
    have "TruncatedErrorStringSize ?p = length ?p" using l by (simp add: TruncatedErrorStringSize_def kMaxErrorStringLength_def)
    then show ?thesis using t cv n ConnectionCloseFrame GetVarInt62Len_eq [of "cc_wire_error_code f"] GetVarInt62Len_eq [of "cc_transport_close_frame_type f"]
      by (cases "cc_close_type f") (simp_all add: c GetConnectionCloseFrameSize_def close_valid_def frame_type_def Let_def)
  next
    case (NewTokenFrame token)
    have "unat (of_nat (length token) :: u64) < 2 ^ 62"
      using v NewTokenFrame by (subst unat_of_nat_less) (simp_all add: frame_valid_def kMaxNewTokenTokenLength_def)
    then show ?thesis using t NewTokenFrame GetVarInt62Len_eq by (simp add: c GetNewTokenFrameSize_def frame_type_def)
  next
    case (AckFrequencyFrame seq tol delay ign)
    have "unat (of_int delay :: u64) < 2 ^ 62"
      using v AckFrequencyFrame by (cases delay) (auto simp: frame_valid_def unat_of_nat_less)
    then show ?thesis using v AckFrequencyFrame GetVarInt62Len_eq [of seq] GetVarInt62Len_eq [of tol] GetVarInt62Len_eq [of "of_int delay"]
        GetVarInt62Len_eq [OF frame_type_62 [of final frame]]
      by (simp add: c GetAckFrequencyFrameSize_def frame_valid_def frame_type_def)
  next
    case (NewConnectionIdFrame seq ret cid token)
    have "unat ret < 2 ^ 62" "unat seq < 2 ^ 62" using v NewConnectionIdFrame by (simp_all add: frame_valid_def word_le_nat_alt)
    then show ?thesis using t NewConnectionIdFrame GetVarInt62Len_eq [of seq] GetVarInt62Len_eq [of ret]
      by (simp add: c GetNewConnectionIdFrameSize_def frame_type_def kConnectionIdLengthSize_def)
  next
    case (RstStreamFrame sid err off cc)
    then show ?thesis using t v GetVarInt62Len_eq [of err] GetVarInt62Len_eq [of off]
      by (simp add: c GetRstStreamFrameSize_def frame_valid_def u frame_type_def)
  next
    case (StopSendingFrame sid err cc)
    then show ?thesis using t v GetVarInt62Len_eq [of err]
      by (simp add: c GetStopSendingFrameSize_def frame_valid_def u frame_type_def)
  next
    case (WindowUpdateFrame sid m)
    then show ?thesis using t v GetVarInt62Len_eq [of m]
      by (cases "sid = GetInvalidStreamId") (simp_all add: c GetWindowUpdateFrameSize_def frame_valid_def u frame_type_def)
  next
    case (BlockedFrame sid m)
    then show ?thesis using t v GetVarInt62Len_eq [of m]
      by (cases "sid = GetInvalidStreamId") (simp_all add: c GetBlockedFrameSize_def frame_valid_def u frame_type_def)
  next
    case (RetireConnectionIdFrame seq)
    then show ?thesis using t v GetVarInt62Len_eq [of seq] by (simp add: c GetRetireConnectionIdFrameSize_def frame_valid_def frame_type_def)
  qed (use v p t in \<open>simp_all add: c GetMaxStreamsFrameSize_def GetStreamsBlockedFrameSize_def GetPathChallengeFrameSize_def
      GetPathResponseFrameSize_def frame_valid_def is_padding_def frame_type_def u\<close>)
qed



subsection \<open>The string functions of the plain framer\<close>

lemma split_on_spec:
  "split_on c s \<noteq> [] \<and> hd (split_on c s) = takeWhile (\<lambda>x. x \<noteq> c) s \<and> (length (split_on c s) \<ge> 2 \<longleftrightarrow> c \<in> set s)"
proof (induction s)
  case (Cons x xs)
  then show ?case by (cases "split_on c xs") auto
qed simp

lemma digits_value_decimal: "digits_value (decimal n) = n"
proof (induction n rule: decimal.induct)
  case (1 n)
  have d: "unat (of_nat (48 + m) :: u8) = 48 + m" if "m < 10" for m :: nat
    using that by (intro unat_of_nat_less) simp
  show ?case
  proof (cases "n < 10")
    case True
    then show ?thesis using d [of n] by (subst decimal.simps) (simp add: digits_value_def)
  next
    case False
    then show ?thesis using 1 d [of "n mod 10"] by (subst decimal.simps) (simp add: digits_value_def)
  qed
qed

lemma decimal_nonempty: "decimal n \<noteq> []"
  by (subst decimal.simps) simp

lemma plain_strings_ok: "strings_ok plain_strings"
  by (simp add: strings_ok_def plain_strings_def split_on_spec [THEN conjunct1] split_on_spec [THEN conjunct2, THEN conjunct1]
    split_on_spec [THEN conjunct2, THEN conjunct2, simplified] decimal_nonempty decimal_digits digits_value_decimal)


subsection \<open>Properties\<close>

text \<open>C1: a packet of frames survives the wire. If the frames are in range, fit into the buffer and are of types the receiver expects,
  \<open>AppendIetfFrames\<close> writes all of them, and \<open>ProcessIetfFrameData\<close> on the bytes that were written reports these frames in this
  order to the visitor, acks range by range, raises no error and reads to the end.\<close>

theorem frames_roundtrip:
  assumes v: "packet_valid fw fr header_level decrypted_level frames" and ne: "frames \<noteq> []" and p: "fr_producer fw = None"
    and a: "strings_ok (fr_absl fw)" "strings_ok (fr_absl fr)" and w: "dw_ok w"
    and room: "length (packet_bytes fw frames) \<le> dw_remaining w" and acc: "accepts visitor"
  shows "\<exists>w'. AppendIetfFrames fw frames w = (None, dw_length w', w') \<and>
    (\<forall>s. dr_ok (fs_reader s) \<and> dr_rest (fs_reader s) = drop (dw_length w) (dw_bytes w') \<longrightarrow>
       (\<exists>s'. ProcessIetfFrameData fr visitor header_level decrypted_level s = (True, s') \<and> IsDoneReading (fs_reader s') \<and>
          fs_error s' = fs_error s \<and>
          fs_visitor s' = deliver visitor (concat (map (frame_events fw fr) frames)) (fs_visitor s)))"
proof -
  obtain w' where w': "append_frames fw frames w = (None, True, w')" "appended (packet_bytes fw frames) w w'"
    using append_frames_fit [OF v p w room] by blast
  have "length (dw_bytes w) = dw_length w" using w by (simp add: dw_bytes_def dw_ok_def)
  then have b: "drop (dw_length w) (dw_bytes w') = packet_bytes fw frames" using w'(2) by (simp add: appended_def)
  have "packet_bytes fw frames \<noteq> []" using ne hd_frame_bytes(1) by (cases frames) auto
  then show ?thesis using w'(1) frames_read [OF v a acc] done_rest
    by (intro exI [of _ w']) (auto simp: AppendIetfFrames_def ProcessIetfFrameData_def b)
qed

definition sample_frames :: "quic_frame list" where
  "sample_frames =
     [AckFrame sample_ack, PaddingFrame 3, MaxStreamsFrame 5 True, NewTokenFrame [1, 2],
      ConnectionCloseFrame \<lparr>cc_close_type = IETF_QUIC_TRANSPORT_CONNECTION_CLOSE, cc_wire_error_code = 10, cc_quic_error_code = 7,
        cc_error_details = [97], cc_transport_close_frame_type = 6\<rparr>,
      StreamFrame \<lparr>sf_stream_id = 4, sf_fin = True, sf_offset = 100, sf_data_length = 3, sf_data_buffer = [9, 8, 7]\<rparr>]"

lemma sample_ack_valid: "ack_valid plain_framer sample_ack"
  by (simp add: ack_valid_def sample_ack_def plain_framer_def is_ok_Cons pq_Max_def LargestAcked_def ack_delay_time_us_def
    Delta_Infinite_def has_ecn_def)

lemma sample_frames_valid: "packet_valid plain_framer plain_framer ENCRYPTION_FORWARD_SECURE ENCRYPTION_FORWARD_SECURE sample_frames"
proof -
  have "\<forall>i\<in>set (af_packets sample_ack). fr_first_sending_packet_number plain_framer \<le> iv_min i" by code_simp
  moreover have "length (GenerateErrorString plain_framer [97] 7) \<le> kMaxErrorStringLength" by code_simp
  ultimately show ?thesis
    by (simp add: sample_frames_def frame_valid_def is_padding_def sample_ack_valid close_valid_def
      IsIetfFrameTypeExpectedForEncryptionLevel_def kMaxNewTokenTokenLength_def QUIC_IETF_GQUIC_ERROR_MISSING_def)
qed

theorem frames_roundtrip_witness:
  "\<exists>w'. AppendIetfFrames plain_framer sample_frames (DataWriter_new 40 (replicate 40 0) NETWORK_BYTE_ORDER) = (None, dw_length w', w')"
proof -
  let ?w = "DataWriter_new 40 (replicate 40 0) NETWORK_BYTE_ORDER"
  have "dw_ok ?w" "length (packet_bytes plain_framer sample_frames) \<le> dw_remaining ?w" by code_simp+
  moreover have "sample_frames \<noteq> []" "fr_producer plain_framer = None" "strings_ok (fr_absl plain_framer)" "accepts (\<lambda>ev v. (True, v + (1::nat)))"
    by (simp_all add: sample_frames_def plain_framer_def plain_strings_ok accepts_def)
  ultimately show ?thesis using frames_roundtrip [OF sample_frames_valid] by blast
qed

fun total_length :: "framer \<Rightarrow> nat \<Rightarrow> quic_frame list \<Rightarrow> nat" where
  "total_length fw n [] = 0"
| "total_length fw n (frame # frames) = ComputeFrameLength fw frame (frames = []) n + total_length fw n frames"

lemma total_length_eq:
  "packet_valid fw fr l d frames \<Longrightarrow> \<forall>frame\<in>set frames. \<not> is_padding frame \<and> finite_delay frame \<Longrightarrow>
   total_length fw n frames = length (packet_bytes fw frames)"
  by (induction frames) (auto simp: frame_size_eq)

text \<open>C16: the sizes that the packet creator counts on are exact. For frames in range that are not padding, and acks with a finite delay, the sum of
  \<open>ComputeFrameLength\<close> is the number of bytes that \<open>AppendIetfFrames\<close> writes, and that much room is enough.\<close>

theorem frame_sizes_exact:
  assumes v: "packet_valid fw fr header_level decrypted_level frames" and p: "fr_producer fw = None" and w: "dw_ok w"
    and f: "\<forall>frame\<in>set frames. \<not> is_padding frame \<and> finite_delay frame" and room: "total_length fw n frames \<le> dw_remaining w"
  shows "\<exists>w'. AppendIetfFrames fw frames w = (None, dw_length w + total_length fw n frames, w')"
proof -
  note t = total_length_eq [OF v f, of n]
  obtain w' where w': "append_frames fw frames w = (None, True, w')" "appended (packet_bytes fw frames) w w'"
    using append_frames_fit [OF v p w] room t by auto
  then have "dw_length w' = dw_length w + length (packet_bytes fw frames)" by (simp add: appended_def)
  then show ?thesis using w'(1) t by (simp add: AppendIetfFrames_def)
qed

theorem frame_sizes_exact_witness:
  "\<exists>w'. AppendIetfFrames plain_framer [PingFrame, AckFrame sample_ack, MaxStreamsFrame 5 True]
     (DataWriter_new 20 (replicate 20 0) NETWORK_BYTE_ORDER) = (None, 10, w')"
proof -
  let ?w = "DataWriter_new 20 (replicate 20 0) NETWORK_BYTE_ORDER"
  let ?f = "[PingFrame, AckFrame sample_ack, MaxStreamsFrame 5 True]"
  have n: "dw_ok ?w" "dw_length ?w + total_length plain_framer 1 ?f = 10" "total_length plain_framer 1 ?f \<le> dw_remaining ?w" by code_simp+
  have "\<forall>i\<in>set (af_packets sample_ack). fr_first_sending_packet_number plain_framer \<le> iv_min i" by code_simp
  then have v: "packet_valid plain_framer plain_framer ENCRYPTION_FORWARD_SECURE ENCRYPTION_FORWARD_SECURE ?f"
    by (simp add: frame_valid_def is_padding_def sample_ack_valid IsIetfFrameTypeExpectedForEncryptionLevel_def)
  have "fr_producer plain_framer = None" by (simp add: plain_framer_def)
  moreover have "\<forall>frame\<in>set ?f. \<not> is_padding frame \<and> finite_delay frame"
    by (simp add: is_padding_def finite_delay_def sample_ack_def Delta_IsInfinite_def Delta_Infinite_def)
  ultimately show ?thesis using frame_sizes_exact [OF v _ n(1) _ n(3)] n(2) by simp
qed

end
