(* ===== verification/Ietf_Robust.thy ===== *)
theory Ietf_Robust
  imports Ietf_Acks
begin

text \<open>
  What \<open>ProcessIetfFrameData\<close> does with arbitrary bytes. One relation between the state before and after carries the proofs: events are only
  added, none of them an error, their number is bounded by the bytes that were read, and the reader stays inside its buffer.
\<close>

subsection \<open>Readers stay inside their buffer\<close>

definition inside :: "data_reader \<Rightarrow> data_reader \<Rightarrow> bool" where
  "inside r r' \<longleftrightarrow> dr_data r' = dr_data r \<and> dr_len r' = dr_len r \<and> (dr_ok r \<longrightarrow> dr_ok r' \<and> dr_pos r \<le> dr_pos r')"

definition keeps :: "(data_reader \<Rightarrow> 'a \<times> data_reader) \<Rightarrow> bool" where
  "keeps f \<longleftrightarrow> (\<forall>r. inside r (snd (f r)))"

named_theorems keep \<open>reads that stay inside their buffer\<close>

lemma inside_refl [simp]: "inside r r"
  by (simp add: inside_def)

lemma inside_trans: "inside r r1 \<Longrightarrow> inside r1 r2 \<Longrightarrow> inside r r2"
  by (auto simp: inside_def)

lemma keepsD: "keeps f \<Longrightarrow> f r = (v, r') \<Longrightarrow> inside r r'"
  unfolding keeps_def by (metis snd_conv)

lemma keeps_bytes [keep]: "keeps (ReadBytes n)" "keeps (ReadStringPiece n)" "keeps ReadUInt8" "keeps ReadRemainingPayload"
  by (auto simp: keeps_def inside_def dr_ok_def ReadBytes_def ReadStringPiece_def OnFailure_def ReadUInt8_def read_map_def
    ReadRemainingPayload_def CanRead_def)

lemma keeps_varint [keep]: "keeps ReadVarInt62"
  by (auto simp: keeps_def inside_def dr_ok_def ReadVarInt62_def Let_def AdvancePos_def BytesRemaining_def)

lemma keeps_done [keep]: "keeps (read_done v)" "keeps read_fail" "keeps (\<lambda>r. read_done (h r) r)"
  by (simp_all add: keeps_def read_done_def read_fail_def)

lemma keeps_bind [keep]: "keeps f \<Longrightarrow> (\<And>v. keeps (g v)) \<Longrightarrow> keeps (\<lambda>r. read_bind (f r) g)"
  unfolding keeps_def by (auto simp: read_bind_def split: prod.split option.split) (metis inside_trans snd_conv)+

lemma keeps_if [keep]: "(b \<Longrightarrow> keeps f) \<Longrightarrow> (\<not> b \<Longrightarrow> keeps g) \<Longrightarrow> keeps (\<lambda>r. if b then f r else g r)"
  "(b \<Longrightarrow> keeps f) \<Longrightarrow> (\<not> b \<Longrightarrow> keeps g) \<Longrightarrow> keeps (if b then f else g)"
  by (cases b; simp)+

lemma keeps_eta: "keeps (\<lambda>r. f r) \<Longrightarrow> keeps f"
  by simp

lemma keeps_connection_id [keep]: "keeps ReadLengthPrefixedConnectionId"
proof -
  have c: "inside r (snd (ReadConnectionId n r))" for n r
    using keeps_bytes(1) [unfolded keeps_def] by (simp add: ReadConnectionId_def)
  show ?thesis unfolding keeps_def
  proof
    fix r
    obtain v r1 where "ReadUInt8 r = (v, r1)" by (cases "ReadUInt8 r")
    then show "inside r (snd (ReadLengthPrefixedConnectionId r))"
      using keepsD [OF keeps_bytes(3), of r v r1] inside_trans [OF _ c] by (cases v) (simp_all add: ReadLengthPrefixedConnectionId_def)
  qed
qed

lemma keeps_stream_length [keep]: "keeps (stream_data_length b)"
  by (rule keeps_eta, unfold stream_data_length_def) (intro keep)

lemma keeps_uint32 [keep]: "keeps ReadUint32FromVarint62"
  by (rule keeps_eta, unfold ReadUint32FromVarint62_def) (intro keep)

lemma keeps_message [keep]: "keeps (ProcessMessageFrame b)"
proof (rule keeps_eta, unfold ProcessMessageFrame_def, rule keeps_if)
  show "keeps (\<lambda>r. case ReadRemainingPayload r of (remaining, r) \<Rightarrow> read_done (MessageFrame (of_nat (length remaining)) [] remaining) r)"
    using keeps_bytes(4) by (simp add: keeps_def read_done_def case_prod_beta)
qed (intro keep)

lemma keeps_frames [keep]:
  "keeps (ProcessIetfStreamFrame t)" "keeps (ProcessCryptoFrame l)" "keeps ProcessAckFrequencyFrame"
  "keeps ProcessNewTokenFrame" "keeps (ProcessIetfConnectionCloseFrame fr ty)" "keeps ProcessPathChallengeFrame"
  "keeps ProcessPathResponseFrame" "keeps ProcessIetfResetStreamFrame" "keeps ProcessStopSendingFrame"
  "keeps ProcessMaxDataFrame" "keeps ProcessMaxStreamDataFrame" "keeps (ProcessMaxStreamsFrame ft)"
  "keeps ProcessDataBlockedFrame" "keeps ProcessStreamDataBlockedFrame" "keeps (ProcessStreamsBlockedFrame ft)"
  "keeps (ProcessNewConnectionIdFrame fr)" "keeps ProcessRetireConnectionIdFrame"
  by (rule keeps_eta, simp only: process_defs, intro keep)+

lemma keeps_padding: "inside r (snd (padding_loop n r))"
proof (induction n r rule: padding_loop.induct)
  case (1 n r)
  have "inside r (snd (ReadBytes 1 r))" using keeps_bytes(1) by (simp add: keeps_def)
  then show ?case using 1 inside_trans by (subst padding_loop.simps) (auto split: if_splits)
qed

lemma keeps_or_error [keep]: "keeps f \<Longrightarrow> keeps (or_error e f)"
  by (simp add: keeps_def or_error_def split: prod.split option.split) (metis snd_conv)

lemma keeps_frame_parser: "frame_parser fr l t = Some p \<Longrightarrow> keeps p"
proof -
  have pad: "keeps (\<lambda>r. case ProcessPaddingFrame r of (n, r) \<Rightarrow> (Inr (PaddingFrame n), r))"
    and const: "keeps (\<lambda>r. (Inr x, r))" for x
    by (simp_all add: keeps_def case_prod_beta ProcessPaddingFrame_def keeps_padding)
  assume "frame_parser fr l t = Some p"
  then show ?thesis
    by (simp add: frame_parser_def control_frame_parser_def pad const keep split: if_splits) (auto intro!: keep pad const)
qed


subsection \<open>One step\<close>

definition quiet :: "frame_event list \<Rightarrow> bool" where
  "quiet evs \<longleftrightarrow> list_all (\<lambda>ev. case ev of OnError _ \<Rightarrow> False | _ \<Rightarrow> True) evs"

lemma quiet_simps [simp]: "quiet []" "quiet (as @ bs) \<longleftrightarrow> quiet as \<and> quiet bs" "quiet [OnFrame f]" "quiet [OnAckFrameStart a d]"
  "quiet [OnAckRange a b]" "quiet [OnAckFrameEnd a]"
  by (simp_all add: quiet_def)

type_synonym logged = "frame_event list framing"

definition steps :: "int \<Rightarrow> logged \<Rightarrow> logged \<Rightarrow> bool" where
  "steps c s s' \<longleftrightarrow>
     fs_error s' = fs_error s \<and> inside (fs_reader s) (fs_reader s') \<and>
     (\<exists>evs. fs_visitor s' = fs_visitor s @ evs \<and> quiet evs \<and>
        int (length evs) + int (BytesRemaining (fs_reader s')) \<le> int (BytesRemaining (fs_reader s)) + c)"

lemma steps_mono: "steps c s s' \<Longrightarrow> c \<le> c' \<Longrightarrow> steps c' s s'"
  unfolding steps_def by (meson add_left_mono order_trans)

lemma steps_trans: "steps c s s1 \<Longrightarrow> steps c' s1 s2 \<Longrightarrow> steps (c + c') s s2"
proof -
  assume 1: "steps c s s1" and 2: "steps c' s1 s2"
  obtain as where as: "fs_visitor s1 = fs_visitor s @ as" "quiet as"
    "int (length as) + int (BytesRemaining (fs_reader s1)) \<le> int (BytesRemaining (fs_reader s)) + c" using 1 by (auto simp: steps_def)
  obtain bs where bs: "fs_visitor s2 = fs_visitor s1 @ bs" "quiet bs"
    "int (length bs) + int (BytesRemaining (fs_reader s2)) \<le> int (BytesRemaining (fs_reader s1)) + c'" using 2 by (auto simp: steps_def)
  show ?thesis using 1 2 as bs inside_trans unfolding steps_def by (intro conjI exI [of _ "as @ bs"]) auto
qed

lemma steps_read: "keeps f \<Longrightarrow> shrinking f \<Longrightarrow> f (fs_reader s) = (v, r) \<Longrightarrow> steps 0 s (s\<lparr>fs_reader := r\<rparr>)"
  using keepsD [of f] shrinkingD [of f] by (fastforce simp: steps_def)

lemma steps_varint: "ReadVarInt62 (fs_reader s) = (Some v, r) \<Longrightarrow> steps (- 1) s (s\<lparr>fs_reader := r\<rparr>)"
  using keepsD [OF keeps_varint] ReadVarInt62_shrinks by (fastforce simp: steps_def)

lemma steps_event: "quiet [ev] \<Longrightarrow> steps 1 s (s\<lparr>fs_visitor := fs_visitor s @ [ev]\<rparr>)"
  by (simp add: steps_def)

lemma steps_refl: "0 \<le> c \<Longrightarrow> steps c s s"
  by (simp add: steps_def)

lemma fs_read_steps:
  assumes "\<And>v s. steps c s (snd (k v s))" "0 \<le> c'" "c - 1 \<le> c'"
  shows "steps c' s (snd (fs_read ReadVarInt62 k s))"
proof (cases "ReadVarInt62 (fs_reader s)")
  case (Pair v r)
  show ?thesis
  proof (cases v)
    case None
    then show ?thesis using Pair steps_mono [OF steps_read [OF keeps_varint shrinking_varint Pair] assms(2)] by (simp add: fs_read_def)
  next
    case (Some a)
    then have "steps (- 1 + c) s (snd (k a (s\<lparr>fs_reader := r\<rparr>)))" using Pair steps_trans [OF steps_varint assms(1)] by blast
    then show ?thesis using Pair Some assms(3) steps_mono by (fastforce simp: fs_read_def)
  qed
qed

lemma fs_report_steps:
  assumes "\<And>s. steps c s (snd (k s))" "quiet [ev]" "1 \<le> c'" "c + 1 \<le> c'"
  shows "steps c' s (snd (fs_report (logging p) ev k s))"
proof -
  let ?s = "s\<lparr>fs_visitor := fs_visitor s @ [ev]\<rparr>"
  have "steps c' s ?s" "steps c' s (snd (k ?s))"
    using steps_mono [OF steps_event [OF assms(2)] assms(3)] steps_mono [OF steps_trans [OF steps_event [OF assms(2)] assms(1)]] assms(4)
    by auto
  then show ?thesis by (simp add: fs_report_def logging_def)
qed


subsection \<open>Packets\<close>

lemma finish_ack_steps: "steps 1 s (snd (finish_ack (logging p) t low s))"
proof -
  let ?e = "fs_report (logging p) (OnAckFrameEnd low) (\<lambda>s. (True, s))"
  have e: "steps 1 s (snd (?e s))" for s by (rule fs_report_steps [where c = 0]) (simp_all add: steps_refl)
  have "steps 0 s (snd (fs_read ReadVarInt62 (\<lambda>a. fs_read ReadVarInt62 (\<lambda>b. fs_read ReadVarInt62 (\<lambda>c. ?e))) s))"
    by (intro fs_read_steps [where c = 0] fs_read_steps [where c = 1 and c' = 0] e) simp_all
  from steps_mono [OF this, of 1] e [of s] show ?thesis unfolding finish_ack_def Let_def by simp
qed

lemma ack_loop_steps: "steps 1 s (snd (ack_block_loop fr (logging p) t n low s))"
proof (induction n arbitrary: low s rule: count_down)
  case 1
  then show ?case by (simp add: ack_block_loop.simps finish_ack_steps)
next
  case (2 n)
  have r: "steps 2 s (snd (fs_report (logging p) (OnAckRange a b) (ack_block_loop fr (logging p) t (n - 1) a) s))" for a b s
    by (rule fs_report_steps [OF "2.IH"]) simp_all
  have stop: "steps 2 s (snd (if b then (False, s) else x))" if "steps 2 s (snd x)" for b x and s :: logged
    using that by (simp add: steps_refl)
  have "steps 1 s (snd (fs_read ReadVarInt62 (\<lambda>v s. if b v then (False, s) else
      fs_report (logging p) (OnAckRange (f v) c) (ack_block_loop fr (logging p) t (n - 1) (f v)) s) s))" for b f c s
    by (rule fs_read_steps [where c = 2], rule stop, rule r) simp_all
  then have X: "steps 1 s (snd (fs_read ReadVarInt62 (\<lambda>g s. if B g then (False, s) else fs_read ReadVarInt62 (\<lambda>v s. if b g v then (False, s) else
      fs_report (logging p) (OnAckRange (f g v) (c g)) (ack_block_loop fr (logging p) t (n - 1) (f g v)) s) s) s))" for B b f c
    by (intro fs_read_steps [where c = 1]) (simp_all add: steps_refl)
  have n: "(n \<noteq> 0) = True" using \<open>n \<noteq> 0\<close> by simp
  show ?case by (subst ack_block_loop.simps, unfold Let_def n if_True, rule X)
qed

lemma ack_steps: "steps 1 s (snd (ProcessIetfAckFrame fr (logging p) t s))"
proof -
  have r: "steps 2 s (snd (fs_report (logging p) (OnAckRange a b) (ack_block_loop fr (logging p) t n a) s))" for a b n s
    by (rule fs_report_steps [OF ack_loop_steps]) simp_all
  have 1: "steps 1 s (snd (fs_read ReadVarInt62 (\<lambda>v s. if B v then (False, s)
      else fs_report (logging p) (OnAckRange (f v) c) (ack_block_loop fr (logging p) t n (f v)) s) s))" for B f c n s
    using r by (intro fs_read_steps [where c = 2]) (simp_all add: steps_refl)
  have 2: "steps 0 s (snd (fs_read ReadVarInt62 (\<lambda>n. fs_read ReadVarInt62 (\<lambda>v s. if B v then (False, s)
      else fs_report (logging p) (OnAckRange (f v) c) (ack_block_loop fr (logging p) t n (f v)) s)) s))" for B f c s
    by (rule fs_read_steps [OF 1]) simp_all
  have 3: "steps 1 s (snd (fs_report (logging p) (OnAckFrameStart a d) (fs_read ReadVarInt62 (\<lambda>n. fs_read ReadVarInt62 (\<lambda>v s. if B v then (False, s)
      else fs_report (logging p) (OnAckRange (f v) c) (ack_block_loop fr (logging p) t n (f v)) s))) s))" for a d B f c s
    by (rule fs_report_steps [OF 2]) simp_all
  have 4: "steps 0 s (snd (fs_read ReadVarInt62 (\<lambda>x. fs_report (logging p) (OnAckFrameStart a (d x)) (fs_read ReadVarInt62 (\<lambda>n. fs_read ReadVarInt62
      (\<lambda>v s. if B v then (False, s) else fs_report (logging p) (OnAckRange (f v) c) (ack_block_loop fr (logging p) t n (f v)) s)))) s))" for a d B f c s
    by (rule fs_read_steps [OF 3]) simp_all
  show ?thesis unfolding ProcessIetfAckFrame_def Let_def
    by (rule fs_read_steps [where c = 0]) (simp_all add: 4 steps_refl)
qed

text \<open>A round of the loop, and the loop, end well or in one error.\<close>

definition raised :: "int \<Rightarrow> logged \<Rightarrow> logged \<Rightarrow> bool" where
  "raised c s s' \<longleftrightarrow>
     (\<exists>e s1. steps c s s1 \<and> s' = s1\<lparr>fs_error := Some e, fs_visitor := fs_visitor s1 @ [OnError e]\<rparr>)"

definition ends :: "int \<Rightarrow> logged \<Rightarrow> bool \<Rightarrow> logged \<Rightarrow> bool" where
  "ends c s ok s' \<longleftrightarrow> (if ok then steps c s s' else raised c s s')"

fun round_ends :: "int \<Rightarrow> logged \<Rightarrow> frame_event list round \<Rightarrow> bool" where
  "round_ends c s (Return ok s') \<longleftrightarrow> ends c s ok s'"
| "round_ends c s (Continue s') \<longleftrightarrow> steps c s s'"

lemma RaiseError_ends: "steps c s s1 \<Longrightarrow> round_ends c s (returned (RaiseError (logging p) e s1))"
  by (auto simp: RaiseError_def returned_def ends_def raised_def logging_def)

lemma payload_ends: "round_ends 1 s (process_payload fr (logging p) l t s)"
proof (cases "t = IETF_ACK_ECN \<or> t = IETF_ACK")
  case True
  obtain ok s1 where a: "ProcessIetfAckFrame fr (logging p) t s = (ok, s1)" by (cases "ProcessIetfAckFrame fr (logging p) t s")
  then have "steps 1 s s1" using ack_steps [of s fr p t] by simp
  then show ?thesis using True a RaiseError_ends by (simp add: process_payload_def)
next
  case False
  show ?thesis
  proof (cases "frame_parser fr l t")
    case None
    then show ?thesis using False RaiseError_ends [OF steps_refl] by (simp add: process_payload_def)
  next
    case (Some parse)
    obtain v r where p: "parse (fs_reader s) = (v, r)" by (cases "parse (fs_reader s)")
    have 0: "steps 0 s (s\<lparr>fs_reader := r\<rparr>)"
      by (rule steps_read [OF keeps_frame_parser [OF Some] shrinking_frame_parser [OF Some] p])
    show ?thesis
    proof (cases v)
      case (Inl e)
      then show ?thesis using False Some p RaiseError_ends [OF steps_mono [OF 0]] by (simp add: process_payload_def)
    next
      case (Inr frame)
      have "steps (0 + 1) s (s\<lparr>fs_reader := r, fs_visitor := fs_visitor s @ [OnFrame frame]\<rparr>)"
        using steps_trans [OF 0 steps_event [of "OnFrame frame"]] by simp
      then show ?thesis using False Some p Inr by (simp add: process_payload_def logging_def ends_def Let_def)
    qed
  qed
qed

lemma round_ends_trans: "steps c s s1 \<Longrightarrow> round_ends c' s1 x \<Longrightarrow> round_ends (c + c') s x"
  using steps_trans by (cases x) (fastforce simp: ends_def raised_def)+

lemma frame_ends: "round_ends 0 s (process_frame fr (logging p) l d s)"
proof (cases "ReadVarInt62 (fs_reader s)")
  case (Pair t r)
  show ?thesis
  proof (cases t)
    case None
    then show ?thesis using Pair RaiseError_ends [OF steps_read [OF keeps_varint shrinking_varint Pair]] by (simp add: process_frame_def)
  next
    case (Some ty)
    let ?s = "s\<lparr>fs_reader := r, fs_current_received_frame_type := ty\<rparr>"
    have 1: "steps (- 1) s (s\<lparr>fs_reader := r\<rparr>)" using Pair Some steps_varint by blast
    then have 2: "steps (- 1) s ?s" by (simp add: steps_def)
    have "round_ends (- 1 + 1) s (process_payload fr (logging p) l ty ?s)" by (rule round_ends_trans [OF 2 payload_ends])
    then show ?thesis using Pair Some RaiseError_ends [OF steps_mono [OF 1]] RaiseError_ends [OF steps_mono [OF 2]]
      by (simp add: process_frame_def Let_def)
  qed
qed

lemma frames_end: "process_frames fr (logging p) l d s = (ok, s') \<Longrightarrow> ends 0 s ok s'"
proof (induction fr "logging p" l d s rule: process_frames.induct)
  case (1 fr l d s)
  show ?case
  proof (cases "IsDoneReading (fs_reader s)")
    case True
    then show ?thesis using "1.prems" steps_refl [of 0 s] by (simp add: process_frames.simps [of _ _ _ _ s] ends_def)
  next
    case False
    show ?thesis
    proof (cases "process_frame fr (logging p) l d s")
      case (Return ok1 s1)
      then show ?thesis using "1.prems" False frame_ends [of s fr p l d] by (simp add: process_frames.simps [of _ _ _ _ s])
    next
      case (Continue s1)
      then have "process_frames fr (logging p) l d s1 = (ok, s')" using "1.prems" False by (simp add: process_frames.simps [of _ _ _ _ s])
      then have "round_ends 0 s1 (Return ok s')" using "1.hyps" False Continue by simp
      moreover have "steps 0 s s1" using frame_ends [of s fr p l d] Continue by simp
      ultimately show ?thesis using round_ends_trans by fastforce
    qed
  qed
qed

lemma frame_data_ends: "ProcessIetfFrameData fr (logging p) l d s = (ok, s') \<Longrightarrow> ends 0 s ok s'"
  using frames_end RaiseError_ends [OF steps_refl, of 0 s p QUIC_MISSING_PAYLOAD]
  by (auto simp: ProcessIetfFrameData_def returned_def split: if_splits)



subsection \<open>Properties\<close>

text \<open>C12: malformed packets are reported once. Whatever the bytes and whenever the visitor stops, \<open>ProcessIetfFrameData\<close> returns false exactly if it raised
  an error; then the error is recorded and is the last thing the visitor hears, and nothing the visitor heard before was an error.\<close>

theorem frame_data_errors:
  assumes "ProcessIetfFrameData fr (logging p) header_level decrypted_level s = (ok, s')" "fs_visitor s = []" "fs_error s = None"
  shows "if ok then fs_error s' = None \<and> quiet (fs_visitor s')
    else \<exists>e evs. fs_error s' = Some e \<and> fs_visitor s' = evs @ [OnError e] \<and> quiet evs"
  using frame_data_ends [OF assms(1)] assms(2,3) by (auto simp: ends_def raised_def steps_def)

definition bad_packet :: logged where
  "bad_packet = \<lparr>fs_reader = DataReader_new [1, 0x19, 5, 0x40, 2, 0] NETWORK_BYTE_ORDER, fs_visitor = [], fs_current_received_frame_type = 0,
     fs_error = None\<rparr>"

theorem frame_data_errors_witness:
  "\<exists>e evs. fs_error (snd (ProcessIetfFrameData plain_framer (logging (\<lambda>ev evs. True)) ENCRYPTION_FORWARD_SECURE ENCRYPTION_FORWARD_SECURE bad_packet)) = Some e \<and>
     fs_visitor (snd (ProcessIetfFrameData plain_framer (logging (\<lambda>ev evs. True)) ENCRYPTION_FORWARD_SECURE ENCRYPTION_FORWARD_SECURE bad_packet)) = evs @ [OnError e] \<and>
     length evs = 2"
proof -
  let ?x = "ProcessIetfFrameData plain_framer (logging (\<lambda>ev evs. True)) ENCRYPTION_FORWARD_SECURE ENCRYPTION_FORWARD_SECURE bad_packet"
  have n: "fst ?x = False" "length (fs_visitor (snd ?x)) = 3" and i: "fs_visitor bad_packet = []" "fs_error bad_packet = None" by code_simp+
  obtain ok s' where x: "?x = (ok, s')" by (cases ?x)
  show ?thesis using frame_data_errors [OF x i] n unfolding x by auto
qed

text \<open>C13: the loop over the frames ends on every input: each event the visitor hears is paid for with a byte of the packet, one last error
  excepted, so that the number of events is at most the number of bytes that were read plus one.\<close>

theorem frame_loop_bounded:
  "length (fs_visitor (snd (ProcessIetfFrameData fr (logging p) header_level decrypted_level s))) +
     BytesRemaining (fs_reader (snd (ProcessIetfFrameData fr (logging p) header_level decrypted_level s))) \<le>
   length (fs_visitor s) + BytesRemaining (fs_reader s) + 1"
proof -
  obtain ok s' where x: "ProcessIetfFrameData fr (logging p) header_level decrypted_level s = (ok, s')"
    by (cases "ProcessIetfFrameData fr (logging p) header_level decrypted_level s")
  then show ?thesis using frame_data_ends [OF x] by (auto simp: ends_def raised_def steps_def split: if_splits)
qed

text \<open>C23: the state of the framer stays well formed. Whatever the bytes, a reader whose position is inside its buffer has its position
  inside the same buffer afterwards, and never moves back.\<close>

theorem framing_well_formed:
  assumes "dr_ok (fs_reader s)" "ProcessIetfFrameData fr (logging p) header_level decrypted_level s = (ok, s')"
  shows "dr_ok (fs_reader s') \<and> dr_data (fs_reader s') = dr_data (fs_reader s) \<and> dr_len (fs_reader s') = dr_len (fs_reader s) \<and>
    dr_pos (fs_reader s) \<le> dr_pos (fs_reader s')"
  using frame_data_ends [OF assms(2)] assms(1) by (auto simp: ends_def raised_def steps_def inside_def split: if_splits)

theorem framing_well_formed_witness:
  "dr_ok (fs_reader (snd (ProcessIetfFrameData plain_framer (logging (\<lambda>ev evs. True)) ENCRYPTION_FORWARD_SECURE ENCRYPTION_FORWARD_SECURE bad_packet)))"
proof -
  have "dr_ok (fs_reader bad_packet)" by code_simp
  from framing_well_formed [OF this, of plain_framer "\<lambda>ev evs. True" ENCRYPTION_FORWARD_SECURE ENCRYPTION_FORWARD_SECURE]
  show ?thesis by (metis prod.collapse)
qed

end
