(* ===== verification/Received_Packets.thy ===== *)
theory Received_Packets
  imports Ack_Frame Rtt_Stats Call_Runs
begin

text \<open>
  The receiver's side of acknowledgements (\<open>quic_received_packet_manager.cc\<close>): which packets have arrived, which
  are still waited for, what the next ack frame says, and when it has to be sent. The manager keeps the packets in
  the interval set of its ack frame. The theorems relate it to the history of the packets it was given:
  the frame acknowledges only those, no packet is taken twice as long as no range was dropped for the limit on ranges, and
  an ack becomes due within the maximal delay of the first packet that asks for one.
\<close>

text \<open>The statistics a manager writes, through a pointer that the first constructor leaves null.\<close>

record reorder_stats =
  packets_reordered :: packet_count
  max_sequence_reordering :: packet_count
  max_time_reordering_us :: int

record received_packet_manager =
  rp_peer_least_packet_awaiting_ack :: packet_number
  rp_ack_frame :: ack_frame
  rp_ack_frame_updated :: bool
  rp_max_ack_ranges :: u64
  rp_time_largest_observed :: quic_time
  rp_save_timestamps :: bool
  rp_least_received :: packet_number
  rp_stats :: "reorder_stats option"
  rp_num_since_last_ack :: packet_count
  rp_min_received_before_ack_decimation :: u64
  rp_ack_frequency :: u64
  rp_ack_decimation_delay :: rat
  rp_unlimited_ack_decimation :: bool
  rp_one_immediate_ack :: bool
  rp_ignore_order :: bool
  rp_local_max_ack_delay :: delta
  rp_ack_timeout :: quic_time
  rp_time_of_previous_received_packet :: quic_time
  rp_was_last_packet_missing :: bool
  rp_last_sent_largest_acked :: packet_number
  rp_last_ack_frequency_seq :: int

record ack_frequency_frame =
  aff_control_frame_id :: u32
  aff_ignore_order :: bool
  aff_sequence_number :: u64
  aff_packet_tolerance :: u64
  aff_max_ack_delay :: delta

subsection \<open>Constants\<close>

definition kMaxPacketsAfterNewMissing :: u64 where "kMaxPacketsAfterNewMissing = 4"
definition kShortAckDecimationDelay :: rat where "kShortAckDecimationDelay = 1/8"
definition kDefaultDelayedAckTimeMs :: int where "kDefaultDelayedAckTimeMs = 25"
definition kDefaultRetransmittablePacketsBeforeAck :: packet_count where "kDefaultRetransmittablePacketsBeforeAck = 2"
definition kMaxRetransmittablePacketsBeforeAck :: packet_count where "kMaxRetransmittablePacketsBeforeAck = 10"
definition kMinReceivedBeforeAckDecimation :: packet_count where "kMinReceivedBeforeAckDecimation = 100"
definition kAckDecimationDelay :: rat where "kAckDecimationDelay = 1/4"

subsection \<open>Construction and configuration\<close>

definition ReceivedPacketManager_new :: "reorder_stats option \<Rightarrow> received_packet_manager" where
  "ReceivedPacketManager_new stats = \<lparr>
     rp_peer_least_packet_awaiting_ack = UninitializedPacketNumber, rp_ack_frame = AckFrame_new,
     rp_ack_frame_updated = False, rp_max_ack_ranges = 0, rp_time_largest_observed = 0,
     rp_save_timestamps = False, rp_least_received = UninitializedPacketNumber, rp_stats = stats,
     rp_num_since_last_ack = 0,
     rp_min_received_before_ack_decimation = kMinReceivedBeforeAckDecimation,
     rp_ack_frequency = kDefaultRetransmittablePacketsBeforeAck,
     rp_ack_decimation_delay = kAckDecimationDelay, rp_unlimited_ack_decimation = False,
     rp_one_immediate_ack = False, rp_ignore_order = False,
     rp_local_max_ack_delay = FromMilliseconds kDefaultDelayedAckTimeMs, rp_ack_timeout = 0,
     rp_time_of_previous_received_packet = 0, rp_was_last_packet_missing = False,
     rp_last_sent_largest_acked = UninitializedPacketNumber, rp_last_ack_frequency_seq = - 1\<rparr>"

text \<open>\<open>SetFromConfig\<close> is given what the client sent of the connection options AKD3, AKDU and 1ACK.\<close>

definition rp_SetFromConfig :: "bool \<Rightarrow> bool \<Rightarrow> bool \<Rightarrow> received_packet_manager \<Rightarrow> received_packet_manager" where
  "rp_SetFromConfig akd3 akdu one_ack m =
     (let m1 = (if akd3 then m\<lparr>rp_ack_decimation_delay := kShortAckDecimationDelay\<rparr> else m);
          m2 = (if akdu then m1\<lparr>rp_unlimited_ack_decimation := True\<rparr> else m1)
      in if one_ack then m2\<lparr>rp_one_immediate_ack := True\<rparr> else m2)"

definition rp_set_max_ack_ranges :: "u64 \<Rightarrow> received_packet_manager \<Rightarrow> received_packet_manager" where
  "rp_set_max_ack_ranges n m = m\<lparr>rp_max_ack_ranges := n\<rparr>"

definition rp_set_save_timestamps :: "bool \<Rightarrow> received_packet_manager \<Rightarrow> received_packet_manager" where
  "rp_set_save_timestamps b m = m\<lparr>rp_save_timestamps := b\<rparr>"

definition rp_set_min_received_before_ack_decimation :: "u64 \<Rightarrow> received_packet_manager \<Rightarrow> received_packet_manager" where
  "rp_set_min_received_before_ack_decimation n m = m\<lparr>rp_min_received_before_ack_decimation := n\<rparr>"

definition rp_set_ack_frequency :: "u64 \<Rightarrow> received_packet_manager \<Rightarrow> received_packet_manager" where
  "rp_set_ack_frequency n m = m\<lparr>rp_ack_frequency := n\<rparr>"

definition rp_set_local_max_ack_delay :: "delta \<Rightarrow> received_packet_manager \<Rightarrow> received_packet_manager" where
  "rp_set_local_max_ack_delay d m = m\<lparr>rp_local_max_ack_delay := d\<rparr>"

definition rp_set_connection_stats :: "reorder_stats option \<Rightarrow> received_packet_manager \<Rightarrow> received_packet_manager" where
  "rp_set_connection_stats st m = m\<lparr>rp_stats := st\<rparr>"

subsection \<open>Receiving\<close>

definition rp_IsMissing :: "packet_number \<Rightarrow> received_packet_manager \<Rightarrow> bool" where
  "rp_IsMissing p m \<longleftrightarrow> pn_IsInitialized (LargestAcked (rp_ack_frame m)) \<and> p < LargestAcked (rp_ack_frame m) \<and>
     \<not> pq_Contains p (af_packets (rp_ack_frame m))"

definition rp_IsAwaitingPacket :: "packet_number \<Rightarrow> received_packet_manager \<Rightarrow> bool" where
  "rp_IsAwaitingPacket p m \<longleftrightarrow> IsAwaitingPacket (rp_ack_frame m) p (rp_peer_least_packet_awaiting_ack m)"

text \<open>The statistics of a packet that arrives behind the largest one; a null pointer is dereferenced.\<close>

definition record_reordering :: "packet_number \<Rightarrow> quic_time \<Rightarrow> received_packet_manager \<Rightarrow> received_packet_manager result" where
  "record_reordering p receipt_time m =
     (let largest = LargestAcked (rp_ack_frame m) in
      if pn_IsInitialized largest \<and> largest > p then
        (case rp_stats m of
           None \<Rightarrow> Inl NullPointer
         | Some st \<Rightarrow> Inr (m\<lparr>rp_stats := Some (st\<lparr>
             packets_reordered := packets_reordered st + 1,
             max_sequence_reordering := max (max_sequence_reordering st) (largest - p),
             max_time_reordering_us := max (max_time_reordering_us st) (receipt_time - rp_time_largest_observed m)\<rparr>)\<rparr>))
      else Inr m)"

text \<open>The timestamps of an ack frame only take packets in the order of time.\<close>

definition record_timestamp :: "packet_number \<Rightarrow> quic_time \<Rightarrow> ack_frame \<Rightarrow> ack_frame" where
  "record_timestamp p receipt_time f =
     (if af_received_packet_times f \<noteq> [] \<and> snd (last (af_received_packet_times f)) > receipt_time then f
      else f\<lparr>af_received_packet_times := af_received_packet_times f @ [(p, receipt_time)]\<rparr>)"

definition RecordPacketReceived :: "packet_number \<Rightarrow> quic_time \<Rightarrow> received_packet_manager \<Rightarrow> received_packet_manager result" where
  "RecordPacketReceived p receipt_time m =
     (let m1 = m\<lparr>rp_was_last_packet_missing := rp_IsMissing p m\<rparr>;
          m2 = (if \<not> rp_ack_frame_updated m1
                then m1\<lparr>rp_ack_frame := (rp_ack_frame m1)\<lparr>af_received_packet_times := []\<rparr>\<rparr> else m1);
          m3 = m2\<lparr>rp_ack_frame_updated := True\<rparr>
      in case record_reordering p receipt_time m3 of
           Inl e \<Rightarrow> Inl e
         | Inr m4 \<Rightarrow>
             (let largest = LargestAcked (rp_ack_frame m4);
                  m5 = (if \<not> pn_IsInitialized largest \<or> p > largest
                        then m4\<lparr>rp_ack_frame := (rp_ack_frame m4)\<lparr>af_largest_acked := p\<rparr>,
                                rp_time_largest_observed := receipt_time\<rparr> else m4);
                  f = (rp_ack_frame m5)\<lparr>af_packets := pq_Add p (af_packets (rp_ack_frame m5))\<rparr>;
                  m6 = m5\<lparr>rp_ack_frame := (if rp_save_timestamps m5 then record_timestamp p receipt_time f else f)\<rparr>
              in Inr (m6\<lparr>rp_least_received :=
                   (if pn_IsInitialized (rp_least_received m6) then min (rp_least_received m6) p else p)\<rparr>)))"

subsection \<open>The ack frame\<close>

text \<open>The loop that drops the smallest ranges while there are more than \<open>max_ack_ranges_\<close>.\<close>

function drop_ranges :: "u64 \<Rightarrow> packet_number_queue \<Rightarrow> packet_number_queue result" where
  "drop_ranges n q =
     (if n > 0 \<and> pq_NumIntervals q > unat n
      then (case pq_RemoveSmallestInterval q of Inl e \<Rightarrow> Inl e | Inr q' \<Rightarrow> drop_ranges n q') else Inr q)"
  by pat_completeness auto
termination
  by (relation "measure (length \<circ> snd)")
     (auto simp: pq_RemoveSmallestInterval_def is_PopFront_def split: list.splits)

declare drop_ranges.simps [simp del]

definition GetUpdatedAckFrame :: "quic_time \<Rightarrow> received_packet_manager \<Rightarrow> (ack_frame \<times> received_packet_manager) result" where
  "GetUpdatedAckFrame approximate_now m =
     (let f = rp_ack_frame m;
          d = (if rp_time_largest_observed m = 0 then Delta_Infinite
               else if approximate_now < rp_time_largest_observed m then Delta_Zero
               else approximate_now - rp_time_largest_observed m)
      in case drop_ranges (rp_max_ack_ranges m) (af_packets f) of
           Inl e \<Rightarrow> Inl e
         | Inr q \<Rightarrow>
             (let f' = f\<lparr>af_ack_delay_time := d, af_packets := q,
                         af_received_packet_times :=
                           filter (\<lambda>(p, t). \<not> LargestAcked f - p \<ge> 255) (af_received_packet_times f)\<rparr>
              in Inr (f', m\<lparr>rp_ack_frame := f'\<rparr>)))"

definition DontWaitForPacketsBefore :: "packet_number \<Rightarrow> received_packet_manager \<Rightarrow> received_packet_manager" where
  "DontWaitForPacketsBefore least_unacked m =
     (if \<not> pn_IsInitialized least_unacked then m
      else if \<not> pn_IsInitialized (rp_peer_least_packet_awaiting_ack m) \<or> least_unacked > rp_peer_least_packet_awaiting_ack m then
        (case pq_RemoveUpTo least_unacked (af_packets (rp_ack_frame m)) of (packets_updated, q) \<Rightarrow>
           m\<lparr>rp_peer_least_packet_awaiting_ack := least_unacked,
             rp_ack_frame := (rp_ack_frame m)\<lparr>af_packets := q\<rparr>,
             rp_ack_frame_updated := (packets_updated \<or> rp_ack_frame_updated m)\<rparr>)
      else m)"

subsection \<open>When to send it\<close>

definition PeerFirstSendingPacketNumber :: "received_packet_manager \<Rightarrow> packet_number" where
  "PeerFirstSendingPacketNumber m = (if \<not> pn_IsInitialized (rp_least_received m) then 1 else rp_least_received m)"

definition AckFrequencyFrameReceived :: "received_packet_manager \<Rightarrow> bool" where
  "AckFrequencyFrameReceived m \<longleftrightarrow> rp_last_ack_frequency_seq m \<ge> 0"

text \<open>The first argument is the flag \<open>quic_ack_delay_alarm_granularity\<close>.\<close>

definition GetMaxAckDelay :: "bool \<Rightarrow> packet_number \<Rightarrow> rtt_stats \<Rightarrow> received_packet_manager \<Rightarrow> delta" where
  "GetMaxAckDelay granularity_flag last_received rtt m =
     (if AckFrequencyFrameReceived m \<or>
         last_received < PeerFirstSendingPacketNumber m + rp_min_received_before_ack_decimation m
      then rp_local_max_ack_delay m
      else let ack_delay = min (rp_local_max_ack_delay m) (delta_mult (rtt_min rtt) (rp_ack_decimation_delay m))
           in if granularity_flag then max ack_delay kAlarmGranularity else ack_delay)"

definition MaybeUpdateAckFrequency :: "packet_number \<Rightarrow> received_packet_manager \<Rightarrow> received_packet_manager" where
  "MaybeUpdateAckFrequency last_received m =
     (if AckFrequencyFrameReceived m then m
      else if last_received < PeerFirstSendingPacketNumber m + rp_min_received_before_ack_decimation m then m
      else m\<lparr>rp_ack_frequency := (if rp_unlimited_ack_decimation m then - 1 else kMaxRetransmittablePacketsBeforeAck)\<rparr>)"

definition HasMissingPackets :: "received_packet_manager \<Rightarrow> bool" where
  "HasMissingPackets m \<longleftrightarrow>
     (let q = af_packets (rp_ack_frame m) in
      if pq_Empty q then False
      else if pq_NumIntervals q > 1 then True
      else pn_IsInitialized (rp_peer_least_packet_awaiting_ack m) \<and> pq_Min q > rp_peer_least_packet_awaiting_ack m)"

definition HasNewMissingPackets :: "received_packet_manager \<Rightarrow> bool" where
  "HasNewMissingPackets m \<longleftrightarrow>
     (if rp_one_immediate_ack m
      then HasMissingPackets m \<and> pq_LastIntervalLength (af_packets (rp_ack_frame m)) = 1
      else HasMissingPackets m \<and> pq_LastIntervalLength (af_packets (rp_ack_frame m)) \<le> kMaxPacketsAfterNewMissing)"

definition MaybeUpdateAckTimeout ::
    "bool \<Rightarrow> bool \<Rightarrow> packet_number \<Rightarrow> quic_time \<Rightarrow> rtt_stats \<Rightarrow> received_packet_manager \<Rightarrow> received_packet_manager" where
  "MaybeUpdateAckTimeout granularity_flag should_last_packet_instigate_acks last_received now rtt m =
     (if \<not> rp_ack_frame_updated m then m
      else if \<not> rp_ignore_order m \<and> rp_was_last_packet_missing m \<and> pn_IsInitialized (rp_last_sent_largest_acked m) \<and>
              last_received < rp_last_sent_largest_acked m
      then m\<lparr>rp_ack_timeout := now\<rparr>
      else if \<not> should_last_packet_instigate_acks then m
      else let m1 = MaybeUpdateAckFrequency last_received (m\<lparr>rp_num_since_last_ack := rp_num_since_last_ack m + 1\<rparr>) in
        if rp_num_since_last_ack m1 \<ge> rp_ack_frequency m1 then m1\<lparr>rp_ack_timeout := now\<rparr>
        else if \<not> rp_ignore_order m1 \<and> HasNewMissingPackets m1 then m1\<lparr>rp_ack_timeout := now\<rparr>
        else let updated_ack_time = now + GetMaxAckDelay granularity_flag last_received rtt m1 in
          if \<not> Time_IsInitialized (rp_ack_timeout m1) \<or> rp_ack_timeout m1 > updated_ack_time
          then m1\<lparr>rp_ack_timeout := updated_ack_time\<rparr> else m1)"

definition ResetAckStates :: "received_packet_manager \<Rightarrow> received_packet_manager" where
  "ResetAckStates m =
     m\<lparr>rp_ack_frame_updated := False, rp_ack_timeout := 0, rp_num_since_last_ack := 0,
       rp_last_sent_largest_acked := LargestAcked (rp_ack_frame m)\<rparr>"

definition rp_OnAckFrequencyFrame :: "ack_frequency_frame \<Rightarrow> received_packet_manager \<Rightarrow> received_packet_manager" where
  "rp_OnAckFrequencyFrame frame m =
     (let new_sequence_number = sint (aff_sequence_number frame) in
      if new_sequence_number \<le> rp_last_ack_frequency_seq m then m
      else m\<lparr>rp_last_ack_frequency_seq := new_sequence_number,
             rp_ack_frequency := aff_packet_tolerance frame,
             rp_local_max_ack_delay := aff_max_ack_delay frame,
             rp_ignore_order := aff_ignore_order frame\<rparr>)"

subsection \<open>Histories\<close>

text \<open>The calls of a connection that change a manager, and what they owe it: a packet that is recorded is one that is
  awaited (\<open>QUICHE_DCHECK\<close>), and an ack frequency is not 0.\<close>

datatype rp_call =
    RpRecord packet_number quic_time
  | RpGetFrame quic_time
  | RpDontWait packet_number
  | RpTimeout bool bool packet_number quic_time rtt_stats
  | RpReset
  | RpFrequencyFrame ack_frequency_frame
  | RpConfig bool bool bool
  | RpMaxRanges u64
  | RpSaveTimestamps bool
  | RpMinReceived u64
  | RpAckFrequency u64
  | RpMaxDelay delta

fun rp_step :: "rp_call \<Rightarrow> received_packet_manager \<Rightarrow> received_packet_manager result" where
  "rp_step (RpRecord p t) m = RecordPacketReceived p t m"
| "rp_step (RpGetFrame now) m = map_sum id snd (GetUpdatedAckFrame now m)"
| "rp_step (RpDontWait l) m = Inr (DontWaitForPacketsBefore l m)"
| "rp_step (RpTimeout g i p now rtt) m = Inr (MaybeUpdateAckTimeout g i p now rtt m)"
| "rp_step RpReset m = Inr (ResetAckStates m)"
| "rp_step (RpFrequencyFrame f) m = Inr (rp_OnAckFrequencyFrame f m)"
| "rp_step (RpConfig a b c) m = Inr (rp_SetFromConfig a b c m)"
| "rp_step (RpMaxRanges n) m = Inr (rp_set_max_ack_ranges n m)"
| "rp_step (RpSaveTimestamps b) m = Inr (rp_set_save_timestamps b m)"
| "rp_step (RpMinReceived n) m = Inr (rp_set_min_received_before_ack_decimation n m)"
| "rp_step (RpAckFrequency n) m = Inr (rp_set_ack_frequency n m)"
| "rp_step (RpMaxDelay d) m = Inr (rp_set_local_max_ack_delay d m)"

text \<open>A run with its history: the packets recorded so far, and whether a range was ever dropped for the limit.\<close>

fun rp_recorded :: "rp_call \<Rightarrow> packet_number set \<Rightarrow> packet_number set" where
  "rp_recorded (RpRecord p t) R = insert p R"
| "rp_recorded _ R = R"

fun rp_drops :: "rp_call \<Rightarrow> received_packet_manager \<Rightarrow> bool" where
  "rp_drops (RpGetFrame now) m \<longleftrightarrow>
     rp_max_ack_ranges m > 0 \<and> pq_NumIntervals (af_packets (rp_ack_frame m)) > unat (rp_max_ack_ranges m)"
| "rp_drops _ m \<longleftrightarrow> False"

fun rp_history :: "rp_call \<Rightarrow> packet_number set \<times> bool \<times> received_packet_manager \<Rightarrow>
    (packet_number set \<times> bool \<times> received_packet_manager) result" where
  "rp_history e (R, dropped, m) = map_sum id (\<lambda>m'. (rp_recorded e R, dropped \<or> rp_drops e m, m')) (rp_step e m)"

fun rp_ok :: "rp_call \<Rightarrow> packet_number set \<times> bool \<times> received_packet_manager \<Rightarrow> bool" where
  "rp_ok (RpRecord p t) (R, dropped, m) \<longleftrightarrow> pn_IsInitialized p \<and> rp_IsAwaitingPacket p m"
| "rp_ok (RpAckFrequency n) _ \<longleftrightarrow> n > 0"
| "rp_ok _ _ \<longleftrightarrow> True"

definition rp_waits :: "packet_number \<Rightarrow> received_packet_manager \<Rightarrow> bool" where
  "rp_waits p m \<longleftrightarrow> \<not> pn_IsInitialized (rp_peer_least_packet_awaiting_ack m) \<or> p \<ge> rp_peer_least_packet_awaiting_ack m"

definition rp_packets :: "received_packet_manager \<Rightarrow> packet_number set" where
  "rp_packets m = is_set (af_packets (rp_ack_frame m))"

text \<open>The invariant: the intervals are in order; the packets are recorded ones that the peer still waits for, all of them
  unless a range was dropped, and always the largest; the largest and the least number seen are the
  extremes of the history; the counters of explicit congestion marks are never filled in.\<close>

fun rp_inv :: "packet_number set \<times> bool \<times> received_packet_manager \<Rightarrow> bool" where
  "rp_inv (R, dropped, m) \<longleftrightarrow>
     rp_stats m \<noteq> None \<and> \<not> af_ecn_counters_populated (rp_ack_frame m) \<and> is_ok (af_packets (rp_ack_frame m)) \<and> finite R \<and> UninitializedPacketNumber \<notin> R \<and>
     rp_packets m \<subseteq> {p \<in> R. rp_waits p m} \<and>
     (\<not> dropped \<longrightarrow> rp_packets m = {p \<in> R. rp_waits p m}) \<and>
     (R = {} \<longrightarrow> \<not> pn_IsInitialized (LargestAcked (rp_ack_frame m)) \<and> \<not> pn_IsInitialized (rp_least_received m)) \<and>
     (R \<noteq> {} \<longrightarrow> LargestAcked (rp_ack_frame m) = Max R \<and> rp_least_received m = Min R \<and>
        (rp_waits (Max R) m \<longrightarrow> Max R \<in> rp_packets m))"

subsection \<open>The parts of a step\<close>

lemma pn_next: "pn_IsInitialized p \<Longrightarrow> unat (p + 1) = Suc (unat p)"
  using unatSuc [of p] by (auto simp: pn_IsInitialized_def UninitializedPacketNumber_def add.commute eq_neg_iff_add_eq_0)

lemma iv_set_single: "pn_IsInitialized p \<Longrightarrow> iv_set (Interval p (p + 1)) = {p}"
  by (auto simp: iv_set_def word_less_nat_alt word_le_nat_alt pn_next word_unat_eq_iff)

lemma pq_Add_ok:
  assumes "is_ok q" "pn_IsInitialized p"
  shows "is_ok (pq_Add p q)" "is_set (pq_Add p q) = insert p (is_set q)"
  using is_AddOptimizedForAppend_ok [OF assms(1), of "Interval p (p + 1)"] assms(2)
  by (simp_all add: pq_Add_def iv_set_single)

lemma pq_Contains_ok: "is_ok q \<Longrightarrow> pq_Contains p q \<longleftrightarrow> pn_IsInitialized p \<and> p \<in> is_set q"
  by (simp add: pq_Contains_def is_Contains_value_ok)

lemma pq_RemoveUpTo_ok:
  assumes "is_ok q" "pn_IsInitialized l" "pq_RemoveUpTo l q = (u, q')"
  shows "is_ok q'" "is_set q' = is_set q \<inter> {l..}"
  using assms is_TrimLessThan_ok [OF assms(1), of l u q'] by (auto simp: pq_RemoveUpTo_def split: if_splits)

lemma drop_ranges_drop:
  "drop_ranges n q = Inr (if n > 0 then drop (length q - unat n) q else q)"
proof (induction n q rule: drop_ranges.induct)
  case (1 n q)
  show ?case
  proof (cases "n > 0 \<and> length q > unat n")
    case True
    then obtain i q' where q: "q = i # q'" by (cases q) auto
    have "pq_RemoveSmallestInterval q = Inr q'" by (simp add: q pq_RemoveSmallestInterval_def is_PopFront_def)
    then show ?thesis using 1 [of q'] True
      by (subst drop_ranges.simps) (simp add: pq_NumIntervals_def q Suc_diff_le)
  next
    case False
    then show ?thesis by (subst drop_ranges.simps) (auto simp: pq_NumIntervals_def)
  qed
qed

lemma drop_ok:
  assumes "is_ok q"
  shows "is_ok (drop k q)" "is_set (drop k q) \<subseteq> is_set q"
    and "k < length q \<Longrightarrow> x \<in> is_set q \<Longrightarrow> \<forall>y\<in>is_set q. y \<le> x \<Longrightarrow> x \<in> is_set (drop k q)"
proof -
  have q: "is_ok (take k q @ drop k q)" using assms by simp
  then show o: "is_ok (drop k q)" by (simp only: is_ok_append)
  show "is_set (drop k q) \<subseteq> is_set q" by (auto simp: is_set_def dest: in_set_dropD)
  assume k: "k < length q" "x \<in> is_set q" "\<forall>y\<in>is_set q. y \<le> x"
  then have j: "hd (drop k q) \<in> set (drop k q)" by simp
  have "iv_min (hd (drop k q)) \<in> is_set (drop k q)"
    using is_ok_nonempty [OF o j] j by (auto simp: is_set_def iv_set_def)
  then have "iv_min (hd (drop k q)) \<le> x" using k(3) by (auto simp: is_set_def dest: in_set_dropD)
  then have "x \<notin> is_set (take k q)" using is_set_below [OF q _ j] by fastforce
  moreover have "is_set q = is_set (take k q) \<union> is_set (drop k q)" by (metis append_take_drop_id is_set_simps(3))
  ultimately show "x \<in> is_set (drop k q)" using k(2) by auto
qed

text \<open>What a call can change of what the invariant speaks of.\<close>

definition rp_same :: "received_packet_manager \<Rightarrow> received_packet_manager \<Rightarrow> bool" where
  "rp_same m m' \<longleftrightarrow> rp_stats m' = rp_stats m \<and>
     af_ecn_counters_populated (rp_ack_frame m') = af_ecn_counters_populated (rp_ack_frame m) \<and>
     af_packets (rp_ack_frame m') = af_packets (rp_ack_frame m) \<and>
     LargestAcked (rp_ack_frame m') = LargestAcked (rp_ack_frame m) \<and> rp_least_received m' = rp_least_received m \<and>
     rp_peer_least_packet_awaiting_ack m' = rp_peer_least_packet_awaiting_ack m"

lemma rp_same_inv: "rp_same m m' \<Longrightarrow> rp_inv (R, d, m') \<longleftrightarrow> rp_inv (R, d, m)"
  by (simp add: rp_same_def rp_packets_def rp_waits_def)

lemma rp_same_refl: "rp_same m m"
  by (simp add: rp_same_def)

lemma MaybeUpdateAckTimeout_same: "rp_same m (MaybeUpdateAckTimeout g i p now rtt m)"
  by (simp add: rp_same_def MaybeUpdateAckTimeout_def MaybeUpdateAckFrequency_def Let_def)

lemma rp_settings_same:
  "rp_same m (ResetAckStates m)" "rp_same m (rp_OnAckFrequencyFrame f m)" "rp_same m (rp_SetFromConfig a b c m)"
  "rp_same m (rp_set_max_ack_ranges n m)" "rp_same m (rp_set_save_timestamps b m)"
  "rp_same m (rp_set_min_received_before_ack_decimation n m)" "rp_same m (rp_set_ack_frequency n m)"
  "rp_same m (rp_set_local_max_ack_delay d m)"
  by (simp_all add: rp_same_def ResetAckStates_def rp_OnAckFrequencyFrame_def rp_SetFromConfig_def rp_set_max_ack_ranges_def
      rp_set_save_timestamps_def rp_set_min_received_before_ack_decimation_def rp_set_ack_frequency_def
      rp_set_local_max_ack_delay_def Let_def)

text \<open>What decides on the next ack.\<close>

definition rp_timing :: "received_packet_manager \<Rightarrow> quic_time \<times> packet_count \<times> delta \<times> u64 \<times> rat" where
  "rp_timing m = (rp_ack_timeout m, rp_num_since_last_ack m, rp_local_max_ack_delay m, rp_ack_frequency m,
     rp_ack_decimation_delay m)"

lemma record_reordering_fields:
  assumes "rp_stats m \<noteq> None"
  obtains m' where "record_reordering p t m = Inr m'" "rp_stats m' \<noteq> None" "rp_ack_frame m' = rp_ack_frame m"
    "rp_least_received m' = rp_least_received m" "rp_ack_frame_updated m' = rp_ack_frame_updated m"
    "rp_peer_least_packet_awaiting_ack m' = rp_peer_least_packet_awaiting_ack m"
    "rp_timing m' = rp_timing m"
proof -
  obtain st where st: "rp_stats m = Some st" using assms by blast
  show thesis
  proof (cases "pn_IsInitialized (LargestAcked (rp_ack_frame m)) \<and> LargestAcked (rp_ack_frame m) > p")
    case True
    then obtain st' where "record_reordering p t m = Inr (m\<lparr>rp_stats := Some st'\<rparr>)"
      by (simp add: record_reordering_def Let_def st)
    then show thesis by (rule that) (simp_all add: rp_timing_def)
  next
    case False
    show thesis by (rule that [of m]) (use False in \<open>auto simp: record_reordering_def Let_def st\<close>)
  qed
qed

lemma RecordPacketReceived_fields:
  assumes "rp_stats m \<noteq> None"
  obtains m' where "RecordPacketReceived p t m = Inr m'" "rp_stats m' \<noteq> None"
    "af_packets (rp_ack_frame m') = pq_Add p (af_packets (rp_ack_frame m))"
    "LargestAcked (rp_ack_frame m') =
       (if pn_IsInitialized (LargestAcked (rp_ack_frame m)) then max p (LargestAcked (rp_ack_frame m)) else p)"
    "rp_least_received m' = (if pn_IsInitialized (rp_least_received m) then min (rp_least_received m) p else p)"
    "rp_peer_least_packet_awaiting_ack m' = rp_peer_least_packet_awaiting_ack m"
    "rp_ack_frame_updated m'"
    "rp_timing m' = rp_timing m"
    "af_ecn_counters_populated (rp_ack_frame m') = af_ecn_counters_populated (rp_ack_frame m)"
proof -
  define m1 where "m1 = m\<lparr>rp_was_last_packet_missing := rp_IsMissing p m\<rparr>"
  define m2 where "m2 = (if \<not> rp_ack_frame_updated m1
    then m1\<lparr>rp_ack_frame := (rp_ack_frame m1)\<lparr>af_received_packet_times := []\<rparr>\<rparr> else m1)"
  define m3 where "m3 = m2\<lparr>rp_ack_frame_updated := True\<rparr>"
  have m3: "rp_stats m3 = rp_stats m" "af_packets (rp_ack_frame m3) = af_packets (rp_ack_frame m)"
    "LargestAcked (rp_ack_frame m3) = LargestAcked (rp_ack_frame m)" "rp_least_received m3 = rp_least_received m"
    "rp_peer_least_packet_awaiting_ack m3 = rp_peer_least_packet_awaiting_ack m" "rp_ack_frame_updated m3"
    "rp_timing m3 = rp_timing m" "af_ecn_counters_populated (rp_ack_frame m3) = af_ecn_counters_populated (rp_ack_frame m)"
    by (simp_all add: rp_timing_def m3_def m2_def m1_def LargestAcked_def)
  have "rp_stats m3 \<noteq> None" using assms m3(1) by simp
  from record_reordering_fields [OF this, of p t] obtain m4 where m4: "record_reordering p t m3 = Inr m4"
    "rp_stats m4 \<noteq> None" "rp_ack_frame m4 = rp_ack_frame m3" "rp_least_received m4 = rp_least_received m3"
    "rp_ack_frame_updated m4 = rp_ack_frame_updated m3"
    "rp_peer_least_packet_awaiting_ack m4 = rp_peer_least_packet_awaiting_ack m3"
    "rp_timing m4 = rp_timing m3" by blast
  define m5 where "m5 = (if \<not> pn_IsInitialized (LargestAcked (rp_ack_frame m4)) \<or> p > LargestAcked (rp_ack_frame m4)
    then m4\<lparr>rp_ack_frame := (rp_ack_frame m4)\<lparr>af_largest_acked := p\<rparr>, rp_time_largest_observed := t\<rparr> else m4)"
  have m5: "af_packets (rp_ack_frame m5) = af_packets (rp_ack_frame m)"
    "LargestAcked (rp_ack_frame m5) =
       (if pn_IsInitialized (LargestAcked (rp_ack_frame m)) then max p (LargestAcked (rp_ack_frame m)) else p)"
    using m3(3) by (auto simp: m5_def m4(3) m3(2) max_def LargestAcked_def)
  have m5': "rp_stats m5 = rp_stats m4" "rp_least_received m5 = rp_least_received m4" "rp_ack_frame_updated m5 = rp_ack_frame_updated m4"
    "rp_peer_least_packet_awaiting_ack m5 = rp_peer_least_packet_awaiting_ack m4" "rp_timing m5 = rp_timing m4"
    "af_ecn_counters_populated (rp_ack_frame m5) = af_ecn_counters_populated (rp_ack_frame m4)"
    by (simp_all add: m5_def rp_timing_def)
  define f where "f = (rp_ack_frame m5)\<lparr>af_packets := pq_Add p (af_packets (rp_ack_frame m5))\<rparr>"
  define m6 where "m6 = m5\<lparr>rp_ack_frame := (if rp_save_timestamps m5 then record_timestamp p t f else f)\<rparr>"
  define m7 where "m7 = m6\<lparr>rp_least_received := (if pn_IsInitialized (rp_least_received m6) then min (rp_least_received m6) p else p)\<rparr>"
  have r: "RecordPacketReceived p t m = Inr m7"
    unfolding RecordPacketReceived_def Let_def m1_def [symmetric]
    unfolding m2_def [symmetric] unfolding m3_def [symmetric] m4(1) sum.case m5_def [symmetric]
    unfolding f_def [symmetric] unfolding m6_def [symmetric] m7_def ..
  have rt: "af_packets (record_timestamp p t f) = af_packets f" "LargestAcked (record_timestamp p t f) = LargestAcked f"
    "af_ecn_counters_populated (record_timestamp p t f) = af_ecn_counters_populated f" for f
    by (simp_all add: record_timestamp_def LargestAcked_def)
  have m7: "af_packets (rp_ack_frame m7) = pq_Add p (af_packets (rp_ack_frame m))"
    "LargestAcked (rp_ack_frame m7) = LargestAcked (rp_ack_frame m5)"
    "af_ecn_counters_populated (rp_ack_frame m7) = af_ecn_counters_populated (rp_ack_frame m5)"
    by (simp_all add: m7_def m6_def rt f_def m5(1) rt(2) [unfolded LargestAcked_def] LargestAcked_def)
  have m7': "rp_stats m7 = rp_stats m5" "rp_ack_frame_updated m7 = rp_ack_frame_updated m5" "rp_timing m7 = rp_timing m5"
    "rp_peer_least_packet_awaiting_ack m7 = rp_peer_least_packet_awaiting_ack m5"
    "rp_least_received m7 = (if pn_IsInitialized (rp_least_received m5) then min (rp_least_received m5) p else p)"
    by (simp_all add: m7_def m6_def rp_timing_def)
  show thesis by (rule that [OF r]) (use m3 m4 in \<open>simp_all add: m5 m5' m7 m7'\<close>)
qed

lemma RecordPacketReceived_inv:
  assumes inv: "rp_inv (R, d, m)" and p: "pn_IsInitialized p" "rp_IsAwaitingPacket p m"
  obtains m' where "RecordPacketReceived p t m = Inr m'" "rp_inv (insert p R, d, m')"
proof -
  from inv have st: "rp_stats m \<noteq> None" and ok: "is_ok (af_packets (rp_ack_frame m))" and fin: "finite R"
    and u: "UninitializedPacketNumber \<notin> R" by simp_all
  obtain m' where m': "RecordPacketReceived p t m = Inr m'" "rp_stats m' \<noteq> None"
    "af_packets (rp_ack_frame m') = pq_Add p (af_packets (rp_ack_frame m))"
    "LargestAcked (rp_ack_frame m') =
       (if pn_IsInitialized (LargestAcked (rp_ack_frame m)) then max p (LargestAcked (rp_ack_frame m)) else p)"
    "rp_least_received m' = (if pn_IsInitialized (rp_least_received m) then min (rp_least_received m) p else p)"
    "rp_peer_least_packet_awaiting_ack m' = rp_peer_least_packet_awaiting_ack m"
    "af_ecn_counters_populated (rp_ack_frame m') = af_ecn_counters_populated (rp_ack_frame m)"
    using RecordPacketReceived_fields [OF st, of p t] by blast
  have w: "rp_waits x m' = rp_waits x m" for x by (simp add: rp_waits_def m'(6))
  have wp: "rp_waits p m" using p(2) by (simp add: rp_IsAwaitingPacket_def IsAwaitingPacket_def rp_waits_def)
  have pk: "rp_packets m' = insert p (rp_packets m)" by (simp add: rp_packets_def m'(3) pq_Add_ok [OF ok p(1)])
  have ends: "LargestAcked (rp_ack_frame m') = Max (insert p R)" "rp_least_received m' = Min (insert p R)"
  proof -
    have "R \<noteq> {} \<Longrightarrow> pn_IsInitialized (Max R) \<and> pn_IsInitialized (Min R)"
      using u fin Max_in Min_in by (metis pn_IsInitialized_def)
    then show "LargestAcked (rp_ack_frame m') = Max (insert p R)" "rp_least_received m' = Min (insert p R)"
      using inv fin by (cases "R = {}"; simp add: m'(4,5) min.commute)+
  qed
  have mx: "rp_waits (Max (insert p R)) m \<Longrightarrow> Max (insert p R) \<in> insert p (rp_packets m)"
    using inv fin by (cases "R = {}") (auto simp: max_def)
  have "rp_inv (insert p R, d, m')"
    using inv p(1) wp mx
    by (auto simp: w pk ends m'(2,3,7) pq_Add_ok [OF ok p(1)] fin pn_IsInitialized_def simp del: Max_insert Min_insert)
  with m'(1) show thesis by (rule that)
qed

lemma GetUpdatedAckFrame_inv:
  assumes inv: "rp_inv (R, d, m)"
  obtains f m' where "GetUpdatedAckFrame now m = Inr (f, m')" "rp_ack_frame m' = f"
    "rp_inv (R, d \<or> rp_drops (RpGetFrame now) m, m')"
    "rp_max_ack_ranges m > 0 \<Longrightarrow> pq_NumIntervals (af_packets f) \<le> unat (rp_max_ack_ranges m)"
proof -
  define q where "q = af_packets (rp_ack_frame m)"
  define k where "k = (if rp_max_ack_ranges m > 0 then length q - unat (rp_max_ack_ranges m) else 0)"
  have q': "drop_ranges (rp_max_ack_ranges m) q = Inr (drop k q)" by (simp add: drop_ranges_drop k_def)
  from inv have ok: "is_ok q" and fin: "finite R" and pR: "rp_packets m \<subseteq> R" by (auto simp: q_def)
  obtain dl ts where g: "GetUpdatedAckFrame now m =
    (let f = (rp_ack_frame m)\<lparr>af_ack_delay_time := dl, af_packets := drop k q, af_received_packet_times := ts\<rparr>
     in Inr (f, m\<lparr>rp_ack_frame := f\<rparr>))"
    using q' unfolding GetUpdatedAckFrame_def q_def Let_def by simp
  define m' where "m' = m\<lparr>rp_ack_frame := (rp_ack_frame m)
    \<lparr>af_ack_delay_time := dl, af_packets := drop k q, af_received_packet_times := ts\<rparr>\<rparr>"
  have m': "GetUpdatedAckFrame now m = Inr (rp_ack_frame m', m')" "af_packets (rp_ack_frame m') = drop k q"
    "LargestAcked (rp_ack_frame m') = LargestAcked (rp_ack_frame m)" "rp_stats m' = rp_stats m"
    "rp_least_received m' = rp_least_received m" "rp_peer_least_packet_awaiting_ack m' = rp_peer_least_packet_awaiting_ack m"
    "af_ecn_counters_populated (rp_ack_frame m') = af_ecn_counters_populated (rp_ack_frame m)"
    by (simp_all add: g Let_def m'_def LargestAcked_def)
  have w: "rp_waits x m' = rp_waits x m" for x by (simp add: rp_waits_def m'(6))
  have pk: "rp_packets m' = is_set (drop k q)" "rp_packets m = is_set q" by (simp_all add: rp_packets_def m'(2) q_def)
  have sub: "rp_packets m' \<subseteq> rp_packets m" unfolding pk by (rule drop_ok(2) [OF ok])
  have same: "\<not> rp_drops (RpGetFrame now) m \<Longrightarrow> rp_packets m' = rp_packets m"
    by (auto simp: pk k_def q_def pq_NumIntervals_def)
  have mx: "Max R \<in> rp_packets m'" if "Max R \<in> rp_packets m"
  proof -
    have "q \<noteq> []" using that by (auto simp: pk)
    then have "k < length q" by (auto simp: k_def word_gt_0_unat)
    moreover have "\<forall>y\<in>is_set q. y \<le> Max R" using pR fin Max_ge unfolding pk by blast
    ultimately show ?thesis using drop_ok(3) [OF ok, of k "Max R"] that by (simp add: pk)
  qed
  have "rp_inv (R, d \<or> rp_drops (RpGetFrame now) m, m')"
    using inv sub same mx drop_ok(1) [OF ok, of k] by (auto simp: w m'(2-5,7))
  moreover have "rp_max_ack_ranges m > 0 \<Longrightarrow> pq_NumIntervals (af_packets (rp_ack_frame m')) \<le> unat (rp_max_ack_ranges m)"
    by (simp add: m'(2) pq_NumIntervals_def k_def)
  ultimately show thesis using that m'(1) by blast
qed

lemma DontWaitForPacketsBefore_inv:
  assumes inv: "rp_inv (R, d, m)"
  shows "rp_inv (R, d, DontWaitForPacketsBefore l m)"
proof (cases "pn_IsInitialized l \<and> (\<not> pn_IsInitialized (rp_peer_least_packet_awaiting_ack m) \<or> l > rp_peer_least_packet_awaiting_ack m)")
  case False
  then have "DontWaitForPacketsBefore l m = m" by (auto simp: DontWaitForPacketsBefore_def)
  then show ?thesis using inv by simp
next
  case True
  from inv have ok: "is_ok (af_packets (rp_ack_frame m))" by simp
  obtain u q where uq: "pq_RemoveUpTo l (af_packets (rp_ack_frame m)) = (u, q)" by fastforce
  note q = pq_RemoveUpTo_ok [OF ok _ uq]
  define m' where "m' = DontWaitForPacketsBefore l m"
  have m': "af_packets (rp_ack_frame m') = q" "LargestAcked (rp_ack_frame m') = LargestAcked (rp_ack_frame m)"
    "rp_stats m' = rp_stats m" "rp_least_received m' = rp_least_received m" "rp_peer_least_packet_awaiting_ack m' = l"
    "af_ecn_counters_populated (rp_ack_frame m') = af_ecn_counters_populated (rp_ack_frame m)"
    using True by (auto simp: m'_def DontWaitForPacketsBefore_def uq LargestAcked_def)
  have w: "rp_waits x m' \<longleftrightarrow> l \<le> x" "l \<le> x \<Longrightarrow> rp_waits x m" for x using True by (auto simp: rp_waits_def m'(5))
  have "rp_packets m' = rp_packets m \<inter> {l..}" using True q(2) by (simp add: rp_packets_def m'(1))
  then have "rp_inv (R, d, m')" using inv q(1) True by (auto simp: w m'(1-4,6) dest: w(2))
  then show ?thesis by (simp add: m'_def)
qed

subsection \<open>Every run\<close>

lemma rp_history_inv:
  assumes "rp_inv s" "rp_ok e s"
  shows "\<exists>s'. rp_history e s = Inr s' \<and> rp_inv s'"
proof -
  obtain R d m where s: "s = (R, d, m)" by (cases s)
  have inv: "rp_inv (R, d, m)" using assms(1) s by simp
  have same: "rp_step e m = Inr m' \<Longrightarrow> rp_same m m' \<Longrightarrow> rp_recorded e R = R \<Longrightarrow> \<not> rp_drops e m \<Longrightarrow> ?thesis" for m'
    using rp_same_inv [of m m' R d] inv by (auto simp: s)
  note keeps = same [OF _ MaybeUpdateAckTimeout_same] rp_settings_same [THEN same [rotated]]
  show ?thesis
  proof (cases e)
    case (RpRecord p t)
    then have "pn_IsInitialized p" "rp_IsAwaitingPacket p m" using assms(2) by (simp_all add: s)
    from RecordPacketReceived_inv [OF inv this, of t] obtain m' where "RecordPacketReceived p t m = Inr m'" "rp_inv (insert p R, d, m')" .
    then show ?thesis by (simp add: s RpRecord del: rp_inv.simps)
  next
    case (RpGetFrame now)
    from GetUpdatedAckFrame_inv [OF inv, of now] obtain f m' where
      "GetUpdatedAckFrame now m = Inr (f, m')" "rp_inv (R, d \<or> rp_drops (RpGetFrame now) m, m')" .
    then show ?thesis by (simp add: s RpGetFrame del: rp_inv.simps rp_drops.simps)
  next
    case (RpDontWait l)
    then show ?thesis using DontWaitForPacketsBefore_inv [OF inv, of l] by (auto simp: s simp del: rp_inv.simps)
  qed (rule keeps; simp)+
qed

interpretation rph: call_system rp_history rp_ok rp_inv "\<lambda>err. False"
  by unfold_locales (use rp_history_inv in fastforce)

lemma rp_new_inv: "rp_inv ({}, False, ReceivedPacketManager_new (Some st))"
  by (simp add: ReceivedPacketManager_new_def AckFrame_new_def LargestAcked_def rp_packets_def pn_IsInitialized_def)

text \<open>The history is the set of the packets recorded.\<close>

lemma rp_history_recorded:
  "run_calls rp_history es (R, d, m) = Inr (R', d', m') \<Longrightarrow> R' = R \<union> {p. \<exists>t. RpRecord p t \<in> set es}"
proof (induction es arbitrary: R d m)
  case (Cons e es)
  then obtain m1 where "rp_step e m = Inr m1" "run_calls rp_history es (rp_recorded e R, d \<or> rp_drops e m, m1) = Inr (R', d', m')"
    by (cases "rp_step e m") auto
  from Cons.IH [OF this(2)] show ?case by (cases e) auto
qed simp

text \<open>No packet is taken twice: one that was recorded is not awaited, unless a range was dropped.\<close>

lemma rp_no_replay:
  assumes "rp_inv (R, False, m)" "p \<in> R"
  shows "\<not> rp_IsAwaitingPacket p m"
proof -
  have "pn_IsInitialized p" using assms by (auto simp: pn_IsInitialized_def)
  then show ?thesis using assms
    by (auto simp: rp_IsAwaitingPacket_def IsAwaitingPacket_def pq_Contains_ok rp_waits_def rp_packets_def)
qed

subsection \<open>The time of the next ack\<close>

text \<open>Packets as the connection hands them on: recorded with the time of receipt, then, once their frames are
  processed, with whether they ask for an ack and the time of the clock.\<close>

fun rp_receive :: "bool \<Rightarrow> rtt_stats \<Rightarrow> (packet_number \<times> quic_time \<times> bool \<times> quic_time) list \<Rightarrow>
    received_packet_manager \<Rightarrow> received_packet_manager result" where
  "rp_receive g rtt [] m = Inr m"
| "rp_receive g rtt ((p, receipt_time, instigates, now) # pkts) m =
     (case RecordPacketReceived p receipt_time m of
        Inl e \<Rightarrow> Inl e
      | Inr m1 \<Rightarrow> rp_receive g rtt pkts (MaybeUpdateAckTimeout g instigates p now rtt m1))"

text \<open>The clock of each packet, and of those that asked for an ack.\<close>

fun packet_clock :: "packet_number \<times> quic_time \<times> bool \<times> quic_time \<Rightarrow> quic_time" where
  "packet_clock (p, receipt_time, instigates, now) = now"

definition ack_requests :: "(packet_number \<times> quic_time \<times> bool \<times> quic_time) list \<Rightarrow> quic_time list" where
  "ack_requests pkts = map packet_clock (filter (\<lambda>(p, r, i, now). i) pkts)"

text \<open>Delays are between 0 and a bound.\<close>

definition rp_delays :: "delta \<Rightarrow> received_packet_manager \<Rightarrow> bool" where
  "rp_delays D m \<longleftrightarrow> 0 \<le> rp_local_max_ack_delay m \<and> rp_local_max_ack_delay m \<le> D \<and> 0 \<le> rp_ack_decimation_delay m"

lemma GetMaxAckDelay_bounds:
  assumes "rp_delays D m" "kAlarmGranularity \<le> D" "0 \<le> rtt_min rtt"
  shows "0 \<le> GetMaxAckDelay g p rtt m \<and> GetMaxAckDelay g p rtt m \<le> D"
  using assms delta_mult_nonneg [of "rtt_min rtt" "rp_ack_decimation_delay m"]
  by (auto simp: rp_delays_def GetMaxAckDelay_def Let_def kAlarmGranularity_def)

text \<open>Requests \<open>ts\<close> so far, the last call at \<open>l\<close>: the timeout is set, and at most the bound after every request or due
  already; it is due if a request was not counted or the count has reached the ack frequency.\<close>

definition rp_due :: "delta \<Rightarrow> quic_time list \<Rightarrow> quic_time \<Rightarrow> received_packet_manager \<Rightarrow> bool" where
  "rp_due D ts l m \<longleftrightarrow>
     rp_delays D m \<and> 0 \<le> rp_ack_timeout m \<and> unat (rp_num_since_last_ack m) \<le> length ts \<and>
     (ts \<noteq> [] \<longrightarrow> 0 < rp_ack_timeout m) \<and> (\<forall>t\<in>set ts. rp_ack_timeout m \<le> max (t + D) l) \<and>
     (ts \<noteq> [] \<longrightarrow> unat (rp_num_since_last_ack m) < length ts \<or> rp_ack_frequency m \<le> rp_num_since_last_ack m \<longrightarrow>
        rp_ack_timeout m \<le> l)"

lemma rp_due_timing: "rp_timing m' = rp_timing m \<Longrightarrow> rp_due D ts l m' = rp_due D ts l m"
  by (simp add: rp_due_def rp_delays_def rp_timing_def)

lemma rp_due_later: "rp_due D ts l m \<Longrightarrow> l \<le> now \<Longrightarrow> rp_due D ts now m"
  by (fastforce simp: rp_due_def)

lemma rp_due_now:
  assumes "rp_due D ts l m" "l \<le> now" "0 < now" "rp_delays D m'" "rp_ack_timeout m' = now"
    "unat (rp_num_since_last_ack m') \<le> length ts'" "set ts' \<subseteq> insert now (set ts)"
  shows "rp_due D ts' now m'"
  using assms by (auto simp: rp_due_def)

lemma rp_due_step:
  assumes due: "rp_due D ts l m" and now: "l \<le> now" "0 < now" and upd: "rp_ack_frame_updated m"
    and n: "Suc (length ts) < 2 ^ 64" and D: "kAlarmGranularity \<le> D" "0 \<le> rtt_min rtt"
  shows "rp_due D (ts @ (if i then [now] else [])) now (MaybeUpdateAckTimeout g i p now rtt m)"
proof -
  define m1 where "m1 = MaybeUpdateAckFrequency p (m\<lparr>rp_num_since_last_ack := rp_num_since_last_ack m + 1\<rparr>)"
  define u where "u = now + GetMaxAckDelay g p rtt m1"
  have m1: "rp_ack_timeout m1 = rp_ack_timeout m" "rp_num_since_last_ack m1 = rp_num_since_last_ack m + 1"
    "rp_delays D m1"
    using due by (auto simp: m1_def MaybeUpdateAckFrequency_def rp_due_def rp_delays_def)
  have num: "unat (rp_num_since_last_ack m + 1) = Suc (unat (rp_num_since_last_ack m))"
    using due n by (simp add: rp_due_def unat_word_ariths)
  have u: "now \<le> u" "u \<le> now + D" using GetMaxAckDelay_bounds [OF m1(3) D, of g p] by (simp_all add: u_def)
  have d: "rp_delays D m" "unat (rp_num_since_last_ack m) \<le> length ts" using due by (simp_all add: rp_due_def)
  define A where "A \<longleftrightarrow> \<not> rp_ignore_order m \<and> rp_was_last_packet_missing m \<and>
    pn_IsInitialized (rp_last_sent_largest_acked m) \<and> p < rp_last_sent_largest_acked m"
  define C where "C \<longleftrightarrow> \<not> rp_ignore_order m1 \<and> HasNewMissingPackets m1"
  have M: "MaybeUpdateAckTimeout g i p now rtt m =
    (if A then m\<lparr>rp_ack_timeout := now\<rparr> else if \<not> i then m
     else if rp_ack_frequency m1 \<le> rp_num_since_last_ack m1 then m1\<lparr>rp_ack_timeout := now\<rparr>
     else if C then m1\<lparr>rp_ack_timeout := now\<rparr>
     else if rp_ack_timeout m = 0 \<or> u < rp_ack_timeout m then m1\<lparr>rp_ack_timeout := u\<rparr> else m1)"
    using upd unfolding MaybeUpdateAckTimeout_def m1_def [symmetric] Let_def u_def [symmetric] Time_IsInitialized_def
      A_def [symmetric] C_def [symmetric] m1(1) by (simp add: eq_commute [of 0])
  consider (order) A | (quiet) "\<not> A" "\<not> i" | (full) "\<not> A" i "rp_ack_frequency m1 \<le> rp_num_since_last_ack m1 \<or> C"
    | (set) "\<not> A" i "\<not> rp_ack_frequency m1 \<le> rp_num_since_last_ack m1" "\<not> C" by blast
  then show ?thesis
  proof cases
    case order
    then show ?thesis using rp_due_now [OF due now, of "m\<lparr>rp_ack_timeout := now\<rparr>"] d by (auto simp: M rp_delays_def)
  next
    case quiet
    then show ?thesis using rp_due_later [OF due now(1)] M by simp
  next
    case full
    then have "MaybeUpdateAckTimeout g i p now rtt m = m1\<lparr>rp_ack_timeout := now\<rparr>" using M by auto
    then show ?thesis using rp_due_now [OF due now, of "m1\<lparr>rp_ack_timeout := now\<rparr>"] m1 d num full(2)
      by (simp add: rp_delays_def)
  next
    case set
    have "rp_due D (ts @ [now]) now m2" if "rp_delays D m2" "rp_num_since_last_ack m2 = rp_num_since_last_ack m + 1"
      "rp_ack_frequency m2 = rp_ack_frequency m1" "0 < rp_ack_timeout m2" "rp_ack_timeout m2 \<le> u"
      "ts \<noteq> [] \<Longrightarrow> rp_ack_timeout m2 \<le> rp_ack_timeout m" for m2
      using due that u now set(3) by (fastforce simp: rp_due_def num m1)
    note st = this
    show ?thesis
    proof (cases "rp_ack_timeout m = 0 \<or> u < rp_ack_timeout m")
      case True
      then have "ts \<noteq> [] \<Longrightarrow> u \<le> rp_ack_timeout m" using due by (auto simp: rp_due_def)
      then show ?thesis using st [of "m1\<lparr>rp_ack_timeout := u\<rparr>"] True set m1 u now M by (simp add: rp_delays_def)
    next
      case False
      then have "0 < rp_ack_timeout m" using due by (auto simp: rp_due_def)
      then show ?thesis using st [of m1] False set m1 M by simp
    qed
  qed
qed

lemma rp_receive_due:
  assumes "rp_due D ts l m" "rp_stats m \<noteq> None" "sorted (l # map packet_clock pkts)"
    "\<forall>x\<in>set pkts. 0 < packet_clock x" "length ts + length pkts < 2 ^ 64" "kAlarmGranularity \<le> D" "0 \<le> rtt_min rtt"
  shows "\<exists>m'. rp_receive g rtt pkts m = Inr m' \<and>
    rp_due D (ts @ ack_requests pkts) (last (l # map packet_clock pkts)) m'"
  using assms
proof (induction pkts arbitrary: ts l m)
  case (Cons x pkts)
  obtain p r i now where x: "x = (p, r, i, now)" by (cases x)
  from RecordPacketReceived_fields [OF Cons.prems(2), of p r] obtain m1 where
    m1: "RecordPacketReceived p r m = Inr m1" "rp_stats m1 \<noteq> None" "rp_ack_frame_updated m1" "rp_timing m1 = rp_timing m" by blast
  define m2 where "m2 = MaybeUpdateAckTimeout g i p now rtt m1"
  have "rp_due D (ts @ (if i then [now] else [])) now m2" unfolding m2_def
    using Cons.prems m1 rp_due_timing [OF m1(4)] by (intro rp_due_step) (auto simp: x)
  moreover have "rp_stats m2 \<noteq> None" using m1(2) MaybeUpdateAckTimeout_same by (simp add: m2_def rp_same_def)
  moreover have "length (ts @ (if i then [now] else [])) + length pkts < 2 ^ 64"
    "sorted (now # map packet_clock pkts)" "\<forall>x\<in>set pkts. 0 < packet_clock x" using Cons.prems by (simp_all add: x)
  ultimately obtain m' where m': "rp_receive g rtt pkts m2 = Inr m'"
    "rp_due D ((ts @ (if i then [now] else [])) @ ack_requests pkts) (last (now # map packet_clock pkts)) m'"
    using Cons.IH [of "ts @ (if i then [now] else [])" now m2] Cons.prems(6,7) by blast
  have "ts @ ack_requests (x # pkts) = (ts @ (if i then [now] else [])) @ ack_requests pkts"
    by (simp add: ack_requests_def x)
  moreover have "last (l # map packet_clock (x # pkts)) = last (now # map packet_clock pkts)"
    by (simp add: x)
  ultimately show ?case using m' m1(1) by (simp only: x rp_receive.simps sum.case m2_def [symmetric]) auto
qed (simp add: ack_requests_def)

lemma rp_reset_due: "rp_delays D m \<Longrightarrow> rp_due D [] l (ResetAckStates m)"
  by (simp add: rp_due_def rp_delays_def ResetAckStates_def)

subsection \<open>Properties\<close>

text \<open>C3: whatever calls a connection makes, recording only awaited packets, the manager does not fail; its ack
  frame covers only packets that were recorded and that the peer still waits for, in separated ascending ranges, the largest
  always among them; and unless a range was dropped for the limit on ranges it covers all of them, and no recorded
  packet is awaited again.\<close>

theorem received_packets_exact:
  assumes "run_legal rp_history rp_ok es ({}, False, ReceivedPacketManager_new (Some st))"
  shows "\<exists>R dropped m. run_calls rp_history es ({}, False, ReceivedPacketManager_new (Some st)) = Inr (R, dropped, m) \<and>
    R = {p. \<exists>t. RpRecord p t \<in> set es} \<and> is_ok (af_packets (rp_ack_frame m)) \<and>
    rp_packets m \<subseteq> {p \<in> R. rp_waits p m} \<and>
    (dropped \<or> rp_packets m = {p \<in> R. rp_waits p m} \<and> (\<forall>p. p \<in> R \<longrightarrow> \<not> rp_IsAwaitingPacket p m)) \<and>
    (R = {} \<or> LargestAcked (rp_ack_frame m) = Max R \<and> (rp_waits (Max R) m \<longrightarrow> Max R \<in> rp_packets m))"
proof -
  obtain R d m where r: "run_calls rp_history es ({}, False, ReceivedPacketManager_new (Some st)) = Inr (R, d, m)"
    and inv: "rp_inv (R, d, m)"
    using rph.run_outcome [OF rp_new_inv assms] by (auto split: sum.splits simp del: rp_inv.simps)
  have "d \<or> (\<forall>p. p \<in> R \<longrightarrow> \<not> rp_IsAwaitingPacket p m)" using rp_no_replay [of R m] inv by (cases d) auto
  then show ?thesis using inv r rp_history_recorded [OF r] by auto
qed

theorem received_packets_exact_witness:
  "\<exists>R dropped m. run_calls rp_history [RpRecord 1 10, RpRecord 4 20, RpRecord 2 30, RpDontWait 2, RpGetFrame 40, RpReset]
      ({}, False, ReceivedPacketManager_new (Some \<lparr>packets_reordered = 0, max_sequence_reordering = 0, max_time_reordering_us = 0\<rparr>)) =
      Inr (R, dropped, m) \<and>
    R = {p. \<exists>t. RpRecord p t \<in> set [RpRecord 1 10, RpRecord 4 20, RpRecord 2 30, RpDontWait 2, RpGetFrame 40, RpReset]} \<and>
    is_ok (af_packets (rp_ack_frame m)) \<and> rp_packets m \<subseteq> {p \<in> R. rp_waits p m} \<and>
    (dropped \<or> rp_packets m = {p \<in> R. rp_waits p m} \<and> (\<forall>p. p \<in> R \<longrightarrow> \<not> rp_IsAwaitingPacket p m)) \<and>
    (R = {} \<or> LargestAcked (rp_ack_frame m) = Max R \<and> (rp_waits (Max R) m \<longrightarrow> Max R \<in> rp_packets m))"
  by (rule received_packets_exact) code_simp

text \<open>C14: from the moment an ack was sent, packets that arrive leave the ack timeout no later than the maximal delay after
  each packet that asked for an ack, unless it is already due; and once as many packets asked for one as the ack frequency
  says, the ack is due.\<close>

theorem ack_timeout_bounded:
  assumes "rp_stats m \<noteq> None" "rp_delays D m" "kAlarmGranularity \<le> D" "0 \<le> rtt_min rtt"
    "sorted (map packet_clock pkts)" "\<forall>x\<in>set pkts. 0 < packet_clock x" "length pkts < 2 ^ 64" "ack_requests pkts \<noteq> []"
  shows "\<exists>m'. rp_receive g rtt pkts (ResetAckStates m) = Inr m' \<and> Time_IsInitialized (rp_ack_timeout m') \<and>
    (\<forall>t\<in>set (ack_requests pkts). rp_ack_timeout m' \<le> max (t + D) (packet_clock (last pkts))) \<and>
    (length (ack_requests pkts) \<ge> unat (rp_ack_frequency m') \<longrightarrow> rp_ack_timeout m' \<le> packet_clock (last pkts))"
proof -
  have ne: "pkts \<noteq> []" using assms(8) by (auto simp: ack_requests_def)
  define l where "l = packet_clock (hd pkts)"
  have "sorted (l # map packet_clock pkts)" using assms(5) ne by (cases pkts) (auto simp: l_def)
  moreover have "rp_stats (ResetAckStates m) \<noteq> None" using assms(1) by (simp add: ResetAckStates_def)
  ultimately obtain m' where m': "rp_receive g rtt pkts (ResetAckStates m) = Inr m'"
    "rp_due D (ack_requests pkts) (last (l # map packet_clock pkts)) m'"
    using rp_receive_due [OF rp_reset_due [OF assms(2), of l], of pkts rtt g] assms(3,4,6,7) by auto
  have "last (l # map packet_clock pkts) = packet_clock (last pkts)" using ne by (simp add: last_map)
  then show ?thesis using m' assms(8) by (auto simp: rp_due_def Time_IsInitialized_def word_le_nat_alt)
qed

theorem ack_timeout_bounded_witness:
  "\<exists>m'. rp_receive True RttStats_new [(1, 5, True, 6), (2, 8, False, 9), (5, 10, True, 12)]
      (ResetAckStates (ReceivedPacketManager_new (Some \<lparr>packets_reordered = 0, max_sequence_reordering = 0, max_time_reordering_us = 0\<rparr>))) = Inr m' \<and>
    Time_IsInitialized (rp_ack_timeout m') \<and>
    (\<forall>t\<in>set (ack_requests [(1, 5, True, 6), (2, 8, False, 9), (5, 10, True, 12)]).
       rp_ack_timeout m' \<le> max (t + 25000) (packet_clock (last [(1, 5, True, 6), (2, 8, False, 9), (5 :: packet_number, 10, True, 12)]))) \<and>
    (length (ack_requests [(1, 5, True, 6), (2, 8, False, 9), (5, 10, True, 12)]) \<ge> unat (rp_ack_frequency m') \<longrightarrow>
       rp_ack_timeout m' \<le> packet_clock (last [(1, 5, True, 6), (2, 8, False, 9), (5 :: packet_number, 10, True, 12)]))"
  by (rule ack_timeout_bounded)
     (simp_all add: ReceivedPacketManager_new_def rp_delays_def FromMilliseconds_def kDefaultDelayedAckTimeMs_def
        kAckDecimationDelay_def kAlarmGranularity_def RttStats_new_def Delta_Zero_def ack_requests_def)

text \<open>Once a range was dropped for the limit, a packet of it that was recorded is awaited again.\<close>

lemma dropped_packet_awaited_again:
  "\<exists>R m. run_calls rp_history [RpMaxRanges 1, RpRecord 1 10, RpRecord 3 20, RpGetFrame 30]
     ({}, False, ReceivedPacketManager_new (Some \<lparr>packets_reordered = 0, max_sequence_reordering = 0, max_time_reordering_us = 0\<rparr>)) =
     Inr (R, True, m) \<and> 1 \<in> R \<and> rp_IsAwaitingPacket 1 m \<and> rp_IsMissing 1 m"
proof -
  define s where "s = run_calls rp_history [RpMaxRanges 1, RpRecord 1 10, RpRecord 3 20, RpGetFrame 30]
     ({}, False, ReceivedPacketManager_new (Some \<lparr>packets_reordered = 0, max_sequence_reordering = 0, max_time_reordering_us = 0\<rparr>))"
  have "case s of Inl e \<Rightarrow> False | Inr (R, d, m) \<Rightarrow> d \<and> 1 \<in> R \<and> rp_IsAwaitingPacket 1 m \<and> rp_IsMissing 1 m"
    unfolding s_def by code_simp
  then show ?thesis unfolding s_def [symmetric] by (auto split: sum.splits)
qed

end
