(* ===== verification/Tcp_App.thy ===== *)
theory Tcp_App
  imports Ieee_Float "HOL-Library.Word"
begin

text \<open>
  The TCP applications that the experiments compare QUIC with: the bulk sender of \<open>tcp-client.cc\<close>, the receiver of
  \<open>tcp-sink.cc\<close> and the count of finished sessions of \<open>tcp-tracer.cc\<close>. The socket is ns-3's: its functions are a parameter, and
  what a property relies on of them is a hypothesis. Times are nanoseconds; what goes to a trace file is a list of the values that are
  written.
\<close>

subsection \<open>The client\<close>

record tcp_client =
  cl_targetBytes :: u64
  cl_currentTxBytes :: u64
  cl_uuid :: u32
  cl_connected :: bool
  cl_trace :: bool
  cl_lastCountRateTime :: int
  cl_lastTxBytes :: u64
  cl_totalTxBytes :: u64

definition TcpClient_new :: "u64 \<Rightarrow> u32 \<Rightarrow> tcp_client" where
  "TcpClient_new bytes TcpClientIdCounter =
     \<lparr>cl_targetBytes = bytes, cl_currentTxBytes = 0, cl_uuid = TcpClientIdCounter, cl_connected = False, cl_trace = False,
      cl_lastCountRateTime = 0, cl_lastTxBytes = 0, cl_totalTxBytes = 0\<rparr>"

text \<open>The functions of the socket that the client calls.\<close>

record 's socket_ops =
  so_GetTxAvailable :: "'s \<Rightarrow> u32"
  so_Send :: "u32 \<Rightarrow> 's \<Rightarrow> int \<times> 's"
  so_Close :: "'s \<Rightarrow> 's"

text \<open>The loop of \<open>NotifiSendData\<close>. The first component of the result says that the function returned from inside the loop.\<close>

partial_function (option) notify_loop ::
  "u32 \<Rightarrow> 's socket_ops \<Rightarrow> tcp_client \<Rightarrow> 's \<Rightarrow> (bool \<times> tcp_client \<times> 's) option" where
  "notify_loop kMSS ops c s =
     (if cl_currentTxBytes c < cl_targetBytes c \<and> so_GetTxAvailable ops s > 0 then
        let left = cl_targetBytes c - cl_currentTxBytes c;
            to_write = ucast (min (ucast kMSS) left) :: u32;
            to_write = min to_write (so_GetTxAvailable ops s);
            (ret, s') = (if to_write > 0 then so_Send ops to_write s else (0, s))
        in if to_write > 0 \<and> ret < 0 then Some (True, c, s')
           else notify_loop kMSS ops (c\<lparr>cl_currentTxBytes := cl_currentTxBytes c + of_int ret\<rparr>) s'
      else Some (False, c, s))"

declare notify_loop.simps [code]

definition NotifiSendData :: "u32 \<Rightarrow> 's socket_ops \<Rightarrow> tcp_client \<Rightarrow> 's \<Rightarrow> (tcp_client \<times> 's) option" where
  "NotifiSendData kMSS ops c s =
     (case notify_loop kMSS ops c s of
        None \<Rightarrow> None
      | Some (returned, c', s') \<Rightarrow>
          Some (c', if \<not> returned \<and> cl_currentTxBytes c' \<ge> cl_targetBytes c' then so_Close ops s' else s'))"

definition ConnectionSucceeded :: "u32 \<Rightarrow> 's socket_ops \<Rightarrow> tcp_client \<Rightarrow> 's \<Rightarrow> (tcp_client \<times> 's) option" where
  "ConnectionSucceeded kMSS ops c s = NotifiSendData kMSS ops (c\<lparr>cl_connected := True\<rparr>) s"

definition OnCanWrite :: "u32 \<Rightarrow> 's socket_ops \<Rightarrow> tcp_client \<Rightarrow> 's \<Rightarrow> (tcp_client \<times> 's) option" where
  "OnCanWrite kMSS ops c s = (if cl_connected c then NotifiSendData kMSS ops c s else Some (c, s))"

definition StopApplication :: "'s socket_ops \<Rightarrow> tcp_client \<Rightarrow> 's \<Rightarrow> tcp_client \<times> 's" where
  "StopApplication ops c s = (c\<lparr>cl_connected := False\<rparr>, so_Close ops s)"

text \<open>A rate that is logged is given by the bytes and the milliseconds it is computed from.\<close>

definition TraceTxCallback :: "int \<Rightarrow> int \<Rightarrow> u32 \<Rightarrow> tcp_client \<Rightarrow> tcp_client \<times> (int \<times> u64 \<times> int) list" where
  "TraceTxCallback kRateCountGap now sz c =
     (let c = c\<lparr>cl_totalTxBytes := cl_totalTxBytes c + ucast sz\<rparr> in
      if cl_trace c then
        let c = (if cl_lastCountRateTime c = 0 then c\<lparr>cl_lastCountRateTime := now\<rparr> else c) in
        if now \<ge> cl_lastCountRateTime c + kRateCountGap then
          (c\<lparr>cl_lastTxBytes := cl_totalTxBytes c, cl_lastCountRateTime := now\<rparr>,
           [(now, cl_totalTxBytes c - cl_lastTxBytes c, (now - cl_lastCountRateTime c) sdiv 1000000)])
        else (c, [])
      else (c, []))"

definition LogLossInfo :: "bool \<Rightarrow> tcp_client \<Rightarrow> (u32 \<times> rat) option" where
  "LogLossInfo lossFlag c =
     (if lossFlag then
        let max_val = cl_totalTxBytes c; min_val = cl_targetBytes c
        in Some (cl_uuid c, if max_val > min_val
             then f64 (f64 (f64 (of_int (uint (max_val - min_val))) * 100) / f64 (of_int (uint max_val))) else 0)
      else None)"


subsection \<open>The sink\<close>

record tcp_sink =
  sk_trace :: bool
  sk_lastCountRateTime :: int
  sk_lastRxBytes :: u64
  sk_rxBytes :: u64
  sk_totalBytes :: int

text \<open>\<open>RecvFrom\<close> gives the packets that are waiting one after the other; an empty one ends the loop.\<close>

fun recv_loop :: "u32 list \<Rightarrow> u64 \<Rightarrow> u64 \<times> u32 list" where
  "recv_loop [] rxBytes = (rxBytes, [])"
| "recv_loop (sz # packets) rxBytes = (if sz = 0 then (rxBytes, packets) else recv_loop packets (rxBytes + ucast sz))"

datatype sink_event = OnGoodput int u64 int | SessionStop u32 int

definition HandleRead :: "int \<Rightarrow> int \<Rightarrow> u32 list \<Rightarrow> tcp_sink \<Rightarrow> tcp_sink \<times> u32 list \<times> sink_event list" where
  "HandleRead kRateCountGap now packets k =
     (let (rx, waiting) = recv_loop packets (sk_rxBytes k);
          k = k\<lparr>sk_rxBytes := rx\<rparr>;
          k = (if sk_trace k \<and> sk_lastCountRateTime k = 0 then k\<lparr>sk_lastCountRateTime := now\<rparr> else k);
          (k, evs) =
            (if sk_trace k \<and> now \<ge> sk_lastCountRateTime k + kRateCountGap
             then (k\<lparr>sk_lastRxBytes := sk_rxBytes k, sk_lastCountRateTime := now\<rparr>,
                   [OnGoodput now (sk_rxBytes k - sk_lastRxBytes k) ((now - sk_lastCountRateTime k) sdiv 1000000)])
             else (k, []))
      in (k, waiting, evs @ (if sk_totalBytes k > 0 \<and> of_int (sk_totalBytes k) = sk_rxBytes k
            then [SessionStop (ucast (sk_rxBytes k)) now] else [])))"


subsection \<open>The sessions of an experiment\<close>

record info_priv =
  ip_flows :: u32
  ip_bandwidth :: u32
  ip_flowCount :: u32
  ip_stopStamp :: int
  ip_bytes :: u64

definition SetExperimentInfo :: "u32 \<Rightarrow> u32 \<Rightarrow> info_priv \<Rightarrow> info_priv" where
  "SetExperimentInfo flow_num bottleneck_bw p = p\<lparr>ip_flows := flow_num, ip_bandwidth := bottleneck_bw\<rparr>"

text \<open>The second component is what is written when the last session has stopped: the time and the bytes the utilization is computed from.\<close>

definition OnSessionStop :: "u32 \<Rightarrow> int \<Rightarrow> info_priv \<Rightarrow> info_priv \<times> (int \<times> u64) option" where
  "OnSessionStop bytes stop p =
     (if ip_flows p = 0 then (p, None)
      else
        let p = p\<lparr>ip_bytes := ip_bytes p + ucast bytes, ip_flowCount := ip_flowCount p + 1\<rparr>;
            p = (if ip_stopStamp p = 0 \<or> stop > ip_stopStamp p then p\<lparr>ip_stopStamp := stop\<rparr> else p)
        in (p, if ip_flowCount p = ip_flows p \<and> ip_stopStamp p \<noteq> 0 then Some (ip_stopStamp p, ip_bytes p) else None))"


subsection \<open>Sending ends\<close>

text \<open>
  What ns-3 documents of a TCP socket: \<open>Send\<close> of no more bytes than \<open>GetTxAvailable\<close> gives either accepts all of them and returns their number, or
  fails with -1 and accepts none. \<open>accepted\<close> counts the bytes a socket has accepted; closing it does not change them.
\<close>

definition socket_ok :: "'s socket_ops \<Rightarrow> ('s \<Rightarrow> nat) \<Rightarrow> bool" where
  "socket_ok ops accepted \<longleftrightarrow>
     (\<forall>s n. 0 < n \<and> n \<le> so_GetTxAvailable ops s \<longrightarrow>
        (fst (so_Send ops n s) = - 1 \<and> accepted (snd (so_Send ops n s)) = accepted s) \<or>
        (fst (so_Send ops n s) = int (unat n) \<and> accepted (snd (so_Send ops n s)) = accepted s + unat n)) \<and>
     (\<forall>s. accepted (so_Close ops s) = accepted s)"

definition client_inv :: "('s \<Rightarrow> nat) \<Rightarrow> tcp_client \<Rightarrow> 's \<Rightarrow> bool" where
  "client_inv accepted c s \<longleftrightarrow> cl_currentTxBytes c \<le> cl_targetBytes c \<and> unat (cl_currentTxBytes c) = accepted s"

lemma to_write_bounds:
  fixes mss :: u32 and left :: u64 and avail :: u32
  assumes "0 < mss" "0 < left" "0 < avail"
  shows "0 < min (ucast (min (ucast mss) left)) avail" "unat (min (ucast (min (ucast mss) left)) avail) \<le> unat left"
proof -
  have m: "unat (ucast mss :: u64) = unat mss" using unat_bound [of mss] by (simp add: unsigned_ucast_eq take_bit_nat_eq_self)
  have u: "unat (min (ucast mss) left) = min (unat mss) (unat left)"
    by (simp add: min_def word_le_nat_alt m)
  have "min (unat mss) (unat left) < 2 ^ 32" using unat_bound [of mss] by simp
  then have "unat (ucast (min (ucast mss) left) :: u32) = min (unat mss) (unat left)"
    by (simp add: unsigned_ucast_eq take_bit_nat_eq_self u)
  then have w: "unat (min (ucast (min (ucast mss) left)) avail) = min (min (unat mss) (unat left)) (unat avail)"
    by (simp add: min_def word_le_nat_alt)
  show "unat (min (ucast (min (ucast mss) left)) avail) \<le> unat left" unfolding w by simp
  have "0 < min (min (unat mss) (unat left)) (unat avail)" using assms by (simp add: word_less_nat_alt)
  then show "0 < min (ucast (min (ucast mss) left)) avail" by (simp only: word_less_nat_alt w unat_0)
qed

lemma add_sent:
  fixes cur target :: u64 and n :: u32
  assumes "unat cur + unat n \<le> unat target"
  shows "unat (cur + of_int (int (unat n))) = unat cur + unat n"
proof -
  have "unat (of_int (int (unat n)) :: u64) = unat n"
    using unat_bound [of n] by (simp add: unsigned_ucast_eq take_bit_nat_eq_self)
  then show ?thesis using assms unat_bound [of target] by (subst unat_add_u64) simp_all
qed

lemma notify_loop_sends:
  assumes ok: "socket_ok ops accepted" "0 < mss" and "client_inv accepted c s"
  shows "\<exists>r c' s'. notify_loop mss ops c s = Some (r, c', s') \<and> client_inv accepted c' s' \<and>
    c' = c\<lparr>cl_currentTxBytes := cl_currentTxBytes c'\<rparr> \<and> cl_currentTxBytes c \<le> cl_currentTxBytes c' \<and>
    (r \<or> cl_currentTxBytes c' = cl_targetBytes c \<or> so_GetTxAvailable ops s' = 0)"
  using assms(3)
proof (induction "unat (cl_targetBytes c) - unat (cl_currentTxBytes c)" arbitrary: c s rule: less_induct)
  case less
  let ?left = "cl_targetBytes c - cl_currentTxBytes c"
  let ?n = "min (ucast (min (ucast mss) ?left) :: u32) (so_GetTxAvailable ops s)"
  show ?case
  proof (cases "cl_currentTxBytes c < cl_targetBytes c \<and> so_GetTxAvailable ops s > 0")
    case False
    then have "notify_loop mss ops c s = Some (False, c, s)" by (subst notify_loop.simps) (simp only: if_False)
    moreover have "cl_currentTxBytes c = cl_targetBytes c \<or> so_GetTxAvailable ops s = 0"
      using False less.prems by (auto simp: client_inv_def word_gt_0)
    ultimately show ?thesis using less.prems by (intro exI [of _ False] exI [of _ c] exI [of _ s]) simp
  next
    case True
    then have left: "unat ?left = unat (cl_targetBytes c) - unat (cl_currentTxBytes c)" using less_imp_le by (intro unat_sub) blast
    then have "0 < ?left" using True by (simp add: word_less_nat_alt)
    then have n: "0 < ?n" "unat ?n \<le> unat ?left" using to_write_bounds [OF ok(2)] True by blast+
    obtain ret s' where send: "so_Send ops ?n s = (ret, s')" by (cases "so_Send ops ?n s")
    then consider (failed) "ret = - 1" "accepted s' = accepted s" | (sent) "ret = int (unat ?n)" "accepted s' = accepted s + unat ?n"
    proof -
      have "?n \<le> so_GetTxAvailable ops s" by simp
      then have "(fst (so_Send ops ?n s) = - 1 \<and> accepted (snd (so_Send ops ?n s)) = accepted s) \<or>
          (fst (so_Send ops ?n s) = int (unat ?n) \<and> accepted (snd (so_Send ops ?n s)) = accepted s + unat ?n)"
        using ok(1) n(1) unfolding socket_ok_def by blast
      then show thesis using that by (auto simp only: send fst_conv snd_conv)
    qed
    then show ?thesis
    proof cases
      case failed
      then have "notify_loop mss ops c s = Some (True, c, s')" using True send n(1) by (subst notify_loop.simps) (simp add: Let_def)
      then show ?thesis using failed(2) less.prems by (intro exI [of _ True] exI [of _ c] exI [of _ s']) (simp add: client_inv_def)
    next
      case sent
      let ?c = "c\<lparr>cl_currentTxBytes := cl_currentTxBytes c + of_int ret\<rparr>"
      have fits: "unat (cl_currentTxBytes c) + unat ?n \<le> unat (cl_targetBytes c)"
        using n(2) left True unfolding word_less_nat_alt by linarith
      then have cur: "unat (cl_currentTxBytes ?c) = unat (cl_currentTxBytes c) + unat ?n"
      proof -
        have "cl_currentTxBytes ?c = cl_currentTxBytes c + of_int (int (unat ?n))" unfolding sent(1) by simp
        then show ?thesis using add_sent [OF fits] by metis
      qed
      have tgt: "cl_targetBytes ?c = cl_targetBytes c" by simp
      have inv: "client_inv accepted ?c s'"
        using less.prems sent(2) cur fits unfolding client_inv_def word_le_nat_alt cur tgt by linarith
      have "unat (cl_targetBytes ?c) - unat (cl_currentTxBytes ?c) < unat (cl_targetBytes c) - unat (cl_currentTxBytes c)"
        using n(1) True fits unfolding word_less_nat_alt cur tgt by (simp only: unat_0)
      from less.hyps [OF this inv] obtain r c' s'' where
        r: "notify_loop mss ops ?c s' = Some (r, c', s'')" "client_inv accepted c' s''" "c' = ?c\<lparr>cl_currentTxBytes := cl_currentTxBytes c'\<rparr>"
        "cl_currentTxBytes ?c \<le> cl_currentTxBytes c'" "r \<or> cl_currentTxBytes c' = cl_targetBytes ?c \<or> so_GetTxAvailable ops s'' = 0"
        by blast
      have "notify_loop mss ops c s = notify_loop mss ops ?c s'"
        using True send n(1) sent(1) by (subst notify_loop.simps) (simp add: Let_def)
      moreover have "cl_currentTxBytes c \<le> cl_currentTxBytes ?c" unfolding word_le_nat_alt cur by simp
      ultimately show ?thesis using r order_trans by (intro exI [of _ r] exI [of _ c'] exI [of _ s'']) auto
    qed
  qed
qed


subsection \<open>Runs of the client\<close>

text \<open>The simulator calls the client, and between the calls the network changes the socket, but not the bytes it has accepted.\<close>

datatype 's client_event = Connected | CanWrite | Stop | Network "'s \<Rightarrow> 's"

definition client_step :: "u32 \<Rightarrow> 's socket_ops \<Rightarrow> 's client_event \<Rightarrow> tcp_client \<times> 's \<Rightarrow> (tcp_client \<times> 's) option" where
  "client_step kMSS ops e x =
     (case (e, x) of
        (Connected, c, s) \<Rightarrow> ConnectionSucceeded kMSS ops c s
      | (CanWrite, c, s) \<Rightarrow> OnCanWrite kMSS ops c s
      | (Stop, c, s) \<Rightarrow> Some (StopApplication ops c s)
      | (Network f, c, s) \<Rightarrow> Some (c, f s))"

fun client_run :: "u32 \<Rightarrow> 's socket_ops \<Rightarrow> 's client_event list \<Rightarrow> tcp_client \<times> 's \<Rightarrow> (tcp_client \<times> 's) option" where
  "client_run kMSS ops [] x = Some x"
| "client_run kMSS ops (e # es) x = (case client_step kMSS ops e x of None \<Rightarrow> None | Some x' \<Rightarrow> client_run kMSS ops es x')"

definition network_ok :: "('s \<Rightarrow> nat) \<Rightarrow> 's client_event \<Rightarrow> bool" where
  "network_ok accepted e \<longleftrightarrow> (case e of Network f \<Rightarrow> (\<forall>s. accepted (f s) = accepted s) | _ \<Rightarrow> True)"

lemma NotifiSendData_sends:
  assumes "socket_ok ops accepted" "0 < mss" "client_inv accepted c s"
  shows "\<exists>c' s'. NotifiSendData mss ops c s = Some (c', s') \<and> client_inv accepted c' s' \<and> cl_targetBytes c' = cl_targetBytes c"
proof -
  from notify_loop_sends [OF assms] obtain r c' s' where l: "notify_loop mss ops c s = Some (r, c', s')" "client_inv accepted c' s'"
    "c' = c\<lparr>cl_currentTxBytes := cl_currentTxBytes c'\<rparr>" by blast
  have "cl_targetBytes c' = cl_targetBytes c" using l(3) by (metis tcp_client.select_convs(1) tcp_client.surjective tcp_client.update_convs(2))
  moreover have "client_inv accepted c' (so_Close ops s')" using l(2) assms(1) by (simp add: client_inv_def socket_ok_def)
  ultimately show ?thesis using l(1,2) by (simp add: NotifiSendData_def)
qed

lemma client_step_inv:
  assumes "socket_ok ops accepted" "0 < mss" "client_inv accepted c s" "network_ok accepted e"
  shows "\<exists>c' s'. client_step mss ops e (c, s) = Some (c', s') \<and> client_inv accepted c' s' \<and> cl_targetBytes c' = cl_targetBytes c"
proof (cases e)
  case Connected
  then show ?thesis using NotifiSendData_sends [OF assms(1,2), of "c\<lparr>cl_connected := True\<rparr>" s] assms(3)
    by (simp add: client_step_def ConnectionSucceeded_def client_inv_def)
next
  case CanWrite
  then show ?thesis using NotifiSendData_sends [OF assms(1-3)] assms(3) by (simp add: client_step_def OnCanWrite_def)
next
  case Stop
  then show ?thesis using assms(1,3) by (simp add: client_step_def StopApplication_def client_inv_def socket_ok_def)
next
  case (Network f)
  then show ?thesis using assms(3,4) by (simp add: client_step_def network_ok_def client_inv_def)
qed

lemma client_run_inv:
  "socket_ok ops accepted \<Longrightarrow> 0 < mss \<Longrightarrow> client_inv accepted c s \<Longrightarrow> list_all (network_ok accepted) es \<Longrightarrow>
   \<exists>c' s'. client_run mss ops es (c, s) = Some (c', s') \<and> client_inv accepted c' s' \<and> cl_targetBytes c' = cl_targetBytes c"
proof (induction es arbitrary: c s)
  case (Cons e es)
  obtain c1 s1 where 1: "client_step mss ops e (c, s) = Some (c1, s1)" "client_inv accepted c1 s1" "cl_targetBytes c1 = cl_targetBytes c"
    using client_step_inv [OF Cons.prems(1-3), of e] Cons.prems(4) by auto
  then show ?case using Cons.IH [OF Cons.prems(1,2) 1(2)] Cons.prems(4) by auto
qed simp


subsection \<open>Properties\<close>

text \<open>C20: the bulk sender ends and counts right. With a segment size above 0 and a TCP socket as documented, every run of calls returns, \<open>m_currentTxBytes\<close> is at every
  moment the number of bytes that the socket accepted, and never more than the target; and a call that may write goes on until the target is
  reached, the socket has no room or a \<open>Send\<close> fails.\<close>

theorem tcp_client_sends:
  assumes ok: "socket_ok ops accepted" "0 < mss" and start: "accepted s = 0" and es: "list_all (network_ok accepted) es"
  shows "\<exists>c' s'. client_run mss ops es (TcpClient_new target n, s) = Some (c', s') \<and>
    unat (cl_currentTxBytes c') = accepted s' \<and> cl_currentTxBytes c' \<le> target \<and>
    (\<exists>r c'' s''. notify_loop mss ops c' s' = Some (r, c'', s'') \<and>
      (r \<or> cl_currentTxBytes c'' = target \<or> so_GetTxAvailable ops s'' = 0))"
proof -
  have "client_inv accepted (TcpClient_new target n) s" using start by (simp add: client_inv_def TcpClient_new_def)
  from client_run_inv [OF ok this es] obtain c' s' where
    r: "client_run mss ops es (TcpClient_new target n, s) = Some (c', s')" "client_inv accepted c' s'" "cl_targetBytes c' = target"
    by (auto simp: TcpClient_new_def)
  then show ?thesis using notify_loop_sends [OF ok r(2)] by (fastforce simp: client_inv_def)
qed

text \<open>A socket with a buffer of 3000 bytes: the bytes in the buffer and all bytes that were accepted.\<close>

definition buffer_socket :: "(nat \<times> nat) socket_ops" where
  "buffer_socket =
     \<lparr>so_GetTxAvailable = \<lambda>(used, all). of_nat (3000 - used), so_Send = \<lambda>n (used, all). (int (unat n), used + unat n, all + unat n),
      so_Close = \<lambda>x. x\<rparr>"

theorem tcp_client_sends_witness:
  "\<exists>c' s'. client_run 1400 buffer_socket [Connected, Network (\<lambda>(used, all). (0, all)), CanWrite] (TcpClient_new 5000 0, (0, 0)) = Some (c', s') \<and>
     unat (cl_currentTxBytes c') = snd s'"
proof -
  have 1: "socket_ok buffer_socket snd" by (simp add: socket_ok_def buffer_socket_def split_beta)
  have 2: "list_all (network_ok snd) [Connected, Network (\<lambda>(used, all). (0, all)), CanWrite]" by (simp add: network_ok_def split_beta)
  have 3: "0 < (1400 :: u32)" "snd (0 :: nat, 0 :: nat) = 0" by simp_all
  from tcp_client_sends [OF 1 3 2, of 5000 0] show ?thesis by (elim exE conjE) (intro exI conjI, assumption+)
qed

end
