(* ===== verification/Server_Trace.thy ===== *)
theory Server_Trace
  imports Ieee_Float
begin

text \<open>
  The trace of one connection at the server, \<open>Ns3QuicServerTrace\<close> of \<open>ns3-quic-trace.cc\<close>: the one-way delay of every packet, the goodput and the
  packets that are taken for lost. A file is a flag that says whether it is open; what is written to the files is a list of lines. Times are
  nanoseconds.
\<close>

subsection \<open>Definitions\<close>

record server_trace =
  st_lastSeq :: int
  st_largestSeq :: int
  st_lostPackets :: int
  st_lastRateBytes :: int
  st_lastRateTime :: int
  st_readBytes :: int
  st_firstPacketTime :: int
  st_receiptTime :: int
  st_owd_open :: bool
  st_lost_open :: bool
  st_goodput_open :: bool

datatype trace_line = OwdLine int int int int | GoodputLine int rat | LostLine int int rat

definition E_QS_OWD :: u8 where "E_QS_OWD = 0x01"
definition E_QS_GOODPUT :: u8 where "E_QS_GOODPUT = 0x02"
definition E_QS_LOST :: u8 where "E_QS_LOST = 0x04"

unbundle bit_operations_syntax

definition Ns3QuicServerTrace_new :: "u8 \<Rightarrow> server_trace" where
  "Ns3QuicServerTrace_new e =
     \<lparr>st_lastSeq = 0, st_largestSeq = 0, st_lostPackets = 0, st_lastRateBytes = 0, st_lastRateTime = 0, st_readBytes = 0,
      st_firstPacketTime = 0, st_receiptTime = 0, st_owd_open = (e AND E_QS_OWD \<noteq> 0), st_lost_open = (e AND E_QS_LOST \<noteq> 0),
      st_goodput_open = (e AND E_QS_GOODPUT \<noteq> 0)\<rparr>"

text \<open>The rate is computed in \<open>double\<close> and stored in a \<open>float\<close>. \<open>GetMilliSeconds\<close> drops the fraction; an interval of at least a millisecond is assumed
  where a line is written, since C++ would divide by 0.\<close>

definition rate_kbps :: "int \<Rightarrow> int \<Rightarrow> rat" where
  "rate_kbps bytes delta = f32 (f64 (f64 (of_int bytes * 8) / of_int (delta sdiv 1000000)))"

definition LogGoodput :: "int \<Rightarrow> bool \<Rightarrow> server_trace \<Rightarrow> server_trace \<times> trace_line list" where
  "LogGoodput g_goodputInterval dtor t =
     (if st_goodput_open t then
        let delta = st_receiptTime t - st_lastRateTime t;
            line = GoodputLine (st_receiptTime t) (rate_kbps (st_readBytes t - st_lastRateBytes t) delta)
        in if dtor then (t, if st_receiptTime t > st_lastRateTime t then [line] else [])
           else if st_receiptTime t \<ge> st_lastRateTime t + g_goodputInterval
           then (t\<lparr>st_lastRateBytes := st_readBytes t, st_lastRateTime := st_receiptTime t\<rparr>, [line])
           else (t, [])
      else (t, []))"

definition owd_rates :: "int \<Rightarrow> int \<Rightarrow> int \<Rightarrow> int \<Rightarrow> int \<Rightarrow> server_trace \<Rightarrow> server_trace \<times> trace_line list" where
  "owd_rates g_goodputInterval now seq owd len t =
     (if st_owd_open t \<or> st_goodput_open t then
        let t = (if st_firstPacketTime t = 0 then t\<lparr>st_firstPacketTime := now, st_lastRateTime := now\<rparr> else t);
            t = t\<lparr>st_readBytes := st_readBytes t + len\<rparr>;
            (t, lines) = (if st_owd_open t then (t\<lparr>st_receiptTime := now\<rparr>, [OwdLine now seq owd len]) else (t, []));
            (t, lines') = LogGoodput g_goodputInterval False t
        in (t, lines @ lines')
      else (t, []))"

definition owd_losses :: "int \<Rightarrow> server_trace \<Rightarrow> server_trace" where
  "owd_losses seq t =
     (if st_lost_open t then
        let t = (if seq > st_lastSeq t - 1 then t\<lparr>st_lostPackets := st_lostPackets t + (seq - st_lastSeq t - 1)\<rparr> else t);
            t = (if seq > st_lastSeq t then t\<lparr>st_lastSeq := seq\<rparr> else t)
        in if seq > st_largestSeq t then t\<lparr>st_largestSeq := seq\<rparr> else t
      else t)"

definition OnOwd :: "int \<Rightarrow> int \<Rightarrow> int \<Rightarrow> int \<Rightarrow> int \<Rightarrow> server_trace \<Rightarrow> server_trace \<times> trace_line list" where
  "OnOwd g_goodputInterval now seq owd len t =
     (case owd_rates g_goodputInterval now seq owd len t of (t, lines) \<Rightarrow> (owd_losses seq t, lines))"

definition LogLostPackets :: "server_trace \<Rightarrow> trace_line list" where
  "LogLostPackets t =
     (if st_lost_open t
      then [LostLine (st_lostPackets t) (st_largestSeq t)
        (if st_largestSeq t > 0 then f32 (f64 (f64 (of_int (st_lostPackets t) * 100) / of_int (st_largestSeq t))) else 0)]
      else [])"

text \<open>The destructor.\<close>

definition Ns3QuicServerTrace_delete :: "int \<Rightarrow> server_trace \<Rightarrow> server_trace \<times> trace_line list" where
  "Ns3QuicServerTrace_delete g_goodputInterval t =
     (case LogGoodput g_goodputInterval True t of (t, lines) \<Rightarrow>
        (t\<lparr>st_owd_open := False, st_lost_open := False, st_goodput_open := False\<rparr>, lines @ LogLostPackets t))"

text \<open>A run of packets: the time of arrival, the sequence number, the delay and the length of each.\<close>

type_synonym arrival = "int \<times> int \<times> int \<times> int"

fun trace_run :: "int \<Rightarrow> arrival list \<Rightarrow> server_trace \<Rightarrow> server_trace \<times> trace_line list" where
  "trace_run g [] t = (t, [])"
| "trace_run g ((now, seq, owd, len) # as) t =
     (case OnOwd g now seq owd len t of (t, lines) \<Rightarrow> case trace_run g as t of (t, lines') \<Rightarrow> (t, lines @ lines'))"


subsection \<open>What is counted as lost\<close>

text \<open>The arrivals that are not below the largest sequence number before them.\<close>

fun on_time :: "int \<Rightarrow> int list \<Rightarrow> int" where
  "on_time m [] = 0"
| "on_time m (x # xs) = (if m \<le> x then 1 + on_time x xs else on_time m xs)"

definition largest :: "int \<Rightarrow> int list \<Rightarrow> int" where
  "largest m xs = fold max xs m"

lemma rates_keep_losses:
  "st_lost_open (fst (owd_rates g now seq owd len t)) = st_lost_open t"
  "st_lastSeq (fst (owd_rates g now seq owd len t)) = st_lastSeq t"
  "st_largestSeq (fst (owd_rates g now seq owd len t)) = st_largestSeq t"
  "st_lostPackets (fst (owd_rates g now seq owd len t)) = st_lostPackets t"
  by (simp_all add: owd_rates_def LogGoodput_def Let_def)

lemma trace_run_losses:
  assumes "st_lost_open t" "st_largestSeq t = st_lastSeq t"
  shows "st_lastSeq (fst (trace_run g as t)) = largest (st_lastSeq t) (map (\<lambda>(now, seq, owd, len). seq) as) \<and>
    st_largestSeq (fst (trace_run g as t)) = largest (st_lastSeq t) (map (\<lambda>(now, seq, owd, len). seq) as) \<and>
    st_lostPackets (fst (trace_run g as t)) = st_lostPackets t + largest (st_lastSeq t) (map (\<lambda>(now, seq, owd, len). seq) as) - st_lastSeq t -
      on_time (st_lastSeq t) (map (\<lambda>(now, seq, owd, len). seq) as)"
  using assms
proof (induction as arbitrary: t)
  case (Cons a as)
  obtain now seq owd len where a: "a = (now, seq, owd, len)" by (cases a)
  define u where "u = fst (OnOwd g now seq owd len t)"
  have u: "u = owd_losses seq (fst (owd_rates g now seq owd len t))" by (simp add: u_def OnOwd_def case_prod_beta)
  have s: "st_lost_open u" "st_lastSeq u = max seq (st_lastSeq t)" "st_largestSeq u = max seq (st_lastSeq t)"
    "st_lostPackets u = st_lostPackets t + (if st_lastSeq t \<le> seq then seq - st_lastSeq t - 1 else 0)"
    using Cons.prems by (auto simp: u owd_losses_def rates_keep_losses Let_def max_def)
  have "fst (trace_run g (a # as) t) = fst (trace_run g as u)" by (simp add: a u_def case_prod_beta)
  then show ?case using Cons.IH [of u] s by (auto simp: a largest_def max_def)
qed (simp add: largest_def)


subsection \<open>Properties\<close>

text \<open>C32: what the trace counts as lost. After any sequence of packets, in whatever order they arrive, \<open>m_lostPackets\<close> is the largest
  sequence number minus the number of packets that arrived with a sequence number not below all before them. So packets that come late stay counted as
  lost, and a repetition of the largest one is counted as one packet less.\<close>

theorem lost_packets_exact:
  assumes "e AND E_QS_LOST \<noteq> 0"
  shows "st_lostPackets (fst (trace_run g as (Ns3QuicServerTrace_new e))) =
    st_largestSeq (fst (trace_run g as (Ns3QuicServerTrace_new e))) - on_time 0 (map (\<lambda>(now, seq, owd, len). seq) as)"
  using trace_run_losses [of "Ns3QuicServerTrace_new e" g as] assms by (simp add: Ns3QuicServerTrace_new_def)

theorem lost_packets_exact_witness:
  "st_lostPackets (fst (trace_run 1000000000 [(5, 1, 2, 1400), (7, 4, 2, 1400), (9, 2, 3, 1400)] (Ns3QuicServerTrace_new 5))) = 2"
proof -
  have "(5 :: u8) AND E_QS_LOST \<noteq> 0" by code_simp
  moreover have "st_largestSeq (fst (trace_run 1000000000 [(5, 1, 2, 1400), (7, 4, 2, 1400), (9, 2, 3, 1400)] (Ns3QuicServerTrace_new 5))) = 4" by code_simp
  ultimately show ?thesis using lost_packets_exact [of 5 1000000000 "[(5, 1, 2, 1400), (7, 4, 2, 1400), (9, 2, 3, 1400)]"] by simp
qed

text \<open>A goodput trace without a delay trace stays empty while the interval between lines is positive.\<close>

lemma goodput_needs_owd:
  assumes "0 < g" "\<not> st_owd_open t" "st_receiptTime t = 0" "0 \<le> st_lastRateTime t" "list_all (\<lambda>(now, _). 0 \<le> now) as"
  shows "snd (trace_run g as t) = []"
  using assms
proof (induction as arbitrary: t)
  case (Cons a as)
  obtain now seq owd len where a: "a = (now, seq, owd, len)" by (cases a)
  define u where "u = fst (OnOwd g now seq owd len t)"
  have "snd (OnOwd g now seq owd len t) = []" "\<not> st_owd_open u" "st_receiptTime u = 0" "0 \<le> st_lastRateTime u"
    using Cons.prems by (auto simp: u_def a OnOwd_def owd_rates_def owd_losses_def LogGoodput_def Let_def)
  then show ?case using Cons.IH [of u] Cons.prems by (simp add: a u_def case_prod_beta)
qed simp

end
