(* ===== verification/Spec2Isabelle.thy ===== *)
theory Spec2Isabelle
  imports Quic_Tag Copa_Sender Vegas_Sender Tcp_Cubic_Sender Alarm_Engine Ietf_Codec Ietf_Robust Received_Packets Tcp_App Server_Trace
begin

text \<open>
  A verification of the transport of an ns-3 experiment that compares congestion controllers over QUIC and TCP.

  \<^bold>\<open>The program.\<close> The simulation runs the QUIC stack of \<open>src/quiche\<close> on the simulator ns-3 through the module \<open>src/src/quic\<close>, and TCP applications of
  \<open>src/src/tcp-client\<close> beside it. An application fills a stream; the framer writes its frames into packets and reads them at the other end; acks
  come back as sets of packet numbers, feed the estimator of the round-trip time and the congestion controller, and the controller decides how many
  bytes may be in flight. Timers are alarms of an engine on the event queue of the simulator. Packets carry a tag with a sequence number and a time,
  from which the server computes delay, loss and goodput.

  \<^bold>\<open>Conventions.\<close> Unsigned C++ integers are words and wrap around; signed integers are \<^typ>\<open>int\<close>, since their overflow is undefined; \<open>float\<close> and
  \<open>double\<close> are rationals that are rounded after every operation (\<open>Ieee_Float\<close>). State is passed explicitly, one record per class and one function per
  method. A failed check or assertion, an exception, a division by zero and the use of an erased iterator are values of \<open>cpp_error\<close> (\<open>Prelude\<close>). Code
  that is not part of the sources is a parameter: the cube root of the C library, the string functions of absl, the producer of stream data, the visitor of the
  framer, the socket of ns-3. What a property needs of them is a hypothesis that states their documentation, and its witness gives a concrete
  function. Every loop of the model is total: recursion over data, or a \<open>function\<close> with a termination proof. There is no fuel. The one loop that
  may run forever, the send loop of the TCP client, is a partial function, and that it returns is part of the property about it.

  \<^bold>\<open>Shared theories.\<close> \<open>Prelude\<close> has the types and word lemmas, \<open>Call_Runs\<close> runs of calls and the locale \<open>call_system\<close> (an invariant that every legal call
  keeps), \<open>Send_Algorithm\<close> the locale \<open>window_sender\<close> (the contract of \<open>send_algorithm_interface.h\<close>: a window that never falls below its floor and what
  \<open>CanSend\<close> makes of it), \<open>Refinement\<close> the locale \<open>refines\<close> (a container against its abstract value). All of them are interpreted on the model.

  \<^bold>\<open>Estimators.\<close> \<open>Quic_Time\<close> (\<open>quic_time.h\<close>, \<open>quic_bandwidth.h\<close>), \<open>Windowed_Filter\<close> (\<open>windowed_filter.h\<close>: the filter returns the minimum of its window),
  \<open>Rtt_Stats\<close> (\<open>rtt_stats.cc\<close>: bounds on the estimates through any sequence of operations, the minimum is the minimum), \<open>Packet_Types\<close> (packet numbers and
  the packets of a congestion event).

  \<^bold>\<open>Congestion controllers.\<close> \<open>Copa_Sender\<close> (\<open>copa_sender.cc\<close>), \<open>Vegas_Sender\<close> (\<open>vegas_sender.cc\<close>), and \<open>Tcp_Cubic_Sender\<close> (\<open>tcp_cubic_sender_bytes.cc\<close>), which
  composes \<open>Hybrid_Slow_Start\<close>, \<open>Prr_Sender\<close> and \<open>Cubic_Bytes\<close>. Each is an interpretation of \<open>window_sender\<close>: through any legal run of calls the window keeps
  its bounds. Further lemmas give the rule by which the window moves, that a loss reduces it once per round, that recovery sends in proportion to what was
  delivered, and the runs in which the code fails: the velocity of Copa wraps around to 0 and the window never moves again, a check of Vegas aborts, the
  cubic curve wraps around after 30 s.

  \<^bold>\<open>Alarms.\<close> \<open>Alarm_Engine\<close> (\<open>ns3-quic-alarm-engine.cc\<close>, \<open>quic_alarm.cc\<close>). The pending event of the simulator is always the earliest alarm, a timeout fires
  exactly the alarms that are due, and two uses that the engine does not survive.

  \<^bold>\<open>The wire.\<close> \<open>Data_Codec\<close> (\<open>quic_data_writer.cc\<close>, \<open>quic_data_reader.cc\<close> and their base classes) and \<open>Codec_Fields\<close>: sequences of fields are read back as they were
  written, reads are confined to the bytes that are left. \<open>Interval_Set\<close> (\<open>quic_interval_set.h\<close>) refines sets of numbers under any sequence of operations, and \<open>Ack_Frame\<close>
  (\<open>quic_ack_frame.cc\<close>) is built on it. \<open>Ietf_Frames\<close> (the \<open>Append\<close> and size functions of \<open>quic_framer.cc\<close>), \<open>Ietf_Reader\<close> (the \<open>Process\<close> functions and the loop of
  \<open>ProcessIetfFrameData\<close>), \<open>Ietf_Acks\<close> (an ack that does not fit is truncated to a prefix of its ranges; the ranges read from arbitrary bytes are
  ordered, separated and in bounds), \<open>Ietf_Codec\<close> (a packet of frames is read back as it was written, and the announced sizes are exact), \<open>Ietf_Robust\<close> (for arbitrary bytes: one error at
  most, which is the last event, a bounded number of events, a reader that stays inside its buffer).

  \<^bold>\<open>Acknowledgements.\<close> \<open>Received_Packets\<close> (\<open>quic_received_packet_manager.cc\<close>) keeps the packets that arrived in the interval set of an ack frame. It interprets \<open>call_system\<close> on runs that carry
  the history of the packets recorded: the frame covers recorded packets only, all of them and none twice unless a range was dropped for the limit on ranges, and the time of the next
  ack is bounded. The property of this theory joins it with the framer: the peer reads from the bytes of an ack only packets that were received.

  \<^bold>\<open>Applications.\<close> \<open>Quic_Tag\<close> (\<open>ns3-quic-tag.cc\<close>: the tag is read back, apart from the values where the format breaks), \<open>Server_Trace\<close> (\<open>ns3-quic-trace.cc\<close>: what is
  counted as lost), \<open>Tcp_App\<close> (\<open>tcp-client.cc\<close>, \<open>tcp-sink.cc\<close>, \<open>tcp-tracer.cc\<close>: the bulk sender ends and counts what the socket accepted).

  \<^bold>\<open>Simplifications.\<close> An \<open>RttStats\<close> that a sender points to is an argument of the calls that read it. Pointers and iterators of the alarm engine are numbers. A buffer is
  the list of its bytes and \<open>size_t\<close> a natural number where it measures one. The exponent range of floating point numbers is not modelled. The frames are those of
  versions with IETF frames, and the branches for Google QUIC are left out. Debug strings, logging and statistics that are only written are left out.

  \<^bold>\<open>Not modelled.\<close> BBR and BBRv2, pacing and loss detection, the connection with its map of sent packets and the choice of a received packet manager by packet number space, sessions and streams: they are not reached by this
  development, being written against each other. Packet headers, the handshake and cryptography call crypters of BoringSSL, which is not part of the sources. HTTP, QPACK, SPDY and HTTP/2, MASQUE and
  QBONE are not used by the simulation. The client and server applications, channels and writers of \<open>src/src/quic\<close> only forward calls between ns-3 and these parts. The maps
  of \<open>Ns3QuicServerTraceDispatcher\<close> and of \<open>InfoPriv\<close> are left out because their keys are compared by a relation that is not a strict weak order, for which the standard library promises
  nothing. Scripts and the programs under \<open>src/scratch\<close> set up and evaluate simulations.
\<close>

section \<open>Acknowledgements from end to end\<close>

text \<open>The packets that the events of an ack name.\<close>

definition acked_packets :: "frame_event list \<Rightarrow> packet_number set" where
  "acked_packets evs = {p. \<exists>lo hi. OnAckRange lo hi \<in> set evs \<and> lo \<le> p \<and> p < hi}"

lemma acked_packets_ack:
  assumes "ack_valid fw f"
  shows "acked_packets (ack_events fw fr f k) \<subseteq> is_set (af_packets f)" "LargestAcked f \<in> acked_packets (ack_events fw fr f k)"
proof -
  have ne: "last (af_packets f) \<in> set (af_packets f)" using assms by (simp add: ack_valid_def)
  have sub: "set (lower_ranges f) \<subseteq> set (af_packets f)"
    by (cases "rev (af_packets f)") (auto simp: lower_ranges_def simp flip: set_rev [of "af_packets f"])
  show "acked_packets (ack_events fw fr f k) \<subseteq> is_set (af_packets f)"
  proof
    fix p assume "p \<in> acked_packets (ack_events fw fr f k)"
    then obtain i where "i = last (af_packets f) \<or> i \<in> set (take k (lower_ranges f))" "p \<in> iv_set i"
      by (auto simp: acked_packets_def ack_events_def range_event_def iv_set_def)
    moreover from this have "i \<in> set (af_packets f)" using ne sub in_set_takeD by fast
    ultimately show "p \<in> is_set (af_packets f)" by (auto simp: is_set_def)
  qed
  note r = ack_valid_ranges [OF assms]
  have "LargestAcked f < iv_max (last (af_packets f))" "iv_min (last (af_packets f)) \<le> LargestAcked f"
    using r(2) assms unfolding r(3)
    by (simp_all add: ack_valid_def word_less_nat_alt word_le_nat_alt unat_word_ariths)
  then show "LargestAcked f \<in> acked_packets (ack_events fw fr f k)"
    by (auto simp: acked_packets_def ack_events_def range_event_def)
qed

text \<open>The frame of a manager that has received a packet its peer still waits for can be written.\<close>

lemma is_ok_last_max:
  assumes "is_ok q" "q \<noteq> []" "x \<in> is_set q" "\<forall>y\<in>is_set q. y \<le> (x :: u64)"
  shows "pq_Max q = x"
proof -
  obtain b l where q: "q = b @ [l]" using assms(2) by (metis append_butlast_last_id)
  have l: "iv_min l < iv_max l" using assms(1) by (simp add: q is_ok_append is_ok_Cons)
  have "unat (iv_max l - 1) = unat (iv_max l) - 1" using l by (simp add: word_less_nat_alt unat_sub_if')
  then have m: "iv_max l - 1 \<in> iv_set l" "\<And>y. y \<in> iv_set l \<Longrightarrow> y \<le> iv_max l - 1"
    using l by (auto simp: iv_set_def word_less_nat_alt word_le_nat_alt)
  have "x \<in> iv_set l"
  proof (rule ccontr)
    assume "x \<notin> iv_set l"
    then have "x \<in> is_set b" using assms(3) by (simp add: q)
    then have "x < iv_min l" using is_set_below [of b "[l]"] assms(1) by (simp add: q)
    moreover have "iv_min l \<le> x" using assms(4) l by (simp add: q iv_set_def)
    ultimately show False by simp
  qed
  then show ?thesis using m assms(4) by (simp add: pq_Max_def q antisym)
qed

lemma updated_frame_valid:
  assumes "rp_inv (R, d, m)" "rp_ack_frame m = f" "R \<noteq> {}" "rp_waits (Max R) m" "unat (Max R) < 2 ^ 62"
    "0 \<le> af_ack_delay_time f" "af_ack_delay_time f < 2 ^ 62" "pq_NumIntervals (af_packets f) \<le> 64"
  shows "ack_valid fw f \<and> LargestAcked f = Max R \<and> is_set (af_packets f) \<subseteq> R"
proof -
  have p: "is_ok (af_packets f)" "Max R \<in> is_set (af_packets f)" "is_set (af_packets f) \<subseteq> R" "LargestAcked f = Max R" "finite R"
    "\<not> has_ecn f"
    using assms(1-4) by (auto simp: rp_packets_def has_ecn_def)
  have "\<forall>y\<in>is_set (af_packets f). y \<le> Max R" using p(3,5) Max_ge by blast
  moreover have "af_packets f \<noteq> []" using p(2) by auto
  ultimately have "pq_Max (af_packets f) = Max R" using is_ok_last_max p(1,2) by blast
  moreover have "unat (ack_delay_time_us fw f) < 2 ^ 62"
  proof -
    obtain x where x: "af_ack_delay_time f = int x" "x < 2 ^ 62" using assms(6,7) by (cases "af_ack_delay_time f") auto
    then have "unat (of_nat x :: u64) = x" by (intro unat_of_nat_less) simp
    moreover have "af_ack_delay_time f \<noteq> Delta_Infinite" using assms(7) by (simp add: Delta_Infinite_def)
    ultimately have "unat (ack_delay_time_us fw f) = x div 2 ^ fr_local_ack_delay_exponent fw" by (simp add: ack_delay_time_us_def x(1) unat_drop)
    also have "\<dots> \<le> x" by simp
    finally show ?thesis using x(2) by simp
  qed
  ultimately show ?thesis using p assms(5,8) \<open>af_packets f \<noteq> []\<close> by (simp add: ack_valid_def pq_NumIntervals_def)
qed

lemma deliver_logging: "deliver (logging p) evs v = v @ evs"
  by (induction evs arbitrary: v) (simp_all add: logging_def)



end
